(* ===== verification/Mofs_Prelude.thy ===== *)
theory Mofs_Prelude
  imports Main "HOL-Library.Word"
begin

text \<open>
  Shared foundations of the MOFS development.

  \<^item> the error codes of \<open>include/mofs_errno.h\<close> as a datatype;
  \<^item> the program monad: a MOFS routine is a function from the world to an optional pair of a
    result (\<open>Inl\<close> an error code, \<open>Inr\<close> the values the C routine stores through its out
    parameters) and the new world. The world of a failing routine is kept, because a C routine
    that returns an error code keeps whatever it changed before. \<open>None\<close> is a routine that
    never returns (a chain walk over a cyclic list, a thread that waits for a lock it holds);
  \<^item> \<open>wp\<close>, the total-correctness weakest precondition of such a routine, with its rules;
  \<^item> byte-buffer operations (\<open>overwrite\<close> is \<open>memcpy\<close> into a buffer) and little-endian
    integers.
\<close>

section \<open>Collections\<close>

named_theorems wp_simps \<open>equations of the weakest precondition\<close>
named_theorems wp_rules \<open>introduction rules for the weakest precondition of a routine\<close>
named_theorems codec \<open>on-disk encodings and their inverses\<close>

section \<open>Machine types\<close>

type_synonym byte = "8 word"
type_synonym u16 = "16 word"
type_synonym u32 = "32 word"
type_synonym u64 = "64 word"

text \<open>The error codes of \<open>include/mofs_errno.h\<close>, in the order of the header.\<close>

datatype mofs_error =
    MOFS_EPERM | MOFS_ENOENT | MOFS_EIO | MOFS_ENXIO | MOFS_EBADF | MOFS_ENOMEM
  | MOFS_EACCES | MOFS_EFAULT | MOFS_EBUSY | MOFS_EEXIST | MOFS_EXDEV | MOFS_ENODEV
  | MOFS_ENOTDIR | MOFS_EISDIR | MOFS_EINVAL | MOFS_ENFILE | MOFS_EMFILE | MOFS_EFBIG
  | MOFS_ENOSPC | MOFS_ESPIPE | MOFS_EROFS | MOFS_EMLINK | MOFS_ENAMETOOLONG | MOFS_ENOSYS
  | MOFS_ENOTEMPTY | MOFS_ELOOP | MOFS_ENOTSUP

section \<open>The program monad\<close>

type_synonym 'a res = "mofs_error + 'a"
type_synonym ('w, 'a) prog = "'w \<Rightarrow> ('a res \<times> 'w) option"

definition ret :: "'a \<Rightarrow> ('w, 'a) prog" where
  "ret x = (\<lambda>w. Some (Inr x, w))"

definition throw :: "mofs_error \<Rightarrow> ('w, 'a) prog" where
  "throw e = (\<lambda>w. Some (Inl e, w))"

definition gets :: "('w \<Rightarrow> 'a) \<Rightarrow> ('w, 'a) prog" where
  "gets f = (\<lambda>w. Some (Inr (f w), w))"

definition modify :: "('w \<Rightarrow> 'w) \<Rightarrow> ('w, unit) prog" where
  "modify f = (\<lambda>w. Some (Inr (), f w))"

text \<open>A routine that never returns.\<close>

definition diverge :: "('w, 'a) prog" where
  "diverge = (\<lambda>w. None)"

text \<open>Sequencing: an error of the first routine is returned at once, with its world.\<close>

definition bind :: "('w, 'a) prog \<Rightarrow> ('a \<Rightarrow> ('w, 'b) prog) \<Rightarrow> ('w, 'b) prog" where
  "bind m f = (\<lambda>w. case m w of
       None \<Rightarrow> None
     | Some (r, w') \<Rightarrow> (case r of Inl e \<Rightarrow> Some (Inl e, w') | Inr x \<Rightarrow> f x w'))"

text \<open>The result of a routine as a value: what the code does when it looks at a return code
  before it decides, or discards it with a cast to void.\<close>

definition attempt :: "('w, 'a) prog \<Rightarrow> ('w, 'a res) prog" where
  "attempt m = (\<lambda>w. case m w of None \<Rightarrow> None | Some (r, w') \<Rightarrow> Some (Inr r, w'))"

definition from_res :: "'a res \<Rightarrow> ('w, 'a) prog" where
  "from_res r = (\<lambda>w. Some (r, w))"

text \<open>\<open>ensuring m c\<close> is the \<open>goto out\<close> idiom: \<open>c\<close> runs whatever \<open>m\<close> returned.\<close>

definition ensuring :: "('w, 'a) prog \<Rightarrow> ('w, unit) prog \<Rightarrow> ('w, 'a) prog" where
  "ensuring m c = bind (attempt m) (\<lambda>r. bind (attempt c) (\<lambda>_. from_res r))"

text \<open>\<open>on_error m undo\<close> runs \<open>undo\<close> when \<open>m\<close> fails and then returns the error of \<open>m\<close>;
  \<open>ignore m\<close> discards the return code.\<close>

definition on_error :: "('w, 'a) prog \<Rightarrow> ('w, 'b) prog \<Rightarrow> ('w, 'a) prog" where
  "on_error m undo = bind (attempt m) (\<lambda>r. case r of
       Inl e \<Rightarrow> bind (attempt undo) (\<lambda>_. throw e)
     | Inr x \<Rightarrow> ret x)"

definition ignore :: "('w, 'a) prog \<Rightarrow> ('w, unit) prog" where
  "ignore m = bind (attempt m) (\<lambda>_. ret ())"

text \<open>An early return with an error code.\<close>

definition throw_if :: "bool \<Rightarrow> mofs_error \<Rightarrow> ('w, unit) prog" where
  "throw_if b e = (if b then throw e else ret ())"

section \<open>Weakest preconditions\<close>

definition wp :: "('w, 'a) prog \<Rightarrow> ('a res \<Rightarrow> 'w \<Rightarrow> bool) \<Rightarrow> 'w \<Rightarrow> bool" where
  "wp m Q w = (case m w of None \<Rightarrow> False | Some (r, w') \<Rightarrow> Q r w')"

lemma wp_iff: "wp m Q w \<longleftrightarrow> (\<exists>r w'. m w = Some (r, w') \<and> Q r w')"
  by (auto simp: wp_def split: option.splits)

lemma wp_ret [wp_simps]: "wp (ret x) Q w = Q (Inr x) w"
  by (simp add: wp_def ret_def)

lemma wp_throw [wp_simps]: "wp (throw e) Q w = Q (Inl e) w"
  by (simp add: wp_def throw_def)

lemma wp_gets [wp_simps]: "wp (gets f) Q w = Q (Inr (f w)) w"
  by (simp add: wp_def gets_def)

lemma wp_modify [wp_simps]: "wp (modify f) Q w = Q (Inr ()) (f w)"
  by (simp add: wp_def modify_def)

lemma wp_from_res [wp_simps]: "wp (from_res r) Q w = Q r w"
  by (simp add: wp_def from_res_def)

lemma wp_bind [wp_simps]:
  "wp (bind m f) Q w =
     wp m (\<lambda>r w'. case r of Inl e \<Rightarrow> Q (Inl e) w' | Inr x \<Rightarrow> wp (f x) Q w') w"
  by (auto simp: wp_def bind_def split: option.splits sum.splits)

lemma wp_attempt [wp_simps]: "wp (attempt m) Q w = wp m (\<lambda>r w'. Q (Inr r) w') w"
  by (auto simp: wp_def attempt_def split: option.splits)

lemma wp_ensuring [wp_simps]:
  "wp (ensuring m c) Q w = wp m (\<lambda>r w'. wp c (\<lambda>_ w''. Q r w'') w') w"
  by (simp add: ensuring_def wp_simps)

lemma wp_throw_if [wp_simps]:
  "wp (throw_if b e) Q w = (if b then Q (Inl e) w else Q (Inr ()) w)"
  by (simp add: throw_if_def wp_simps)

lemma wp_if [wp_simps]: "wp (if b then m else n) Q w = (if b then wp m Q w else wp n Q w)"
  by simp

lemma wp_case_prod [wp_simps]:
  "wp (case p of (a, b) \<Rightarrow> f a b) Q w = (case p of (a, b) \<Rightarrow> wp (f a b) Q w)"
  by (simp split: prod.splits)

lemma wp_case_option [wp_simps]:
  "wp (case p of None \<Rightarrow> m | Some a \<Rightarrow> f a) Q w =
     (case p of None \<Rightarrow> wp m Q w | Some a \<Rightarrow> wp (f a) Q w)"
  by (simp split: option.splits)

lemma wp_case_sum [wp_simps]:
  "wp (case p of Inl a \<Rightarrow> g a | Inr b \<Rightarrow> f b) Q w =
     (case p of Inl a \<Rightarrow> wp (g a) Q w | Inr b \<Rightarrow> wp (f b) Q w)"
  by (simp split: sum.splits)

lemma wp_mono: "wp m P w \<Longrightarrow> (\<And>r w'. P r w' \<Longrightarrow> Q r w') \<Longrightarrow> wp m Q w"
  by (auto simp: wp_iff)

lemma wp_conj: "wp m P w \<Longrightarrow> wp m Q w \<Longrightarrow> wp m (\<lambda>r w'. P r w' \<and> Q r w') w"
  by (auto simp: wp_iff)

lemma wp_Some: "m w = Some (r, w') \<Longrightarrow> wp m Q w = Q r w'"
  by (simp add: wp_def)

lemma wp_outcome: "wp m Q w \<Longrightarrow> m w = Some (r, w') \<Longrightarrow> Q r w'"
  by (simp add: wp_def)

text \<open>Stepping through a sequence with a rule for its first routine.\<close>

lemma wp_bind_rule:
  assumes "wp m P w"
    and "\<And>e w'. P (Inl e) w' \<Longrightarrow> Q (Inl e) w'"
    and "\<And>x w'. P (Inr x) w' \<Longrightarrow> wp (f x) Q w'"
  shows "wp (bind m f) Q w"
  using assms by (auto simp: wp_simps elim!: wp_mono split: sum.splits)

text \<open>Monotonicity, which lets \<^theory_text>\<open>partial_function\<close> recurse through a sequence.\<close>

lemma bind_mono [partial_function_mono]:
  assumes "mono_option (\<lambda>g. B g w)" and "\<And>x w'. mono_option (\<lambda>g. C g x w')"
  shows "mono_option (\<lambda>g. bind (B g) (C g) w)"
proof -
  have mono_case: "mono_option (\<lambda>g. case fst p of
      Inl e \<Rightarrow> Some (Inl e, snd p) | Inr x \<Rightarrow> C g x (snd p))" for p
    by (cases "fst p") (simp_all add: assms(2) option.const_mono)
  have "mono_option (\<lambda>g. Option.bind (B g w) (\<lambda>p. case fst p of
      Inl e \<Rightarrow> Some (Inl e, snd p) | Inr x \<Rightarrow> C g x (snd p)))"
    by (rule Partial_Function.bind_mono [OF assms(1)])
      (rule mono_case)
  moreover have "(\<lambda>g. bind (B g) (C g) w) = (\<lambda>g. Option.bind (B g w) (\<lambda>p. case fst p of
      Inl e \<Rightarrow> Some (Inl e, snd p) | Inr x \<Rightarrow> C g x (snd p)))"
    by (rule ext) (auto simp: bind_def split: option.splits sum.splits)
  ultimately show ?thesis by simp
qed

lemma case_mono [partial_function_mono]:
  "mono_option (\<lambda>g. A g w) \<Longrightarrow> mono_option (\<lambda>g. B g w) \<Longrightarrow> mono_option (\<lambda>g. (if b then A g else B g) w)"
  "(\<And>e. mono_option (\<lambda>g. L g e w)) \<Longrightarrow> (\<And>x. mono_option (\<lambda>g. R g x w)) \<Longrightarrow>
     mono_option (\<lambda>g. (case r of Inl e \<Rightarrow> L g e | Inr x \<Rightarrow> R g x) w)"
  "(\<And>x y. mono_option (\<lambda>g. F g x y w)) \<Longrightarrow> mono_option (\<lambda>g. (case p of (x, y) \<Rightarrow> F g x y) w)"
  subgoal by (cases b) simp_all
  subgoal by (cases r) simp_all
  subgoal by (cases p) simp
  done

section \<open>Buffers\<close>

text \<open>\<open>overwrite off src buf\<close> is \<open>memcpy(buf + off, src, length src)\<close>, and
  \<open>chunk off n buf\<close> the \<open>n\<close> bytes at offset \<open>off\<close>.\<close>

definition overwrite :: "nat \<Rightarrow> 'a list \<Rightarrow> 'a list \<Rightarrow> 'a list" where
  "overwrite off src buf = take off buf @ src @ drop (off + length src) buf"

definition chunk :: "nat \<Rightarrow> nat \<Rightarrow> 'a list \<Rightarrow> 'a list" where
  "chunk off n buf = take n (drop off buf)"

lemma length_overwrite [simp]:
  "off + length src \<le> length buf \<Longrightarrow> length (overwrite off src buf) = length buf"
  by (simp add: overwrite_def)

lemma length_chunk: "length (chunk off n buf) = min n (length buf - off)"
  by (simp add: chunk_def)

lemma length_chunk_full [simp]: "off + n \<le> length buf \<Longrightarrow> length (chunk off n buf) = n"
  by (simp add: length_chunk)

lemma nth_overwrite:
  assumes "off + length src \<le> length buf" and "i < length buf"
  shows "overwrite off src buf ! i =
    (if off \<le> i \<and> i < off + length src then src ! (i - off) else buf ! i)"
  using assms by (auto simp: overwrite_def nth_append min_def)

lemma nth_chunk: "off + n \<le> length buf \<Longrightarrow> i < n \<Longrightarrow> chunk off n buf ! i = buf ! (off + i)"
  by (simp add: chunk_def)

lemma chunk_overwrite_same [simp]:
  assumes "off + length src \<le> length buf" and "n = length src"
  shows "chunk off n (overwrite off src buf) = src"
  using assms by (simp add: chunk_def overwrite_def)

lemma chunk_overwrite_disjoint:
  assumes "off + length src \<le> length buf" and "o' + n \<le> length buf"
    and "o' + n \<le> off \<or> off + length src \<le> o'"
  shows "chunk o' n (overwrite off src buf) = chunk o' n buf"
  using assms by (intro nth_equalityI) (auto simp: nth_chunk nth_overwrite)

lemma chunk_overwrite_inside:
  assumes "off + length src \<le> length buf" and "off \<le> o'" and "o' + n \<le> off + length src"
  shows "chunk o' n (overwrite off src buf) = chunk (o' - off) n src"
  using assms by (intro nth_equalityI) (auto simp: nth_chunk nth_overwrite)

lemma overwrite_overwrite_same [simp]:
  assumes "off + length src \<le> length buf" and "length src' = length src"
  shows "overwrite off src' (overwrite off src buf) = overwrite off src' buf"
  using assms by (intro nth_equalityI) (auto simp: nth_overwrite)

lemma overwrite_chunk_same [simp]: "off + n \<le> length buf \<Longrightarrow> overwrite off (chunk off n buf) buf = buf"
  by (intro nth_equalityI) (auto simp: nth_overwrite nth_chunk)

lemma overwrite_append:
  assumes "off + length a + length b \<le> length buf"
  shows "overwrite (off + length a) b (overwrite off a buf) = overwrite off (a @ b) buf"
  using assms by (intro nth_equalityI) (auto simp: nth_overwrite nth_append)

lemma overwrite_Nil [simp]: "overwrite off [] buf = buf"
  by (simp add: overwrite_def)

lemma overwrite_0_all [simp]: "length src = length buf \<Longrightarrow> overwrite 0 src buf = src"
  by (simp add: overwrite_def)

text \<open>A write of \<open>src\<close> over \<open>old\<close> that stopped somewhere: a prefix has been written.\<close>

definition torn :: "'a list \<Rightarrow> 'a list \<Rightarrow> 'a list \<Rightarrow> bool" where
  "torn src old new = (\<exists>t. new = overwrite 0 (take t src) old)"

lemma torn_none [simp]: "torn src old old"
  by (auto simp: torn_def intro!: exI [of _ 0])

lemma torn_all: "length src = length old \<Longrightarrow> torn src old src"
  by (auto simp: torn_def intro!: exI [of _ "length src"])

lemma torn_one:
  assumes "torn (old[i := x]) old new"
  shows "new = old \<or> new = old[i := x]"
proof -
  obtain t where t: "new = take t (old[i := x]) @ drop (min (length old) t) old"
    using assms by (auto simp: torn_def overwrite_def)
  show ?thesis
  proof (cases "i < t")
    case True
    then have "drop (min (length old) t) old = drop t (old[i := x])"
      by (cases "t \<le> length old") simp_all
    then show ?thesis using t by (metis append_take_drop_id)
  next
    case False
    then have "drop (min (length old) t) old = drop t old" by (cases "t \<le> length old") simp_all
    then show ?thesis using t False by simp
  qed
qed

text \<open>A torn write of a patch at an offset has written a prefix of the patch; where the new and the old
  content agree, nothing changes.\<close>

lemma torn_overwrite:
  assumes "torn (overwrite off p old) old new" and fit: "off + length p \<le> length old"
  shows "\<exists>q. torn p (chunk off (length p) old) q \<and> length q = length p \<and> new = overwrite off q old"
proof -
  obtain t where t: "new = overwrite 0 (take t (overwrite off p old)) old" using assms(1) by (auto simp: torn_def)
  let ?q = "overwrite 0 (take (t - off) p) (chunk off (length p) old)"
  have lq: "length ?q = length p" using fit by simp
  have "new = overwrite off ?q old"
    unfolding t
  proof (rule nth_equalityI, goal_cases)
    case 1
    show ?case using fit lq by simp
  next
    case (2 i)
    then have i: "i < length old" using fit by simp
    have "overwrite off ?q old ! i = (if off \<le> i \<and> i < off + length p then ?q ! (i - off) else old ! i)"
      using i lq fit by (simp add: nth_overwrite)
    moreover have "?q ! (i - off) = (if i < t then p ! (i - off) else old ! i)" if "off \<le> i" "i < off + length p"
      using that fit by (subst nth_overwrite) (auto simp: nth_chunk)
    moreover have "overwrite 0 (take t (overwrite off p old)) old ! i = (if i < t then overwrite off p old ! i else old ! i)"
      using i fit by (subst nth_overwrite) auto
    ultimately show ?case using i fit by (auto simp: nth_overwrite)
  qed
  moreover have "torn p (chunk off (length p) old) ?q" by (auto simp: torn_def)
  ultimately show ?thesis using lq by blast
qed

lemma torn_chunk:
  assumes "torn new old x" and "length new = length old" and "k + m \<le> length old" and "chunk k m new = chunk k m old"
  shows "chunk k m x = chunk k m old"
proof -
  obtain t where x: "x = overwrite 0 (take t new) old" using assms(1) by (auto simp: torn_def)
  have "new ! (k + i) = old ! (k + i)" if "i < m" for i
    using that assms(2-4) nth_chunk [of k m new i] nth_chunk [of k m old i] by simp
  then show ?thesis
    unfolding x using assms(2,3) by (intro nth_equalityI) (auto simp: nth_chunk nth_overwrite)
qed

lemma chunk_0_all [simp]: "n = length buf \<Longrightarrow> chunk 0 n buf = buf"
  by (simp add: chunk_def)

lemma chunk_chunk: "a + n \<le> m \<Longrightarrow> chunk a n (chunk off m buf) = chunk (off + a) n buf"
  by (simp add: chunk_def drop_take min_def add.commute)

lemma chunk_append: "chunk off (n + m) buf = chunk off n buf @ chunk (off + n) m buf"
  by (simp add: chunk_def take_add add.commute [of off])

lemma chunk_min_length [simp]:
  "chunk off (min n (length buf - off)) buf = chunk off n buf"
  by (simp add: chunk_def min_def)

lemma take_min_length [simp]: "take (min (length xs) k) xs = take k xs"
  by (simp add: min_def)

lemma chunk_join: "off + n = o' \<Longrightarrow> chunk off n buf @ chunk o' m buf = chunk off (n + m) buf"
  by (simp add: chunk_append)

text \<open>Records of size \<open>k\<close> at distinct indices of a buffer do not overlap.\<close>

lemma block_disjoint:
  fixes a b k :: nat
  assumes "a \<noteq> b"
  shows "a * k + k \<le> b * k \<or> b * k + k \<le> a * k"
proof -
  have "Suc a \<le> b \<or> Suc b \<le> a" using assms by linarith
  then have "Suc a * k \<le> b * k \<or> Suc b * k \<le> a * k" using mult_le_mono1 by blast
  then show ?thesis by (simp add: add.commute)
qed

lemma block_fits: "a < n \<Longrightarrow> n * k \<le> m \<Longrightarrow> a * k + k \<le> (m::nat)"
  by (metis Suc_leI add.commute le_trans mult_Suc mult_le_mono1)

lemma unat_word_of_nat: "k < 2 ^ 32 \<Longrightarrow> unat (word_of_nat k :: u32) = k"
  by (simp add: unat_of_nat take_bit_nat_eq_self)

section \<open>Searching\<close>

text \<open>The index of the first element with a property: the lookup loops that return -1 when
  they find nothing.\<close>

primrec first_idx :: "('a \<Rightarrow> bool) \<Rightarrow> 'a list \<Rightarrow> nat option" where
  "first_idx P [] = None"
| "first_idx P (x # xs) = (if P x then Some 0 else map_option Suc (first_idx P xs))"

lemma first_idx_None: "first_idx P xs = None \<longleftrightarrow> (\<forall>x\<in>set xs. \<not> P x)"
  by (induction xs) auto

lemma first_idx_Some:
  "first_idx P xs = Some i \<longleftrightarrow> i < length xs \<and> P (xs ! i) \<and> (\<forall>j<i. \<not> P (xs ! j))"
proof (induction xs arbitrary: i)
  case (Cons x xs)
  show ?case
  proof (cases i)
    case (Suc k)
    then show ?thesis using Cons by (auto simp: less_Suc_eq_0_disj)
  qed auto
qed simp

lemma first_idx_SomeD:
  "first_idx P xs = Some i \<Longrightarrow> i < length xs" "first_idx P xs = Some i \<Longrightarrow> P (xs ! i)"
  by (simp_all add: first_idx_Some)

section \<open>Little-endian integers\<close>

lemma unat_less: "unat (x :: 'a :: len word) < 2 ^ LENGTH('a)"
  by (rule unsigned_less)

primrec le_enc :: "nat \<Rightarrow> nat \<Rightarrow> byte list" where
  "le_enc 0 n = []"
| "le_enc (Suc k) n = word_of_nat n # le_enc k (n div 256)"

primrec le_dec :: "byte list \<Rightarrow> nat" where
  "le_dec [] = 0"
| "le_dec (b # bs) = unat b + 256 * le_dec bs"

lemma length_le_enc [simp]: "length (le_enc k n) = k"
  by (induction k arbitrary: n) simp_all

lemma le_dec_enc [simp]: "le_dec (le_enc k n) = n mod 256 ^ k"
proof (induction k arbitrary: n)
  case (Suc k)
  have "unat (word_of_nat n :: byte) = n mod 256"
    by (simp add: unat_of_nat take_bit_eq_mod)
  then show ?case using Suc
    by (simp add: mod_mult2_eq)
qed simp

lemma le_dec_less: "le_dec bs < 256 ^ length bs"
proof (induction bs)
  case (Cons b bs)
  have "unat b < 256" using unat_less [of b] by simp
  then show ?case using Cons by simp
qed simp

lemma le_enc_dec [simp]: "length bs = k \<Longrightarrow> le_enc k (le_dec bs) = bs"
proof (induction bs arbitrary: k)
  case (Cons b bs)
  have b: "unat b < 256" using unat_less [of b] by simp
  have "unat (word_of_nat (unat b + 256 * le_dec bs) :: byte) = unat b"
    using b by (simp add: unat_of_nat take_bit_eq_mod del: of_nat_add of_nat_mult)
  then have "word_of_nat (unat b + 256 * le_dec bs) = b"
    by (simp only: word_unat_eq_iff)
  then show ?case using Cons b by (cases k) auto
qed simp

definition put16 :: "u16 \<Rightarrow> byte list" where "put16 x = le_enc 2 (unat x)"
definition put32 :: "u32 \<Rightarrow> byte list" where "put32 x = le_enc 4 (unat x)"
definition put64 :: "u64 \<Rightarrow> byte list" where "put64 x = le_enc 8 (unat x)"

definition get16 :: "nat \<Rightarrow> byte list \<Rightarrow> u16" where "get16 off buf = word_of_nat (le_dec (chunk off 2 buf))"
definition get32 :: "nat \<Rightarrow> byte list \<Rightarrow> u32" where "get32 off buf = word_of_nat (le_dec (chunk off 4 buf))"
definition get64 :: "nat \<Rightarrow> byte list \<Rightarrow> u64" where "get64 off buf = word_of_nat (le_dec (chunk off 8 buf))"

lemma length_put [simp]: "length (put16 a) = 2" "length (put32 b) = 4" "length (put64 c) = 8"
  by (simp_all add: put16_def put32_def put64_def)

lemma get_chunk_put [codec]:
  "chunk off 2 buf = put16 a \<Longrightarrow> get16 off buf = a"
  "chunk off 4 buf = put32 b \<Longrightarrow> get32 off buf = b"
  "chunk off 8 buf = put64 c \<Longrightarrow> get64 off buf = c"
  using unat_less [of a] unat_less [of b] unat_less [of c]
  by (simp_all add: get16_def get32_def get64_def put16_def put32_def put64_def)

lemma put_get_chunk [codec]:
  "off + 2 \<le> length buf \<Longrightarrow> put16 (get16 off buf) = chunk off 2 buf"
  "off + 4 \<le> length buf \<Longrightarrow> put32 (get32 off buf) = chunk off 4 buf"
  "off + 8 \<le> length buf \<Longrightarrow> put64 (get64 off buf) = chunk off 8 buf"
  using le_dec_less [of "chunk off 2 buf"] le_dec_less [of "chunk off 4 buf"]
    le_dec_less [of "chunk off 8 buf"]
  by (simp_all add: get16_def get32_def get64_def put16_def put32_def put64_def
      unat_of_nat take_bit_eq_mod)

lemma get_put_app [codec]:
  "get16 0 (put16 a @ r) = a" "get32 0 (put32 b @ r) = b" "get64 0 (put64 c @ r) = c"
  by (simp_all add: get_chunk_put chunk_def)

lemma get_app_skip [codec]:
  "length p \<le> off \<Longrightarrow> get16 off (p @ r) = get16 (off - length p) r"
  "length p \<le> off \<Longrightarrow> get32 off (p @ r) = get32 (off - length p) r"
  "length p \<le> off \<Longrightarrow> get64 off (p @ r) = get64 (off - length p) r"
  by (simp_all add: get16_def get32_def get64_def chunk_def)

end
