(* ===== verification/Mofs_World.thy ===== *)
theory Mofs_World
  imports Mofs_Types
begin

text \<open>
  The world a MOFS routine runs in: the context, the handle pools, the caches, the caller's
  credentials, the locks, the backing device and the operating system.

  The operating system is Linux. Its calls may fail: \<open>os_fault\<close> gives, for the \<open>n\<close>-th
  call, whether it succeeds, fails with an errno or (a read or write) transfers fewer bytes than
  asked for. Nothing is assumed about it, so a theorem without a premise on \<open>os_fault\<close> covers
  every pattern of I/O and allocation failures; \<open>os_ok\<close> says that no further call fails.
  The backing store is a regular file or a block device with the read, write, lseek, fsync and
  fstat behaviour of POSIX. \<open>dv_stable\<close> is what survives a power loss: the content at the
  last fsync, with the writes of a descriptor opened for synchronous writes.

  The section on errno numbers models \<open>src/os/linux/service/os_errno.c\<close>, the last sections \<open>os_mem.c\<close>, \<open>os_time.c\<close> and \<open>os_sync.c\<close>.
\<close>

section \<open>Errno conversion\<close>

text \<open>\<open>os_to_mofs_errno\<close> and \<open>mofs_to_os_errno\<close> work on numbers; the code 0 of success
  is \<open>None\<close> on the MOFS side. The numbers are those of \<open>errno.h\<close> on Linux, where
  \<open>ENOTSUP\<close> and \<open>EOPNOTSUPP\<close> are the same number.\<close>

definition os_to_mofs_errno :: "int \<Rightarrow> mofs_error option" where
  "os_to_mofs_errno os_errno =
     (if os_errno = 0 then None
      else if os_errno = 1 then Some MOFS_EPERM
      else if os_errno = 2 then Some MOFS_ENOENT
      else if os_errno = 5 then Some MOFS_EIO
      else if os_errno = 6 then Some MOFS_ENXIO
      else if os_errno = 9 then Some MOFS_EBADF
      else if os_errno = 12 then Some MOFS_ENOMEM
      else if os_errno = 13 then Some MOFS_EACCES
      else if os_errno = 14 then Some MOFS_EFAULT
      else if os_errno = 16 then Some MOFS_EBUSY
      else if os_errno = 17 then Some MOFS_EEXIST
      else if os_errno = 18 then Some MOFS_EXDEV
      else if os_errno = 19 then Some MOFS_ENODEV
      else if os_errno = 20 then Some MOFS_ENOTDIR
      else if os_errno = 21 then Some MOFS_EISDIR
      else if os_errno = 22 then Some MOFS_EINVAL
      else if os_errno = 23 then Some MOFS_ENFILE
      else if os_errno = 24 then Some MOFS_EMFILE
      else if os_errno = 27 then Some MOFS_EFBIG
      else if os_errno = 28 then Some MOFS_ENOSPC
      else if os_errno = 29 then Some MOFS_ESPIPE
      else if os_errno = 30 then Some MOFS_EROFS
      else if os_errno = 31 then Some MOFS_EMLINK
      else if os_errno = 36 then Some MOFS_ENAMETOOLONG
      else if os_errno = 38 then Some MOFS_ENOSYS
      else if os_errno = 39 then Some MOFS_ENOTEMPTY
      else if os_errno = 40 then Some MOFS_ELOOP
      else if os_errno = 95 then Some MOFS_ENOTSUP
      else Some MOFS_EIO)"

primrec mofs_to_os_errno :: "mofs_error option \<Rightarrow> int" where
  "mofs_to_os_errno None = 0"
| "mofs_to_os_errno (Some e) = (case e of
       MOFS_EPERM \<Rightarrow> 1
     | MOFS_ENOENT \<Rightarrow> 2
     | MOFS_EIO \<Rightarrow> 5
     | MOFS_ENXIO \<Rightarrow> 6
     | MOFS_EBADF \<Rightarrow> 9
     | MOFS_ENOMEM \<Rightarrow> 12
     | MOFS_EACCES \<Rightarrow> 13
     | MOFS_EFAULT \<Rightarrow> 14
     | MOFS_EBUSY \<Rightarrow> 16
     | MOFS_EEXIST \<Rightarrow> 17
     | MOFS_EXDEV \<Rightarrow> 18
     | MOFS_ENODEV \<Rightarrow> 19
     | MOFS_ENOTDIR \<Rightarrow> 20
     | MOFS_EISDIR \<Rightarrow> 21
     | MOFS_EINVAL \<Rightarrow> 22
     | MOFS_ENFILE \<Rightarrow> 23
     | MOFS_EMFILE \<Rightarrow> 24
     | MOFS_EFBIG \<Rightarrow> 27
     | MOFS_ENOSPC \<Rightarrow> 28
     | MOFS_ESPIPE \<Rightarrow> 29
     | MOFS_EROFS \<Rightarrow> 30
     | MOFS_EMLINK \<Rightarrow> 31
     | MOFS_ENAMETOOLONG \<Rightarrow> 36
     | MOFS_ENOSYS \<Rightarrow> 38
     | MOFS_ENOTEMPTY \<Rightarrow> 39
     | MOFS_ELOOP \<Rightarrow> 40
     | MOFS_ENOTSUP \<Rightarrow> 95)"

lemma os_to_mofs_to_os: "os_to_mofs_errno (mofs_to_os_errno e) = e"
proof (cases e)
  case (Some a)
  then show ?thesis by (cases a) (simp_all add: os_to_mofs_errno_def)
qed (simp add: os_to_mofs_errno_def)

lemma os_to_mofs_errno_0 [simp]: "os_to_mofs_errno 0 = None"
  by (simp add: os_to_mofs_errno_def)

lemma os_to_mofs_errno_None [simp]: "os_to_mofs_errno n = None \<longleftrightarrow> n = 0"
  by (simp add: os_to_mofs_errno_def)

section \<open>State\<close>

datatype os_fault = NoFault | SysErr int | ShortXfer nat

text \<open>\<open>os_touches\<close> is a history variable: the number of cache accesses so far.\<close>

record os_state =
  os_calls :: nat
  os_fault :: "nat \<Rightarrow> os_fault"
  os_junk :: "nat \<Rightarrow> nat \<Rightarrow> byte"
  os_clock :: "nat \<Rightarrow> u64"
  os_errno :: int
  os_live :: int
  os_touches :: nat
  os_euid :: u32
  os_egid :: u32
  os_pid :: u32
  os_groups :: "u32 list"

record fdesc =
  fd_off :: int
  fd_rd :: bool
  fd_wr :: bool
  fd_sync :: bool

record device =
  dv_path :: "byte list"
  dv_is_blk :: bool
  dv_data :: "byte list"
  dv_stable :: "byte list"
  dv_fds :: "int \<Rightarrow> fdesc option"
  dv_next_fd :: int

record mofs_ctx =
  ctx_init :: bool
  ctx_dev_path :: "byte list option"
  ctx_dev_fd :: int
  ctx_sp_blk :: mofs_superblock

text \<open>One cached block; \<open>e_data = []\<close> is the NULL data pointer of a pool without storage.\<close>

record bcache_entry =
  e_valid :: bool
  e_dirty :: bool
  e_blk_num :: u32
  e_lru_tick :: u64
  e_data :: "byte list"

text \<open>The static variables of the cache. \<open>mofs_buffer.c\<close> has one pool
  (\<open>bcache_pool\<close>), \<open>mofs_buffer_split.c\<close> two (\<open>meta_pool\<close> and \<open>data_pool\<close>); each
  pool is a static array and has its access tick. The mutex is \<open>None\<close> before
  \<open>mofs_mutex_init\<close> (the NULL pointer) and otherwise says whether it is held.\<close>

datatype pool_id = Unified_Pool | Meta_Pool | Data_Pool

record bcache =
  bc_pool :: "pool_id \<Rightarrow> bcache_entry list"
  bc_tick :: "pool_id \<Rightarrow> u64"
  bcache_ready :: bool
  bcache_mutex :: "bool option"

text \<open>The compile-time choice of the cache: \<open>MOFS_BUFFER_CACHE_ENABLE\<close> and
  \<open>MOFS_BCACHE_SPLIT\<close>.\<close>

datatype bcache_mode = BC_Disabled | BC_Unified | BC_Split

record mofs_user_ctx =
  u_uid :: u32
  u_gid :: u32
  u_pid :: u32
  u_supp_groups :: "u32 list"
  u_valid :: bool

record mofs_filehandle =
  fh_used :: bool
  fh_inode_num :: int
  fh_file_offset :: u32
  fh_open_flags :: u32

record mofs_dirhandle =
  dh_used :: bool
  dh_inode_num :: int
  dh_dirent_offset :: u32
  dh_dirent_buf :: mofs_dirent

text \<open>The recursive mutex of \<open>os_sync.c\<close> with the number of times it is held.\<close>

record core_sync =
  core_sync_ready :: bool
  core_sync_depth :: nat

text \<open>\<open>w_errno\<close> is the errno slot of the calling thread: \<open>None\<close> before it is allocated, then the
  last error or \<open>Some None\<close> for 0.\<close>

record world =
  w_ctx :: mofs_ctx
  w_dev :: device
  w_os :: os_state
  w_mode :: bcache_mode
  w_bc :: bcache
  w_sync :: core_sync
  w_user :: mofs_user_ctx
  w_files :: "mofs_filehandle list"
  w_dirs :: "mofs_dirhandle list"
  w_errno :: "mofs_error option option"

type_synonym 'a mofs = "(world, 'a) prog"

text \<open>Names for the parts the code reads most.\<close>

abbreviation sp_blk :: "world \<Rightarrow> mofs_superblock" where
  "sp_blk w \<equiv> ctx_sp_blk (w_ctx w)"

abbreviation blksz :: "world \<Rightarrow> nat" where
  "blksz w \<equiv> unat (sb_blk_size (sp_blk w))"

abbreviation dev_fd :: "world \<Rightarrow> int" where
  "dev_fd w \<equiv> ctx_dev_fd (w_ctx w)"

section \<open>Operating-system calls\<close>

text \<open>Every call that can fail asks the oracle once.\<close>

definition os_call :: "os_fault mofs" where
  "os_call = (\<lambda>w. Some (Inr (os_fault (w_os w) (os_calls (w_os w))),
     w\<lparr>w_os := (w_os w)\<lparr>os_calls := Suc (os_calls (w_os w))\<rparr>\<rparr>))"

definition set_os_errno :: "int \<Rightarrow> unit mofs" where
  "set_os_errno n = modify (\<lambda>w. w\<lparr>w_os := (w_os w)\<lparr>os_errno := n\<rparr>\<rparr>)"

text \<open>A failing call leaves a positive errno.\<close>

definition sys_errno :: "int \<Rightarrow> int" where
  "sys_errno n = (if 0 < n then n else 5)"

definition get_errno :: "mofs_error option mofs" where
  "get_errno = gets (\<lambda>w. os_to_mofs_errno (os_errno (w_os w)))"

text \<open>\<open>return os_to_mofs_errno(errno)\<close>: with errno 0 the caller sees success, with the out
  parameters as they are.\<close>

definition return_errno :: "'a \<Rightarrow> 'a mofs" where
  "return_errno out = bind get_errno (\<lambda>r. case r of Some e \<Rightarrow> throw e | None \<Rightarrow> ret out)"

section \<open>Memory, time and locks\<close>

text \<open>\<open>mofs_malloc\<close> returns storage with arbitrary content or NULL with errno ENOMEM.
  \<open>os_live\<close> counts the live allocations.\<close>

definition mofs_malloc :: "nat \<Rightarrow> byte list option mofs" where
  "mofs_malloc sz =
     bind (gets (\<lambda>w. os_junk (w_os w) (os_calls (w_os w)))) (\<lambda>junk.
     bind os_call (\<lambda>f. case f of
         NoFault \<Rightarrow>
           bind (modify (\<lambda>w. w\<lparr>w_os := (w_os w)\<lparr>os_live := os_live (w_os w) + 1\<rparr>\<rparr>)) (\<lambda>_.
           ret (Some (map junk [0..<sz])))
       | _ \<Rightarrow> bind (set_os_errno 12) (\<lambda>_. ret None)))"

definition mofs_free :: "unit mofs" where
  "mofs_free = modify (\<lambda>w. w\<lparr>w_os := (w_os w)\<lparr>os_live := os_live (w_os w) - 1\<rparr>\<rparr>)"

text \<open>The idiom of the core: allocate a scratch buffer, return \<open>get_errno()\<close> when there is
  none, and free it on every way out.\<close>

definition with_malloc :: "nat \<Rightarrow> (byte list \<Rightarrow> 'a mofs) \<Rightarrow> 'a mofs" where
  "with_malloc sz body =
     bind (mofs_malloc sz) (\<lambda>r. case r of
         None \<Rightarrow> throw MOFS_ENOMEM
       | Some buf \<Rightarrow> ensuring (body buf) mofs_free)"

definition mofs_now :: "u64 mofs" where
  "mofs_now =
     bind (gets (\<lambda>w. os_clock (w_os w) (os_calls (w_os w)))) (\<lambda>t.
     bind os_call (\<lambda>f. case f of
         SysErr e \<Rightarrow> bind (set_os_errno (sys_errno e)) (\<lambda>_. return_errno 0)
       | _ \<Rightarrow> ret t))"

text \<open>\<open>mofs_mutex_init\<close> for a given mutex variable: \<open>pthread_mutex_init\<close> reports its
  failure as its result and leaves errno alone.\<close>

definition mofs_mutex_init :: "(bool option \<Rightarrow> world \<Rightarrow> world) \<Rightarrow> unit mofs" where
  "mofs_mutex_init assign =
     bind (mofs_malloc 40) (\<lambda>created. case created of
         None \<Rightarrow> return_errno ()
       | Some _ \<Rightarrow>
           bind os_call (\<lambda>f. case f of
               SysErr _ \<Rightarrow>
                 bind get_errno (\<lambda>err.
                 bind mofs_free (\<lambda>_.
                 case err of Some e \<Rightarrow> throw e | None \<Rightarrow> ret ()))
             | _ \<Rightarrow> modify (assign (Some False))))"

definition mofs_mutex_fini :: "bool option \<Rightarrow> unit mofs" where
  "mofs_mutex_fini mutex = (case mutex of None \<Rightarrow> ret () | Some _ \<Rightarrow> mofs_free)"

text \<open>Locking a mutex the thread already holds never returns; a NULL mutex is refused with
  EINVAL.\<close>

definition mofs_mutex_lock ::
  "(world \<Rightarrow> bool option) \<Rightarrow> (bool option \<Rightarrow> world \<Rightarrow> world) \<Rightarrow> unit mofs" where
  "mofs_mutex_lock get assign =
     bind (gets get) (\<lambda>m. case m of
         None \<Rightarrow> throw MOFS_EINVAL
       | Some True \<Rightarrow> diverge
       | Some False \<Rightarrow> modify (assign (Some True)))"

definition mofs_mutex_unlock ::
  "(world \<Rightarrow> bool option) \<Rightarrow> (bool option \<Rightarrow> world \<Rightarrow> world) \<Rightarrow> unit mofs" where
  "mofs_mutex_unlock get assign =
     bind (gets get) (\<lambda>m. case m of
         None \<Rightarrow> throw MOFS_EINVAL
       | Some _ \<Rightarrow> modify (assign (Some False)))"

definition mofs_core_sync_lock :: "unit mofs" where
  "mofs_core_sync_lock = modify (\<lambda>w.
     if core_sync_ready (w_sync w)
     then w\<lparr>w_sync := (w_sync w)\<lparr>core_sync_depth := Suc (core_sync_depth (w_sync w))\<rparr>\<rparr> else w)"

definition mofs_core_sync_unlock :: "unit mofs" where
  "mofs_core_sync_unlock = modify (\<lambda>w.
     if core_sync_ready (w_sync w)
     then w\<lparr>w_sync := (w_sync w)\<lparr>core_sync_depth := core_sync_depth (w_sync w) - 1\<rparr>\<rparr> else w)"

definition mofs_core_sync_init :: "unit mofs" where
  "mofs_core_sync_init =
     bind (gets (\<lambda>w. core_sync_ready (w_sync w))) (\<lambda>rdy.
     if rdy then ret ()
     else bind os_call (\<lambda>f1. case f1 of
         SysErr _ \<Rightarrow> return_errno ()
       | _ \<Rightarrow> bind os_call (\<lambda>f2. case f2 of
           SysErr _ \<Rightarrow> return_errno ()
         | _ \<Rightarrow> bind os_call (\<lambda>f3. case f3 of
             SysErr _ \<Rightarrow> return_errno ()
           | _ \<Rightarrow> modify (\<lambda>w. w\<lparr>w_sync := \<lparr>core_sync_ready = True, core_sync_depth = 0\<rparr>\<rparr>)))))"

definition mofs_core_sync_fini :: "unit mofs" where
  "mofs_core_sync_fini = modify (\<lambda>w.
     if core_sync_ready (w_sync w)
     then w\<lparr>w_sync := (w_sync w)\<lparr>core_sync_ready := False\<rparr>\<rparr> else w)"

end
