(* ===== verification/Mofs_Devio.thy ===== *)
theory Mofs_Devio
  imports Mofs_World
begin

text \<open>
  The Linux device layer: POSIX calls on the backing store and \<open>src/os/linux/service/os_devio.c\<close>
  over them. A read returns the bytes it stored at the start of the caller's buffer, so the out
  parameter \<open>read_size\<close> is their number; a write returns the number of bytes it accepted.

  \<open>io_frame\<close> collects what no device call changes, whatever fails; the rules of each call
  add its effect on the device.
\<close>

section \<open>POSIX calls on the backing store\<close>

definition sys_fail :: "int \<Rightarrow> 'a option mofs" where
  "sys_fail n = bind (set_os_errno n) (\<lambda>_. ret None)"

definition set_fdesc :: "int \<Rightarrow> fdesc \<Rightarrow> unit mofs" where
  "set_fdesc fd h = modify (\<lambda>w. w\<lparr>w_dev := (w_dev w)\<lparr>dv_fds := (dv_fds (w_dev w))(fd \<mapsto> h)\<rparr>\<rparr>)"

text \<open>Writing past the end of a regular file fills the gap with zeros.\<close>

definition write_at :: "nat \<Rightarrow> byte list \<Rightarrow> byte list \<Rightarrow> byte list" where
  "write_at off bs data =
     (if bs = [] then data else overwrite off bs (data @ replicate (off - length data) 0))"

definition sys_open :: "byte list \<Rightarrow> bool \<Rightarrow> bool \<Rightarrow> bool \<Rightarrow> int option mofs" where
  "sys_open path rd wr sync =
     bind os_call (\<lambda>f.
     bind (gets w_dev) (\<lambda>d. case f of
         SysErr e \<Rightarrow> sys_fail (sys_errno e)
       | _ \<Rightarrow>
         if path \<noteq> dv_path d then sys_fail 2
         else
           bind (set_fdesc (dv_next_fd d) \<lparr>fd_off = 0, fd_rd = rd, fd_wr = wr, fd_sync = sync\<rparr>) (\<lambda>_.
           bind (modify (\<lambda>w. w\<lparr>w_dev := (w_dev w)\<lparr>dv_next_fd := dv_next_fd d + 1\<rparr>\<rparr>)) (\<lambda>_.
           ret (Some (dv_next_fd d))))))"

definition sys_close :: "int \<Rightarrow> unit option mofs" where
  "sys_close fd =
     bind os_call (\<lambda>f.
     bind (gets w_dev) (\<lambda>d. case dv_fds d fd of
         None \<Rightarrow> sys_fail 9
       | Some h \<Rightarrow>
         bind (modify (\<lambda>w. w\<lparr>w_dev := (w_dev w)\<lparr>dv_fds := (dv_fds (w_dev w))(fd := None)\<rparr>\<rparr>)) (\<lambda>_.
         case f of SysErr e \<Rightarrow> sys_fail (sys_errno e) | _ \<Rightarrow> ret (Some ()))))"

definition sys_lseek :: "int \<Rightarrow> int \<Rightarrow> int \<Rightarrow> int option mofs" where
  "sys_lseek fd off whence =
     bind os_call (\<lambda>f.
     bind (gets w_dev) (\<lambda>d. case f of
         SysErr e \<Rightarrow> sys_fail (sys_errno e)
       | _ \<Rightarrow> (case dv_fds d fd of
           None \<Rightarrow> sys_fail 9
         | Some h \<Rightarrow>
             (let pos = (if whence = 0 then 0 else if whence = 1 then fd_off h
                         else int (length (dv_data d))) + off
              in if pos < 0 \<or> (dv_is_blk d \<and> int (length (dv_data d)) < pos) then sys_fail 22
                 else bind (set_fdesc fd (h\<lparr>fd_off := pos\<rparr>)) (\<lambda>_. ret (Some pos))))))"

definition sys_read :: "int \<Rightarrow> nat \<Rightarrow> byte list option mofs" where
  "sys_read fd n =
     bind os_call (\<lambda>f.
     bind (gets w_dev) (\<lambda>d. case f of
         SysErr e \<Rightarrow> sys_fail (sys_errno e)
       | _ \<Rightarrow> (case dv_fds d fd of
           None \<Rightarrow> sys_fail 9
         | Some h \<Rightarrow>
             if \<not> fd_rd h then sys_fail 9
             else
               (let got = chunk (nat (fd_off h))
                            (case f of ShortXfer k \<Rightarrow> min k n | _ \<Rightarrow> n) (dv_data d)
                in bind (set_fdesc fd (h\<lparr>fd_off := fd_off h + int (length got)\<rparr>)) (\<lambda>_.
                   ret (Some got))))))"

definition sys_write :: "int \<Rightarrow> byte list \<Rightarrow> nat option mofs" where
  "sys_write fd bs =
     bind os_call (\<lambda>f.
     bind (gets w_dev) (\<lambda>d. case f of
         SysErr e \<Rightarrow> sys_fail (sys_errno e)
       | _ \<Rightarrow> (case dv_fds d fd of
           None \<Rightarrow> sys_fail 9
         | Some h \<Rightarrow>
             if \<not> fd_wr h then sys_fail 9
             else if dv_is_blk d \<and> int (length (dv_data d)) \<le> fd_off h \<and> bs \<noteq> [] then sys_fail 28
             else
               (let off = nat (fd_off h);
                    put = (case f of ShortXfer k \<Rightarrow> take k bs | _ \<Rightarrow> bs);
                    put = (if dv_is_blk d then take (length (dv_data d) - off) put else put)
                in bind (modify (\<lambda>w. w\<lparr>w_dev := (w_dev w)\<lparr>
                        dv_data := write_at off put (dv_data d),
                        dv_stable := (if fd_sync h then write_at off put (dv_stable d)
                                      else dv_stable d)\<rparr>\<rparr>)) (\<lambda>_.
                   bind (set_fdesc fd (h\<lparr>fd_off := fd_off h + int (length put)\<rparr>)) (\<lambda>_.
                   ret (Some (length put))))))))"

definition sys_fsync :: "int \<Rightarrow> unit option mofs" where
  "sys_fsync fd =
     bind os_call (\<lambda>f.
     bind (gets w_dev) (\<lambda>d. case f of
         SysErr e \<Rightarrow> sys_fail (sys_errno e)
       | _ \<Rightarrow> (case dv_fds d fd of
           None \<Rightarrow> sys_fail 9
         | Some h \<Rightarrow>
             bind (modify (\<lambda>w. w\<lparr>w_dev := (w_dev w)\<lparr>dv_stable := dv_data (w_dev w)\<rparr>\<rparr>)) (\<lambda>_.
             ret (Some ())))))"

section \<open>The device interface\<close>

definition MOFS_IO_OPEN_FLAG_RDONLY :: int where "MOFS_IO_OPEN_FLAG_RDONLY = 1"
definition MOFS_IO_OPEN_FLAG_WRONLY :: int where "MOFS_IO_OPEN_FLAG_WRONLY = 2"
definition MOFS_IO_OPEN_FLAG_RDWR :: int where "MOFS_IO_OPEN_FLAG_RDWR = 3"
definition MOFS_IO_OPEN_FLAG_SYNC :: int where "MOFS_IO_OPEN_FLAG_SYNC = 4"
definition MOFS_IO_OPEN_FLAG_DIRECT :: int where "MOFS_IO_OPEN_FLAG_DIRECT = 8"
definition MOFS_SEEK_SET :: int where "MOFS_SEEK_SET = 0"
definition MOFS_SEEK_CUR :: int where "MOFS_SEEK_CUR = 1"
definition MOFS_SEEK_END :: int where "MOFS_SEEK_END = 2"

lemmas devio_consts =
  MOFS_IO_OPEN_FLAG_RDONLY_def MOFS_IO_OPEN_FLAG_WRONLY_def MOFS_IO_OPEN_FLAG_RDWR_def
  MOFS_IO_OPEN_FLAG_SYNC_def MOFS_IO_OPEN_FLAG_DIRECT_def
  MOFS_SEEK_SET_def MOFS_SEEK_CUR_def MOFS_SEEK_END_def

text \<open>\<open>dev_open\<close> returns the descriptor it stores in \<open>*fd\<close>. Direct I/O changes no
  content and has no counterpart in the model of the store.\<close>

definition dev_open :: "byte list option \<Rightarrow> int \<Rightarrow> int mofs" where
  "dev_open path oflag =
     (let known_flags = MOFS_IO_OPEN_FLAG_RDWR OR MOFS_IO_OPEN_FLAG_SYNC OR MOFS_IO_OPEN_FLAG_DIRECT;
          access_mode = oflag AND MOFS_IO_OPEN_FLAG_RDWR;
          sync = (oflag AND MOFS_IO_OPEN_FLAG_SYNC \<noteq> 0)
      in case path of
          None \<Rightarrow> throw MOFS_EINVAL
        | Some p \<Rightarrow>
            if oflag AND NOT known_flags \<noteq> 0 then throw MOFS_EINVAL
            else if access_mode \<notin> {MOFS_IO_OPEN_FLAG_RDWR, MOFS_IO_OPEN_FLAG_RDONLY,
                                   MOFS_IO_OPEN_FLAG_WRONLY} then throw MOFS_EINVAL
            else
              bind (sys_open p (access_mode \<noteq> MOFS_IO_OPEN_FLAG_WRONLY)
                               (access_mode \<noteq> MOFS_IO_OPEN_FLAG_RDONLY) sync) (\<lambda>os_fd.
              case os_fd of None \<Rightarrow> return_errno (- 1) | Some fd \<Rightarrow> ret fd))"

definition dev_write :: "int \<Rightarrow> byte list \<Rightarrow> u32 mofs" where
  "dev_write fd buf =
     bind (sys_write fd buf) (\<lambda>result.
     case result of None \<Rightarrow> return_errno 0 | Some n \<Rightarrow> ret (word_of_nat n))"

definition dev_read :: "int \<Rightarrow> u32 \<Rightarrow> byte list mofs" where
  "dev_read fd count =
     bind (sys_read fd (unat count)) (\<lambda>result.
     case result of None \<Rightarrow> return_errno [] | Some bs \<Rightarrow> ret bs)"

definition dev_fsync :: "int \<Rightarrow> unit mofs" where
  "dev_fsync fd =
     bind (sys_fsync fd) (\<lambda>result. case result of None \<Rightarrow> return_errno () | Some _ \<Rightarrow> ret ())"

definition dev_close :: "int \<Rightarrow> unit mofs" where
  "dev_close fd =
     bind (sys_close fd) (\<lambda>result. case result of None \<Rightarrow> return_errno () | Some _ \<Rightarrow> ret ())"

definition dev_lseek :: "int \<Rightarrow> int \<Rightarrow> int \<Rightarrow> int mofs" where
  "dev_lseek fd offset whence =
     (if whence \<notin> {MOFS_SEEK_SET, MOFS_SEEK_CUR, MOFS_SEEK_END} then throw MOFS_EINVAL
      else bind (sys_lseek fd offset whence) (\<lambda>result.
           case result of None \<Rightarrow> return_errno 0 | Some off \<Rightarrow> ret off))"

text \<open>\<open>fstat\<close> on the descriptor, then \<open>BLKGETSIZE64\<close> for a block device or the file size:
  the store is one of the two kinds, so the \<open>EINVAL\<close> of other file types cannot occur.\<close>

definition dev_get_size :: "int \<Rightarrow> u64 mofs" where
  "dev_get_size fd =
     bind os_call (\<lambda>f.
     bind (gets w_dev) (\<lambda>d. case f of
         SysErr e \<Rightarrow> bind (set_os_errno (sys_errno e)) (\<lambda>_. return_errno 0)
       | _ \<Rightarrow> (case dv_fds d fd of
           None \<Rightarrow> bind (set_os_errno 9) (\<lambda>_. return_errno 0)
         | Some h \<Rightarrow>
             if dv_is_blk d then
               bind os_call (\<lambda>g. case g of
                   SysErr e \<Rightarrow> bind (set_os_errno (sys_errno e)) (\<lambda>_. return_errno 0)
                 | _ \<Rightarrow> ret (word_of_nat (length (dv_data d))))
             else ret (word_of_nat (length (dv_data d))))))"

section \<open>What no device call changes\<close>

definition os_ok :: "world \<Rightarrow> bool" where
  "os_ok w = (\<forall>n\<ge>os_calls (w_os w). os_fault (w_os w) n = NoFault)"

definition fd_ok :: "world \<Rightarrow> int \<Rightarrow> bool" where
  "fd_ok w fd = (0 \<le> fd \<and> (case dv_fds (w_dev w) fd of None \<Rightarrow> False | Some h \<Rightarrow> fd_rd h \<and> fd_wr h))"

definition os_frame :: "os_state \<Rightarrow> os_state \<Rightarrow> bool" where
  "os_frame s s' = (os_fault s' = os_fault s \<and> os_junk s' = os_junk s \<and> os_clock s' = os_clock s \<and>
     os_live s' = os_live s \<and> os_euid s' = os_euid s \<and> os_egid s' = os_egid s \<and>
     os_pid s' = os_pid s \<and> os_groups s' = os_groups s \<and> os_calls s \<le> os_calls s' \<and>
     os_touches s \<le> os_touches s')"

definition io_frame :: "world \<Rightarrow> world \<Rightarrow> bool" where
  "io_frame w w' = (
     w_ctx w' = w_ctx w \<and> w_mode w' = w_mode w \<and> w_sync w' = w_sync w \<and> w_user w' = w_user w \<and>
     w_files w' = w_files w \<and> w_dirs w' = w_dirs w \<and> w_errno w' = w_errno w \<and>
     os_frame (w_os w) (w_os w') \<and>
     dv_path (w_dev w') = dv_path (w_dev w) \<and> dv_is_blk (w_dev w') = dv_is_blk (w_dev w) \<and>
     length (dv_data (w_dev w)) \<le> length (dv_data (w_dev w')) \<and>
     (\<forall>fd. fd_ok w fd \<longrightarrow> fd_ok w' fd))"

definition same_caches :: "world \<Rightarrow> world \<Rightarrow> bool" where
  "same_caches w w' = (w_bc w' = w_bc w)"

lemma os_frame_refl [simp]: "os_frame s s"
  by (simp add: os_frame_def)

lemma os_frame_trans [trans]: "os_frame a b \<Longrightarrow> os_frame b c \<Longrightarrow> os_frame a c"
  by (simp add: os_frame_def)

lemma io_frame_refl [simp]: "io_frame w w"
  by (simp add: io_frame_def)

lemma io_frame_trans [trans]: "io_frame a b \<Longrightarrow> io_frame b c \<Longrightarrow> io_frame a c"
  by (auto simp: io_frame_def intro: os_frame_trans order_trans)

lemma os_ok_frame: "io_frame w w' \<Longrightarrow> os_ok w \<Longrightarrow> os_ok w'"
  by (auto simp: io_frame_def os_frame_def os_ok_def)

lemma fd_ok_frame: "io_frame w w' \<Longrightarrow> fd_ok w fd \<Longrightarrow> fd_ok w' fd"
  by (simp add: io_frame_def)

lemma io_frame_ctx: "io_frame w w' \<Longrightarrow> w_ctx w' = w_ctx w"
  by (simp add: io_frame_def)

lemma same_caches_refl [simp]: "same_caches w w"
  by (simp add: same_caches_def)

lemma same_caches_trans [trans]: "same_caches a b \<Longrightarrow> same_caches b c \<Longrightarrow> same_caches a c"
  by (simp add: same_caches_def)

section \<open>Rules of the calls\<close>

lemma wp_os_call [wp_simps]:
  "wp os_call Q w = Q (Inr (os_fault (w_os w) (os_calls (w_os w))))
     (w\<lparr>w_os := (w_os w)\<lparr>os_calls := Suc (os_calls (w_os w))\<rparr>\<rparr>)"
  by (simp add: wp_def os_call_def)

lemma wp_sys_fail [wp_simps]:
  "wp (sys_fail n) Q w = Q (Inr None) (w\<lparr>w_os := (w_os w)\<lparr>os_errno := n\<rparr>\<rparr>)"
  by (simp add: sys_fail_def set_os_errno_def wp_simps)

lemma wp_return_errno [wp_simps]:
  "wp (return_errno a) Q w =
     Q (case os_to_mofs_errno (os_errno (w_os w)) of None \<Rightarrow> Inr a | Some e \<Rightarrow> Inl e) w"
  by (cases "os_to_mofs_errno (os_errno (w_os w))")
    (simp_all add: return_errno_def get_errno_def wp_simps)

lemma wp_case_fault [wp_simps]:
  "wp (case f of NoFault \<Rightarrow> a | SysErr e \<Rightarrow> b e | ShortXfer k \<Rightarrow> c k) Q w =
     (case f of NoFault \<Rightarrow> wp a Q w | SysErr e \<Rightarrow> wp (b e) Q w | ShortXfer k \<Rightarrow> wp (c k) Q w)"
  by (simp split: os_fault.splits)

lemma sys_errno_nonzero [simp]: "sys_errno n \<noteq> 0"
  by (simp add: sys_errno_def)

lemma length_write_at:
  "length (write_at off bs data) =
     (if bs = [] then length data else max (length data) (off + length bs))"
  by (auto simp: write_at_def overwrite_def)

lemma write_at_inside: "off + length bs \<le> length data \<Longrightarrow> write_at off bs data = overwrite off bs data"
  by (simp add: write_at_def)

lemma write_at_append:
  "write_at (off + length a) b (write_at off a data) = write_at off (a @ b) data"
proof -
  have "min (length data) off + (off - length data) = off" by simp
  then show ?thesis
    by (auto simp: write_at_def overwrite_def ac_simps)
qed

text \<open>Writing in one place leaves the bytes elsewhere alone.\<close>

lemma chunk_write_at_disjoint:
  assumes "o' + n \<le> length data" and "o' + n \<le> off \<or> off + length bs \<le> o'"
  shows "chunk o' n (write_at off bs data) = chunk o' n data"
proof (cases "bs = []")
  case False
  let ?d = "data @ replicate (off - length data) 0 @ replicate (off + length bs - max off (length data)) 0"
  have "chunk o' n (overwrite off bs (data @ replicate (off - length data) 0)) = chunk o' n (overwrite off bs ?d)"
    by (simp add: overwrite_def)
  also have "\<dots> = chunk o' n ?d"
    using assms by (intro chunk_overwrite_disjoint) auto
  also have "\<dots> = chunk o' n data"
    using assms by (simp add: chunk_def)
  finally show ?thesis using False by (simp add: write_at_def)
qed (simp add: write_at_def)

text \<open>The states after a call: the call counter and errno, a moved offset, new content.\<close>

abbreviation os_tick :: "os_state \<Rightarrow> os_state" where
  "os_tick s \<equiv> s\<lparr>os_calls := Suc (os_calls s)\<rparr>"

lemma os_ok_now: "os_ok w \<Longrightarrow> os_fault (w_os w) (os_calls (w_os w)) = NoFault"
  by (simp add: os_ok_def)

lemma io_frame_tick [simp]:
  "io_frame w (w\<lparr>w_os := os_tick (w_os w)\<rparr>)"
  "io_frame w (w\<lparr>w_os := (w_os w)\<lparr>os_calls := Suc (os_calls (w_os w)), os_errno := e\<rparr>\<rparr>)"
  by (simp_all add: io_frame_def os_frame_def fd_ok_def)

lemma io_frame_off [simp]:
  assumes "dv_fds (w_dev w) fd = Some h"
  shows "io_frame w (w\<lparr>w_os := os_tick (w_os w),
           w_dev := (w_dev w)\<lparr>dv_fds := (dv_fds (w_dev w))(fd \<mapsto> h\<lparr>fd_off := p\<rparr>)\<rparr>\<rparr>)"
  using assms by (auto simp: io_frame_def os_frame_def fd_ok_def)

lemma io_frame_data [simp]:
  assumes "dv_fds (w_dev w) fd = Some h" and "length (dv_data (w_dev w)) \<le> length d"
  shows "io_frame w (w\<lparr>w_os := os_tick (w_os w),
           w_dev := (w_dev w)\<lparr>dv_data := d, dv_stable := s,
             dv_fds := (dv_fds (w_dev w))(fd \<mapsto> h\<lparr>fd_off := p\<rparr>)\<rparr>\<rparr>)"
  using assms by (auto simp: io_frame_def os_frame_def fd_ok_def)

lemma io_frame_stable [simp]:
  "io_frame w (w\<lparr>w_os := os_tick (w_os w), w_dev := (w_dev w)\<lparr>dv_stable := s\<rparr>\<rparr>)"
  by (auto simp: io_frame_def os_frame_def fd_ok_def)

lemma same_caches_upd [simp]:
  "same_caches w (w\<lparr>w_os := s\<rparr>)" "same_caches w (w\<lparr>w_os := s, w_dev := d\<rparr>)"
  by (simp_all add: same_caches_def)

text \<open>An absolute seek.\<close>

lemma wp_dev_lseek_set:
  assumes "fd_ok w fd"
  shows "wp (dev_lseek fd off MOFS_SEEK_SET) (\<lambda>r w'.
      io_frame w w' \<and> same_caches w w' \<and> dv_data (w_dev w') = dv_data (w_dev w) \<and>
      dv_stable (w_dev w') = dv_stable (w_dev w) \<and>
      (case r of
         Inl _ \<Rightarrow> \<not> (os_ok w \<and> 0 \<le> off \<and> off \<le> int (length (dv_data (w_dev w))))
       | Inr p \<Rightarrow> p = off \<and> 0 \<le> off \<and>
           (\<exists>h. dv_fds (w_dev w') fd = Some h \<and> fd_rd h \<and> fd_wr h \<and> fd_off h = off))) w"
proof -
  obtain h where h: "dv_fds (w_dev w) fd = Some h" "fd_rd h" "fd_wr h"
    using assms by (auto simp: fd_ok_def split: option.splits)
  show ?thesis
    by (cases "os_fault (w_os w) (os_calls (w_os w))")
      (auto simp: dev_lseek_def devio_consts sys_lseek_def set_fdesc_def wp_simps h Let_def
        dest: os_ok_now split: option.splits)
qed

text \<open>A read returns a prefix of the bytes at the offset, all of them when nothing fails.\<close>

lemma wp_dev_read:
  assumes "dv_fds (w_dev w) fd = Some h" and "fd_rd h" and "fd_off h = int off"
  shows "wp (dev_read fd n) (\<lambda>r w'.
      io_frame w w' \<and> same_caches w w' \<and> dv_data (w_dev w') = dv_data (w_dev w) \<and>
      dv_stable (w_dev w') = dv_stable (w_dev w) \<and>
      (case r of
         Inl _ \<Rightarrow> \<not> os_ok w
       | Inr bs \<Rightarrow> bs = chunk (off) (length bs) (dv_data (w_dev w)) \<and> length bs \<le> unat n \<and>
           (os_ok w \<longrightarrow> bs = chunk (off) (unat n) (dv_data (w_dev w))) \<and>
           dv_fds (w_dev w') fd = Some (h\<lparr>fd_off := fd_off h + int (length bs)\<rparr>))) w"
  using assms
  by (cases "os_fault (w_os w) (os_calls (w_os w))")
    (auto simp: dev_read_def sys_read_def set_fdesc_def wp_simps Let_def length_chunk
      dest: os_ok_now split: option.splits)

text \<open>A write stores a prefix of the bytes at the offset, all of them when nothing fails and
  the store has room; a failing write stores nothing.\<close>

lemma wp_dev_write:
  assumes "dv_fds (w_dev w) fd = Some h" and "fd_wr h" and "fd_off h = int off"
    and "length bs < 2 ^ 32"
  shows "wp (dev_write fd bs) (\<lambda>r w'.
      io_frame w w' \<and> same_caches w w' \<and>
      (case r of
         Inl _ \<Rightarrow> dv_data (w_dev w') = dv_data (w_dev w) \<and>
           dv_stable (w_dev w') = dv_stable (w_dev w) \<and>
           \<not> (os_ok w \<and> off + length bs \<le> length (dv_data (w_dev w)))
       | Inr k \<Rightarrow> unat k \<le> length bs \<and>
           dv_data (w_dev w') = write_at (off) (take (unat k) bs) (dv_data (w_dev w)) \<and>
           (os_ok w \<and> off + length bs \<le> length (dv_data (w_dev w)) \<longrightarrow> unat k = length bs) \<and>
           dv_fds (w_dev w') fd = Some (h\<lparr>fd_off := fd_off h + int (unat k)\<rparr>))) w"
proof -
  have room: "bs = []" if "length (dv_data (w_dev w)) \<le> off"
      and "off + length bs \<le> length (dv_data (w_dev w))"
    using that by (cases bs) simp_all
  show ?thesis using assms
    by (cases "os_fault (w_os w) (os_calls (w_os w))")
      (auto simp: dev_write_def sys_write_def set_fdesc_def wp_simps Let_def length_write_at
        unat_of_nat take_bit_eq_mod dest: os_ok_now room split: option.splits)
qed

lemma wp_dev_fsync:
  assumes "fd_ok w fd"
  shows "wp (dev_fsync fd) (\<lambda>r w'.
      io_frame w w' \<and> same_caches w w' \<and> dv_data (w_dev w') = dv_data (w_dev w) \<and>
      (case r of
         Inl _ \<Rightarrow> \<not> os_ok w \<and> dv_stable (w_dev w') = dv_stable (w_dev w)
       | Inr _ \<Rightarrow> dv_stable (w_dev w') = dv_data (w_dev w))) w"
proof -
  obtain h where h: "dv_fds (w_dev w) fd = Some h"
    using assms by (auto simp: fd_ok_def split: option.splits)
  show ?thesis
    by (cases "os_fault (w_os w) (os_calls (w_os w))")
      (auto simp: dev_fsync_def sys_fsync_def wp_simps h dest: os_ok_now split: option.splits)
qed

end
