(* ===== verification/Mofs_Raw.thy ===== *)
theory Mofs_Raw
  imports Mofs_Devio
begin

text \<open>
  Raw block I/O: \<open>read_continuous_blocks_raw\<close>, \<open>write_continuous_blocks_raw\<close> and their
  helpers in \<open>src/core/modules/mofs_block.c\<close>. A reader takes the content of the destination
  buffer and returns the new content with the two out parameters, the number of full blocks and
  the size of a short transfer.

  The rules hold for every pattern of I/O failures. A read never changes the device and returns
  exactly the stored blocks when it reports them all; a write stores a prefix of the source and
  touches no other byte; both transfer everything when no call fails and the blocks are inside
  the device.
\<close>

section \<open>Definitions\<close>

definition mofs_io_blk_sz :: "u32 mofs" where
  "mofs_io_blk_sz = gets (\<lambda>w. sb_blk_size (sp_blk w))"

definition read_one_block :: "int \<Rightarrow> byte list mofs" where
  "read_one_block fd =
     bind mofs_io_blk_sz (\<lambda>nb. if nb = 0 then throw MOFS_EINVAL else dev_read fd nb)"

definition write_one_block :: "int \<Rightarrow> byte list \<Rightarrow> u32 mofs" where
  "write_one_block fd buf =
     bind mofs_io_blk_sz (\<lambda>nb.
     if nb = 0 then throw MOFS_EINVAL else dev_write fd (take (unat nb) buf))"

text \<open>The loops: \<open>n\<close> blocks are left and \<open>i\<close> are done, at offset \<open>i * blk_bytes\<close> of the
  buffer.\<close>

fun read_raw_loop :: "int \<Rightarrow> nat \<Rightarrow> nat \<Rightarrow> nat \<Rightarrow> byte list \<Rightarrow> (byte list \<times> u32 \<times> u32) mofs" where
  "read_raw_loop fd blk_bytes 0 i buf = ret (buf, word_of_nat i, 0)"
| "read_raw_loop fd blk_bytes (Suc n) i buf =
     bind (read_one_block fd) (\<lambda>bs.
     if length bs \<noteq> blk_bytes
     then ret (overwrite (i * blk_bytes) bs buf, word_of_nat i, word_of_nat (length bs))
     else read_raw_loop fd blk_bytes n (Suc i) (overwrite (i * blk_bytes) bs buf))"

fun write_raw_loop :: "int \<Rightarrow> nat \<Rightarrow> nat \<Rightarrow> nat \<Rightarrow> byte list \<Rightarrow> (u32 \<times> u32) mofs" where
  "write_raw_loop fd blk_bytes 0 i buf = ret (word_of_nat i, 0)"
| "write_raw_loop fd blk_bytes (Suc n) i buf =
     bind (write_one_block fd (drop (i * blk_bytes) buf)) (\<lambda>written.
     if unat written \<noteq> blk_bytes then ret (word_of_nat i, written)
     else write_raw_loop fd blk_bytes n (Suc i) buf)"

definition seek_block :: "int \<Rightarrow> u32 \<Rightarrow> u32 \<Rightarrow> unit mofs" where
  "seek_block fd start_blk_num blk_bytes =
     (let byte_off = (ucast start_blk_num :: u64) * ucast blk_bytes
      in bind (dev_lseek fd (sint byte_off) MOFS_SEEK_SET) (\<lambda>new_offset.
         throw_if ((word_of_int new_offset :: u64) mod ucast blk_bytes \<noteq> 0) MOFS_EINVAL))"

definition read_continuous_blocks_raw ::
  "int \<Rightarrow> byte list \<Rightarrow> u32 \<Rightarrow> u32 \<Rightarrow> (byte list \<times> u32 \<times> u32) mofs" where
  "read_continuous_blocks_raw fd buf req_blk_num start_blk_num =
     bind mofs_io_blk_sz (\<lambda>blk_bytes.
     bind (throw_if (fd < 0) MOFS_EINVAL) (\<lambda>_.
     bind (throw_if (blk_bytes = 0) MOFS_EINVAL) (\<lambda>_.
     bind (seek_block fd start_blk_num blk_bytes) (\<lambda>_.
     read_raw_loop fd (unat blk_bytes) (unat req_blk_num) 0 buf))))"

definition write_continuous_blocks_raw ::
  "int \<Rightarrow> byte list \<Rightarrow> u32 \<Rightarrow> u32 \<Rightarrow> (u32 \<times> u32) mofs" where
  "write_continuous_blocks_raw fd buf req_blk_num start_blk_num =
     bind mofs_io_blk_sz (\<lambda>blk_bytes.
     bind (throw_if (fd < 0) MOFS_EINVAL) (\<lambda>_.
     bind (throw_if (blk_bytes = 0) MOFS_EINVAL) (\<lambda>_.
     bind (seek_block fd start_blk_num blk_bytes) (\<lambda>_.
     write_raw_loop fd (unat blk_bytes) (unat req_blk_num) 0 buf))))"

section \<open>Blocks of the device\<close>

definition dev_block :: "world \<Rightarrow> u32 \<Rightarrow> byte list" where
  "dev_block w b = chunk (unat b * blksz w) (blksz w) (dv_data (w_dev w))"

definition fits :: "world \<Rightarrow> u32 \<Rightarrow> bool" where
  "fits w b = (unat b * blksz w + blksz w \<le> length (dv_data (w_dev w)))"

text \<open>The device is open for reading and writing and the block size is sane: any value up to
  64 KiB, of which the validated power-of-two sizes are a special case.\<close>

definition io_ready :: "world \<Rightarrow> bool" where
  "io_ready w = (fd_ok w (dev_fd w) \<and> 0 < blksz w \<and> blksz w \<le> 65536)"

lemma io_ready_frame: "io_frame w w' \<Longrightarrow> io_ready w \<Longrightarrow> io_ready w'"
  using fd_ok_frame io_frame_ctx by (auto simp: io_ready_def)

lemma fits_frame: "io_frame w w' \<Longrightarrow> fits w b \<Longrightarrow> fits w' b"
  by (auto simp: fits_def io_frame_def)

lemma length_dev_block [simp]: "fits w b \<Longrightarrow> length (dev_block w b) = blksz w"
  by (simp add: dev_block_def fits_def)

lemma dev_block_cong:
  "io_frame w w' \<Longrightarrow> dv_data (w_dev w') = dv_data (w_dev w) \<Longrightarrow> dev_block w' b = dev_block w b"
  by (simp add: dev_block_def io_frame_ctx)

text \<open>Writing one block changes that block only.\<close>

lemma dev_block_write_same:
  assumes "fits w b" and "length bs = blksz w" and "io_frame w w'"
    and "dv_data (w_dev w') = write_at (unat b * blksz w) bs (dv_data (w_dev w))"
  shows "dev_block w' b = bs"
  using assms by (simp add: dev_block_def fits_def io_frame_ctx write_at_inside)

lemma dev_block_write_part:
  assumes "fits w b" and "length bs \<le> blksz w" and "io_frame w w'"
    and "dv_data (w_dev w') = write_at (unat b * blksz w) bs (dv_data (w_dev w))"
  shows "dev_block w' b = overwrite 0 bs (dev_block w b)"
proof -
  have "write_at (unat b * blksz w) bs (dv_data (w_dev w)) = overwrite (unat b * blksz w) bs (dv_data (w_dev w))"
    using assms(1,2) by (intro write_at_inside) (simp add: fits_def)
  then show ?thesis
    using assms by (auto simp: dev_block_def fits_def io_frame_ctx nth_chunk nth_overwrite intro!: nth_equalityI)
qed

lemma dev_block_write_other:
  assumes "fits w c" and "c \<noteq> b" and "length bs \<le> blksz w" and "io_frame w w'"
    and "dv_data (w_dev w') = write_at (unat b * blksz w) bs (dv_data (w_dev w))"
  shows "dev_block w' c = dev_block w c"
proof -
  have "unat c \<noteq> unat b" using assms(2) by (simp add: word_unat_eq_iff)
  then have disj: "unat c * blksz w + blksz w \<le> unat b * blksz w \<or>
      unat b * blksz w + blksz w \<le> unat c * blksz w"
    by (rule block_disjoint)
  have ctx: "w_ctx w' = w_ctx w" using assms(4) by (rule io_frame_ctx)
  show ?thesis unfolding dev_block_def ctx assms(5)
  proof (rule chunk_write_at_disjoint)
    show "unat c * blksz w + blksz w \<le> length (dv_data (w_dev w))"
      using assms(1) by (simp add: fits_def)
    show "unat c * blksz w + blksz w \<le> unat b * blksz w \<or>
        unat b * blksz w + length bs \<le> unat c * blksz w"
      using disj assms(3) by linarith
  qed
qed

section \<open>Rules\<close>

lemma wp_mofs_io_blk_sz [wp_simps]: "wp mofs_io_blk_sz Q w = Q (Inr (sb_blk_size (sp_blk w))) w"
  by (simp add: mofs_io_blk_sz_def wp_simps)

text \<open>The byte offset of a block is computed without overflow for every block size up to
  64 KiB.\<close>

lemma byte_off_bound:
  fixes b blk :: u32
  assumes "unat blk \<le> 65536"
  shows "unat b * unat blk \<le> 2 ^ 32 * 65536"
  using unat_less [of b] assms by (intro mult_le_mono) simp_all

lemma byte_off_exact:
  fixes b blk :: u32
  assumes "unat blk \<le> 65536"
  shows "sint ((ucast b :: u64) * ucast blk) = int (unat b * unat blk)"
proof -
  have b: "unat b < 2 ^ 32" using unat_less [of b] by simp
  have prod: "unat b * unat blk \<le> 2 ^ 32 * 65536"
    using assms by (rule byte_off_bound)
  then have un: "unat ((ucast b :: u64) * ucast blk) = unat b * unat blk"
    using b assms by (simp add: unat_word_ariths unsigned_ucast_eq take_bit_nat_eq_self)
  then have "uint ((ucast b :: u64) * ucast blk) = int (unat b * unat blk)"
    by (metis uint_nat)
  then have "sint ((ucast b :: u64) * ucast blk) = signed_take_bit 63 (int (unat b * unat blk))"
    by (simp add: sint_uint)
  also have "\<dots> = int (unat b * unat blk)"
    using prod by (intro signed_take_bit_int_eq_self) (simp_all add: of_nat_mult [symmetric] del: of_nat_mult)
  finally show ?thesis .
qed

lemma wp_seek_block:
  assumes "fd_ok w fd" and "0 < unat blk" and "unat blk \<le> 65536"
  shows "wp (seek_block fd b blk) (\<lambda>r w'.
      io_frame w w' \<and> same_caches w w' \<and> dv_data (w_dev w') = dv_data (w_dev w) \<and>
      dv_stable (w_dev w') = dv_stable (w_dev w) \<and>
      (case r of
         Inl _ \<Rightarrow> \<not> (os_ok w \<and> unat b * unat blk \<le> length (dv_data (w_dev w)))
       | Inr _ \<Rightarrow> (\<exists>h. dv_fds (w_dev w') fd = Some h \<and> fd_rd h \<and> fd_wr h \<and>
           fd_off h = int (unat b * unat blk)))) w"
proof -
  have off: "sint ((ucast b :: u64) * ucast blk) = int (unat b * unat blk)"
    using assms(3) by (rule byte_off_exact)
  have aligned: "(word_of_nat (unat b * unat blk) :: u64) mod ucast blk = 0"
  proof -
    have "unat b * unat blk < 2 ^ 64"
      using byte_off_bound [OF assms(3), of b] by simp
    then have "unat (word_of_nat (unat b * unat blk) :: u64) = unat b * unat blk"
      by (simp add: unat_of_nat take_bit_nat_eq_self del: of_nat_mult)
    moreover have "unat (ucast blk :: u64) = unat blk"
      using unat_less [of blk] by (simp add: unsigned_ucast_eq take_bit_nat_eq_self)
    ultimately show ?thesis
      by (simp add: word_unat_eq_iff unat_mod_distrib del: of_nat_mult)
  qed
  show ?thesis
    unfolding seek_block_def Let_def off
    by (rule wp_bind_rule [OF wp_dev_lseek_set [OF assms(1)]])
      (auto simp: wp_simps aligned of_nat_le_iff simp del: of_nat_mult)
qed

text \<open>Reading one block at the current offset.\<close>

lemma wp_read_one_block:
  assumes "dv_fds (w_dev w) fd = Some h" and "fd_rd h" and "fd_off h = int off" and "0 < blksz w"
  shows "wp (read_one_block fd) (\<lambda>r w'.
      io_frame w w' \<and> same_caches w w' \<and> dv_data (w_dev w') = dv_data (w_dev w) \<and>
      dv_stable (w_dev w') = dv_stable (w_dev w) \<and>
      (case r of
         Inl _ \<Rightarrow> \<not> os_ok w
       | Inr bs \<Rightarrow> bs = chunk (off) (length bs) (dv_data (w_dev w)) \<and> length bs \<le> blksz w \<and>
           (os_ok w \<longrightarrow> bs = chunk (off) (blksz w) (dv_data (w_dev w))) \<and>
           dv_fds (w_dev w') fd = Some (h\<lparr>fd_off := fd_off h + int (length bs)\<rparr>))) w"
proof -
  have "sb_blk_size (sp_blk w) \<noteq> 0" using assms(4) by auto
  then show ?thesis using wp_dev_read [OF assms(1-3), of "sb_blk_size (sp_blk w)"]

    by (simp add: read_one_block_def wp_simps)
qed

text \<open>The state of a read: \<open>m\<close> full blocks and \<open>k\<close> more bytes have been copied.\<close>

definition read_result ::
  "world \<Rightarrow> nat \<Rightarrow> nat \<Rightarrow> nat \<Rightarrow> byte list \<Rightarrow> byte list \<times> u32 \<times> u32 \<Rightarrow> bool" where
  "read_result w off i n buf = (\<lambda>(buf', cnt, frac). \<exists>m\<le>n.
     cnt = word_of_nat (i + m) \<and> unat frac < blksz w \<and> (m = n \<longrightarrow> frac = 0) \<and>
     off + (m * blksz w + unat frac) \<le> max off (length (dv_data (w_dev w))) \<and>
     buf' = overwrite (i * blksz w) (chunk off (m * blksz w + unat frac) (dv_data (w_dev w))) buf \<and>
     (os_ok w \<longrightarrow> m = n \<or> length (dv_data (w_dev w)) < off + (m * blksz w + blksz w)))"

lemma read_result_short:
  assumes bs: "bs = chunk off (length bs) (dv_data (w_dev w))" and "length bs < blksz w"
    and "blksz w \<le> 65536"
    and ok: "os_ok w \<longrightarrow> bs = chunk off (blksz w) (dv_data (w_dev w))"
  shows "read_result w off i (Suc n) buf
    (overwrite (i * blksz w) bs buf, word_of_nat i, word_of_nat (length bs))"
proof -
  have len: "unat (word_of_nat (length bs) :: u32) = length bs"
    using assms(2,3) by (simp add: unat_of_nat take_bit_nat_eq_self)
  have "length bs = min (length bs) (length (dv_data (w_dev w)) - off)"
    using arg_cong [OF bs, of length] by (simp add: length_chunk)
  then have "off + length bs \<le> max off (length (dv_data (w_dev w)))" by linarith
  moreover have "length (dv_data (w_dev w)) < off + blksz w" if "os_ok w"
    using ok that assms(2) length_chunk [of off "blksz w" "dv_data (w_dev w)"] by simp
  ultimately show ?thesis
    unfolding read_result_def using assms len by (auto intro!: exI [of _ 0])
qed

lemma read_result_step:
  assumes bs: "bs = chunk off (blksz w) (dv_data (w_dev w))" and lbs: "length bs = blksz w"
    and fit: "(i + Suc n) * blksz w \<le> length buf" and pos: "0 < blksz w"
    and same: "dv_data (w_dev w') = dv_data (w_dev w)" "w_ctx w' = w_ctx w" and ok: "os_ok w \<longrightarrow> os_ok w'"
    and res: "read_result w' (off + blksz w) (Suc i) n (overwrite (i * blksz w) bs buf) res"
  shows "read_result w off i (Suc n) buf res"
proof -
  let ?blk = "blksz w" and ?d = "dv_data (w_dev w)"
  obtain buf' cnt frac m where r: "res = (buf', cnt, frac)" "m \<le> n" "cnt = word_of_nat (Suc i + m)"
    "unat frac < ?blk" "m = n \<longrightarrow> frac = 0"
    "off + ?blk + (m * ?blk + unat frac) \<le> max (off + ?blk) (length ?d)"
    "buf' = overwrite (Suc i * ?blk) (chunk (off + ?blk) (m * ?blk + unat frac) ?d) (overwrite (i * ?blk) bs buf)"
    "os_ok w' \<longrightarrow> m = n \<or> length ?d < off + ?blk + (m * ?blk + ?blk)"
    using res unfolding read_result_def same by (cases res) auto
  have inside: "off + ?blk \<le> length ?d"
    using bs lbs pos length_chunk [of off ?blk ?d] by simp
  let ?rest = "chunk (off + ?blk) (m * ?blk + unat frac) ?d"
  have lrest: "length ?rest = m * ?blk + unat frac" using r(6) inside by (simp add: max_def split: if_splits)
  have room: "i * ?blk + length bs + length ?rest \<le> length buf"
  proof (cases "m = n")
    case True
    then show ?thesis using fit lbs lrest r(5) by (simp add: algebra_simps)
  next
    case False
    then have "Suc m * ?blk \<le> n * ?blk" using r(2) by (intro mult_le_mono1) simp
    then show ?thesis using fit lbs lrest r(4) by (simp add: algebra_simps)
  qed
  have "buf' = overwrite (i * ?blk + length bs) ?rest (overwrite (i * ?blk) bs buf)"
    using r(7) lbs by (simp add: add.commute)
  also have "\<dots> = overwrite (i * ?blk) (bs @ ?rest) buf"
    using room by (rule overwrite_append)
  also have "bs @ ?rest = chunk off (Suc m * ?blk + unat frac) ?d"
    using bs by (simp add: chunk_join add.assoc)
  finally have buf': "buf' = overwrite (i * ?blk) (chunk off (Suc m * ?blk + unat frac) ?d) buf" .
  show ?thesis
    unfolding read_result_def r(1)
    using r(2-6,8) buf' ok inside
    by (auto intro!: exI [of _ "Suc m"] simp: algebra_simps max_def)
qed

lemma wp_read_raw_loop:
  assumes "dv_fds (w_dev w) fd = Some h" and "fd_rd h" and "fd_off h = int off" and "0 < blksz w"
    and "blksz w \<le> 65536" and "(i + n) * blksz w \<le> length buf"
  shows "wp (read_raw_loop fd (blksz w) n i buf) (\<lambda>r w'.
      io_frame w w' \<and> same_caches w w' \<and> dv_data (w_dev w') = dv_data (w_dev w) \<and>
      dv_stable (w_dev w') = dv_stable (w_dev w) \<and>
      (case r of Inl _ \<Rightarrow> \<not> os_ok w | Inr res \<Rightarrow> read_result w off i n buf res)) w"
  using assms
proof (induction n arbitrary: w h off i buf)
  case 0
  then show ?case by (auto simp: wp_simps read_result_def chunk_def)
next
  case (Suc n)
  show ?case
    unfolding read_raw_loop.simps
  proof (rule wp_bind_rule [OF wp_read_one_block [OF Suc.prems(1-4)]], goal_cases)
    case (1 e w')
    then show ?case by simp
  next
    case (2 bs w')
    show ?case
    proof (cases "length bs = blksz w")
      case False
      then show ?thesis using 2 Suc.prems by (auto simp: wp_simps intro: read_result_short)
    next
      case True
      have ctx: "w_ctx w' = w_ctx w" using 2 by (simp add: io_frame_ctx)
      have "wp (read_raw_loop fd (blksz w') n (Suc i) (overwrite (i * blksz w) bs buf)) (\<lambda>r w''.
          io_frame w' w'' \<and> same_caches w' w'' \<and> dv_data (w_dev w'') = dv_data (w_dev w') \<and>
          dv_stable (w_dev w'') = dv_stable (w_dev w') \<and>
          (case r of Inl _ \<Rightarrow> \<not> os_ok w'
           | Inr res \<Rightarrow> read_result w' (off + blksz w) (Suc i) n (overwrite (i * blksz w) bs buf) res)) w'"
        using 2 Suc.prems True ctx
        by (intro Suc.IH [of _ "h\<lparr>fd_off := fd_off h + int (length bs)\<rparr>"]) (auto simp: algebra_simps)
      then have "wp (read_raw_loop fd (blksz w) n (Suc i) (overwrite (i * blksz w) bs buf)) (\<lambda>r w''.
          io_frame w w'' \<and> same_caches w w'' \<and> dv_data (w_dev w'') = dv_data (w_dev w) \<and>
          dv_stable (w_dev w'') = dv_stable (w_dev w) \<and>
          (case r of Inl _ \<Rightarrow> \<not> os_ok w | Inr res \<Rightarrow> read_result w off i (Suc n) buf res)) w'"
        unfolding ctx
      proof (rule wp_mono, goal_cases)
        case (1 r w'')
        have "read_result w off i (Suc n) buf res" if "r = Inr res" for res
          using 1 2 that True Suc.prems ctx os_ok_frame [of w w']
          by (intro read_result_step [of bs off w i n buf w' res]) auto
        then show ?case using 1 2 io_frame_trans [of w w' w''] same_caches_trans [of w w' w''] os_ok_frame [of w w']
          by (cases r) auto
      qed
      then show ?thesis using True by simp
    qed
  qed
qed

text \<open>Writing one block at the current offset.\<close>

lemma wp_write_one_block:
  assumes "dv_fds (w_dev w) fd = Some h" and "fd_wr h" and "fd_off h = int off"
    and "0 < blksz w" and "blksz w \<le> 65536" and "blksz w \<le> length src"
  shows "wp (write_one_block fd src) (\<lambda>r w'.
      io_frame w w' \<and> same_caches w w' \<and>
      (case r of
         Inl _ \<Rightarrow> dv_data (w_dev w') = dv_data (w_dev w) \<and> dv_stable (w_dev w') = dv_stable (w_dev w) \<and>
           \<not> (os_ok w \<and> off + blksz w \<le> length (dv_data (w_dev w)))
       | Inr k \<Rightarrow> unat k \<le> blksz w \<and>
           dv_data (w_dev w') = write_at off (take (unat k) src) (dv_data (w_dev w)) \<and>
           (os_ok w \<and> off + blksz w \<le> length (dv_data (w_dev w)) \<longrightarrow> unat k = blksz w) \<and>
           dv_fds (w_dev w') fd = Some (h\<lparr>fd_off := fd_off h + int (unat k)\<rparr>))) w"
proof -
  have "sb_blk_size (sp_blk w) \<noteq> 0" using assms(4) by auto
  moreover have "length (take (blksz w) src) = blksz w" using assms(6) by simp
  moreover have "length (take (blksz w) src) < 2 ^ 32" using assms(5) by simp
  ultimately show ?thesis using wp_dev_write [OF assms(1-3), of "take (blksz w) src"]
    by (auto simp: write_one_block_def wp_simps min_def elim!: wp_mono split: sum.splits)
qed

text \<open>What a write leaves on the device: the first \<open>t\<close> bytes of the source at the offset.\<close>

definition write_result ::
  "world \<Rightarrow> nat \<Rightarrow> nat \<Rightarrow> nat \<Rightarrow> byte list \<Rightarrow> (u32 \<times> u32) res \<Rightarrow> world \<Rightarrow> bool" where
  "write_result w off i n src r w' = (\<exists>t\<le>n * blksz w.
     dv_data (w_dev w') = write_at off (take t (drop (i * blksz w) src)) (dv_data (w_dev w)) \<and>
     (case r of Inl _ \<Rightarrow> True
      | Inr (cnt, frac) \<Rightarrow> \<exists>m\<le>n. cnt = word_of_nat (i + m) \<and> unat frac < blksz w \<and>
          (m = n \<longrightarrow> frac = 0) \<and> t = m * blksz w + unat frac) \<and>
     (os_ok w \<and> off + n * blksz w \<le> length (dv_data (w_dev w)) \<longrightarrow> r = Inr (word_of_nat (i + n), 0)))"

lemma write_result_step:
  assumes ctx: "w_ctx w' = w_ctx w" and fit: "(i + Suc n) * blksz w \<le> length src"
    and data: "dv_data (w_dev w') = write_at off (take (blksz w) (drop (i * blksz w) src)) (dv_data (w_dev w))"
    and ok: "os_ok w \<longrightarrow> os_ok w'"
    and res: "write_result w' (off + blksz w) (Suc i) n src r w''"
  shows "write_result w off i (Suc n) src r w''"
proof -
  let ?blk = "blksz w" and ?rest = "drop (i * blksz w) src"
  obtain t where t: "t \<le> n * ?blk"
    "dv_data (w_dev w'') = write_at (off + ?blk) (take t (drop (Suc i * ?blk) src)) (dv_data (w_dev w'))"
    "case r of Inl _ \<Rightarrow> True | Inr (cnt, frac) \<Rightarrow> \<exists>m\<le>n. cnt = word_of_nat (Suc i + m) \<and>
       unat frac < ?blk \<and> (m = n \<longrightarrow> frac = 0) \<and> t = m * ?blk + unat frac"
    "os_ok w' \<and> off + ?blk + n * ?blk \<le> length (dv_data (w_dev w')) \<longrightarrow> r = Inr (word_of_nat (Suc i + n), 0)"
    using res unfolding write_result_def ctx by auto
  have len: "length (take ?blk ?rest) = ?blk" using fit by (simp add: algebra_simps)
  have "take (?blk + t) ?rest = take ?blk ?rest @ take t (drop (Suc i * ?blk) src)"
    by (simp add: take_add add.commute [of "i * ?blk"])
  then have "dv_data (w_dev w'') = write_at off (take (?blk + t) ?rest) (dv_data (w_dev w))"
    unfolding t(2) data using write_at_append [of off "take ?blk ?rest"] len by simp
  moreover have "case r of Inl _ \<Rightarrow> True | Inr (cnt, frac) \<Rightarrow> \<exists>m\<le>Suc n. cnt = word_of_nat (i + m) \<and>
       unat frac < ?blk \<and> (m = Suc n \<longrightarrow> frac = 0) \<and> ?blk + t = m * ?blk + unat frac"
    using t(3) by (fastforce split: sum.splits intro: exI [of _ "Suc _"])
  moreover have "length (dv_data (w_dev w)) \<le> length (dv_data (w_dev w'))"
    unfolding data by (simp add: length_write_at)
  ultimately show ?thesis
    unfolding write_result_def using t(1,4) ok
    by (intro exI [of _ "?blk + t"]) (auto simp: algebra_simps)
qed

lemma wp_write_raw_loop:
  assumes "dv_fds (w_dev w) fd = Some h" and "fd_wr h" and "fd_off h = int off" and "0 < blksz w"
    and "blksz w \<le> 65536" and "(i + n) * blksz w \<le> length src"
  shows "wp (write_raw_loop fd (blksz w) n i src) (\<lambda>r w'.
      io_frame w w' \<and> same_caches w w' \<and> write_result w off i n src r w') w"
  using assms
proof (induction n arbitrary: w h off i)
  case 0
  then show ?case by (auto simp: wp_simps write_result_def write_at_def)
next
  case (Suc n)
  have len: "blksz w \<le> length (drop (i * blksz w) src)" using Suc.prems(6) by (simp add: algebra_simps)
  show ?case
    unfolding write_raw_loop.simps
  proof (rule wp_bind_rule [OF wp_write_one_block [OF Suc.prems(1-5) len]], goal_cases)
    case (1 e w')
    then show ?case by (auto simp: write_result_def write_at_def intro!: exI [of _ 0])
  next
    case (2 k w')
    show ?case
    proof (cases "unat k = blksz w")
      case False
      then have "write_result w off i (Suc n) src (Inr (word_of_nat i, k)) w'"
        unfolding write_result_def using 2 by (intro exI [of _ "unat k"]) (auto intro: exI [of _ 0])
      then show ?thesis using 2 False by (simp add: wp_simps)
    next
      case True
      have ctx: "w_ctx w' = w_ctx w" using 2 by (simp add: io_frame_ctx)
      have "wp (write_raw_loop fd (blksz w') n (Suc i) src) (\<lambda>r w''.
          io_frame w' w'' \<and> same_caches w' w'' \<and> write_result w' (off + blksz w) (Suc i) n src r w'') w'"
        using 2 Suc.prems True ctx
        by (intro Suc.IH [of _ "h\<lparr>fd_off := fd_off h + int (unat k)\<rparr>"]) (auto simp: algebra_simps)
      then have "wp (write_raw_loop fd (blksz w) n (Suc i) src) (\<lambda>r w''.
          io_frame w w'' \<and> same_caches w w'' \<and> write_result w off i (Suc n) src r w'') w'"
        unfolding ctx
      proof (rule wp_mono, goal_cases)
        case (1 r w'')
        then show ?case
          using 2 True Suc.prems ctx io_frame_trans [of w w' w''] same_caches_trans [of w w' w'']
            os_ok_frame [of w w'] write_result_step [of w' w i n src off r w''] by simp
      qed
      then show ?thesis using True by simp
    qed
  qed
qed

lemma read_result_cong:
  assumes "w_ctx w' = w_ctx w" and "dv_data (w_dev w') = dv_data (w_dev w)" and "os_ok w \<Longrightarrow> os_ok w'"
    and "read_result w' off i n buf res"
  shows "read_result w off i n buf res"
  using assms(3,4) unfolding read_result_def assms(1,2) by (auto split: prod.splits)

lemma write_result_cong:
  assumes "w_ctx w' = w_ctx w" and "dv_data (w_dev w') = dv_data (w_dev w)" and "os_ok w \<Longrightarrow> os_ok w'"
    and "write_result w' off i n src r w''"
  shows "write_result w off i n src r w''"
  using assms(3,4) unfolding write_result_def assms(1,2) by blast

text \<open>The two routines. The state reported to the caller describes the content of the device
  exactly, whatever fails.\<close>

lemma wp_read_continuous_blocks_raw:
  assumes "io_ready w" and "unat n * blksz w \<le> length buf"
  shows "wp (read_continuous_blocks_raw (dev_fd w) buf n b) (\<lambda>r w'.
      io_frame w w' \<and> same_caches w w' \<and> dv_data (w_dev w') = dv_data (w_dev w) \<and>
      dv_stable (w_dev w') = dv_stable (w_dev w) \<and>
      (case r of
         Inl _ \<Rightarrow> \<not> (os_ok w \<and> unat b * blksz w \<le> length (dv_data (w_dev w)))
       | Inr res \<Rightarrow> read_result w (unat b * blksz w) 0 (unat n) buf res)) w"
proof -
  have rdy: "fd_ok w (dev_fd w)" "0 < blksz w" "blksz w \<le> 65536" "0 \<le> dev_fd w"
    "sb_blk_size (sp_blk w) \<noteq> 0"
    using assms(1) by (auto simp: io_ready_def fd_ok_def)
  have seq: "wp (bind (seek_block (dev_fd w) b (sb_blk_size (sp_blk w))) (\<lambda>_.
        read_raw_loop (dev_fd w) (blksz w) (unat n) 0 buf)) (\<lambda>r w'.
      io_frame w w' \<and> same_caches w w' \<and> dv_data (w_dev w') = dv_data (w_dev w) \<and>
      dv_stable (w_dev w') = dv_stable (w_dev w) \<and>
      (case r of
         Inl _ \<Rightarrow> \<not> (os_ok w \<and> unat b * blksz w \<le> length (dv_data (w_dev w)))
       | Inr res \<Rightarrow> read_result w (unat b * blksz w) 0 (unat n) buf res)) w"
  proof (rule wp_bind_rule [OF wp_seek_block [OF rdy(1-3)]], goal_cases)
    case (1 e w')
    then show ?case by simp
  next
    case (2 u w')
    then obtain h where h: "dv_fds (w_dev w') (dev_fd w) = Some h" "fd_rd h"
      "fd_off h = int (unat b * blksz w)" by auto
    have ctx: "w_ctx w' = w_ctx w" using 2 by (simp add: io_frame_ctx)
    have "wp (read_raw_loop (dev_fd w) (blksz w') (unat n) 0 buf) (\<lambda>r w''.
        io_frame w' w'' \<and> same_caches w' w'' \<and> dv_data (w_dev w'') = dv_data (w_dev w') \<and>
        dv_stable (w_dev w'') = dv_stable (w_dev w') \<and>
        (case r of Inl _ \<Rightarrow> \<not> os_ok w'
         | Inr res \<Rightarrow> read_result w' (unat b * blksz w) 0 (unat n) buf res)) w'"
      using h ctx assms rdy by (intro wp_read_raw_loop [of _ _ h]) simp_all
    then show ?case unfolding ctx
    proof (rule wp_mono, goal_cases)
      case (1 r w'')
      then show ?case
        using 2 ctx read_result_cong [of w' w] io_frame_trans [of w w' w''] same_caches_trans [of w w' w''] os_ok_frame [of w w']
        by (auto split: sum.splits)
    qed
  qed
  then show ?thesis
    using rdy by (simp add: read_continuous_blocks_raw_def wp_bind wp_mofs_io_blk_sz wp_throw_if)
qed

lemma wp_write_continuous_blocks_raw:
  assumes "io_ready w" and "unat n * blksz w \<le> length src"
  shows "wp (write_continuous_blocks_raw (dev_fd w) src n b) (\<lambda>r w'.
      io_frame w w' \<and> same_caches w w' \<and> write_result w (unat b * blksz w) 0 (unat n) src r w') w"
proof -
  have rdy: "fd_ok w (dev_fd w)" "0 < blksz w" "blksz w \<le> 65536" "0 \<le> dev_fd w"
    "sb_blk_size (sp_blk w) \<noteq> 0"
    using assms(1) by (auto simp: io_ready_def fd_ok_def)
  have seq: "wp (bind (seek_block (dev_fd w) b (sb_blk_size (sp_blk w))) (\<lambda>_.
        write_raw_loop (dev_fd w) (blksz w) (unat n) 0 src)) (\<lambda>r w'.
      io_frame w w' \<and> same_caches w w' \<and> write_result w (unat b * blksz w) 0 (unat n) src r w') w"
  proof (rule wp_bind_rule [OF wp_seek_block [OF rdy(1-3)]], goal_cases)
    case (1 e w')
    then show ?case by (auto simp: write_result_def write_at_def intro!: exI [of _ 0])
  next
    case (2 u w')
    then obtain h where h: "dv_fds (w_dev w') (dev_fd w) = Some h" "fd_wr h"
      "fd_off h = int (unat b * blksz w)" by auto
    have ctx: "w_ctx w' = w_ctx w" using 2 by (simp add: io_frame_ctx)
    have "wp (write_raw_loop (dev_fd w) (blksz w') (unat n) 0 src) (\<lambda>r w''.
        io_frame w' w'' \<and> same_caches w' w'' \<and> write_result w' (unat b * blksz w) 0 (unat n) src r w'') w'"
      using h ctx assms rdy by (intro wp_write_raw_loop [of _ _ h]) simp_all
    then show ?case unfolding ctx
    proof (rule wp_mono, goal_cases)
      case (1 r w'')
      then show ?case
        using 2 ctx io_frame_trans [of w w' w''] same_caches_trans [of w w' w''] os_ok_frame [of w w']
          write_result_cong [of w' w] by blast
    qed
  qed
  then show ?thesis
    using rdy by (simp add: write_continuous_blocks_raw_def wp_bind wp_mofs_io_blk_sz wp_throw_if)
qed

text \<open>One block, the only size the core asks for.\<close>

lemma read_result_1:
  assumes "0 < blksz w" and "length buf = blksz w"
    and "read_result w (unat b * blksz w) 0 1 buf (buf', cnt, frac)"
  shows "length buf' = blksz w \<and>
    (cnt = 1 \<and> frac = 0 \<and> fits w b \<and> buf' = dev_block w b \<or>
     cnt = 0 \<and> unat frac < blksz w \<and> \<not> (os_ok w \<and> fits w b))"
proof -
  obtain m where m: "m \<le> 1" "cnt = word_of_nat m" "unat frac < blksz w" "m = 1 \<longrightarrow> frac = 0"
    "unat b * blksz w + (m * blksz w + unat frac) \<le> max (unat b * blksz w) (length (dv_data (w_dev w)))"
    "buf' = overwrite 0 (chunk (unat b * blksz w) (m * blksz w + unat frac) (dv_data (w_dev w))) buf"
    "os_ok w \<longrightarrow> m = 1 \<or> length (dv_data (w_dev w)) < unat b * blksz w + (m * blksz w + blksz w)"
    using assms(3) unfolding read_result_def by auto
  show ?thesis
  proof (cases "m = 0")
    case True
    then have "length (chunk (unat b * blksz w) (unat frac) (dv_data (w_dev w))) \<le> length buf"
      using m(3) assms(2) by (simp add: length_chunk)
    then show ?thesis using True m assms(2) by (auto simp: fits_def)
  next
    case False
    then have "m = 1" using m(1) by simp
    then show ?thesis using m assms(1,2)
      by (auto simp: fits_def dev_block_def max_def split: if_splits)
  qed
qed

lemma wp_read_raw_1:
  assumes "io_ready w" and "length buf = blksz w"
  shows "wp (read_continuous_blocks_raw (dev_fd w) buf 1 b) (\<lambda>r w'.
      io_frame w w' \<and> same_caches w w' \<and> dv_data (w_dev w') = dv_data (w_dev w) \<and>
      dv_stable (w_dev w') = dv_stable (w_dev w) \<and>
      (case r of
         Inl _ \<Rightarrow> \<not> (os_ok w \<and> fits w b)
       | Inr (buf', cnt, frac) \<Rightarrow> length buf' = blksz w \<and>
          (cnt = 1 \<and> frac = 0 \<and> fits w b \<and> buf' = dev_block w b \<or>
           cnt = 0 \<and> unat frac < blksz w \<and> \<not> (os_ok w \<and> fits w b)))) w"
proof -
  have pos: "0 < blksz w" using assms(1) by (simp add: io_ready_def)
  have len: "unat (1 :: u32) * blksz w \<le> length buf" using assms(2) by simp
  show ?thesis
  proof (rule wp_mono [OF wp_read_continuous_blocks_raw [OF assms(1) len]], goal_cases)
    case (1 r w')
    show ?case
    proof (cases r)
      case (Inl e)
      then show ?thesis using 1 by (auto simp: fits_def)
    next
      case (Inr res)
      obtain buf' cnt frac where res: "res = (buf', cnt, frac)" by (cases res)
      have "read_result w (unat b * blksz w) 0 1 buf (buf', cnt, frac)" using 1 Inr res by simp
      from read_result_1 [OF pos assms(2) this] show ?thesis using 1 Inr res by simp
    qed
  qed
qed

lemma write_result_1:
  assumes "length src = blksz w" and "write_result w (unat b * blksz w) 0 1 src r w'"
  shows "\<exists>t\<le>blksz w. dv_data (w_dev w') = write_at (unat b * blksz w) (take t src) (dv_data (w_dev w))"
    and "r = Inr (1, 0) \<Longrightarrow> dv_data (w_dev w') = write_at (unat b * blksz w) src (dv_data (w_dev w))"
    and "os_ok w \<Longrightarrow> fits w b \<Longrightarrow> r = Inr (1, 0)"
proof -
  obtain t where t: "t \<le> blksz w"
    "dv_data (w_dev w') = write_at (unat b * blksz w) (take t src) (dv_data (w_dev w))"
    "case r of Inl _ \<Rightarrow> True | Inr (cnt, frac) \<Rightarrow> \<exists>m\<le>1. cnt = word_of_nat m \<and> unat frac < blksz w \<and>
       (m = 1 \<longrightarrow> frac = 0) \<and> t = m * blksz w + unat frac"
    "os_ok w \<and> unat b * blksz w + blksz w \<le> length (dv_data (w_dev w)) \<longrightarrow> r = Inr (1, 0)"
    using assms(2) by (simp only: write_result_def mult_0 drop_0 add_0 mult_1 of_nat_1) blast
  show "\<exists>t\<le>blksz w. dv_data (w_dev w') = write_at (unat b * blksz w) (take t src) (dv_data (w_dev w))"
    using t(1,2) by blast
  show "os_ok w \<Longrightarrow> fits w b \<Longrightarrow> r = Inr (1, 0)"
    using t(4) by (simp add: fits_def)
  show "dv_data (w_dev w') = write_at (unat b * blksz w) src (dv_data (w_dev w))" if "r = Inr (1, 0)"
  proof -
    obtain m where m: "m \<le> 1" "(1 :: u32) = word_of_nat m" "t = m * blksz w" using t(3) \<open>r = Inr (1, 0)\<close> by auto
    then have "m = 1" by (cases m) auto
    then show ?thesis using t(2) m(3) assms(1) by simp
  qed
qed

lemma wp_write_raw_1:
  assumes "io_ready w" and "length src = blksz w"
  shows "wp (write_continuous_blocks_raw (dev_fd w) src 1 b) (\<lambda>r w'.
      io_frame w w' \<and> same_caches w w' \<and>
      (\<exists>t\<le>blksz w. dv_data (w_dev w') = write_at (unat b * blksz w) (take t src) (dv_data (w_dev w))) \<and>
      (r = Inr (1, 0) \<longrightarrow> dv_data (w_dev w') = write_at (unat b * blksz w) src (dv_data (w_dev w))) \<and>
      (os_ok w \<and> fits w b \<longrightarrow> r = Inr (1, 0))) w"
proof -
  have len: "unat (1 :: u32) * blksz w \<le> length src" using assms(2) by simp
  have one: "unat (1 :: u32) = 1" by simp
  show ?thesis
    by (rule wp_mono [OF wp_write_continuous_blocks_raw [OF assms(1) len], unfolded one])
      (use write_result_1 [OF assms(2)] in blast)
qed

end
