(* ===== verification/Mofs_Cache_Spec.thy ===== *)
theory Mofs_Cache_Spec
  imports Mofs_Raw
begin

text \<open>
  What the core expects of block I/O, whichever cache the build selects. A cache gives every
  block inside the device a current content, its \<open>view\<close>; the locale \<open>block_cache\<close> states
  the laws of the four routines the core calls in terms of the view, for every pattern of
  device failures, and proves the read-modify-write pattern that bitmaps and inodes use.
  \<open>write_back_cache\<close> adds the law of the flush.

  \<open>calm w w'\<close> is the premise of every statement of success: no operating-system call fails
  from \<open>w\<close> on, and fewer than \<open>2 ^ 64 - 1\<close> cache accesses have been made up to \<open>w'\<close>, so
  that no access tick has reached the value the victim search starts from.
\<close>

definition young :: "world \<Rightarrow> bool" where
  "young w = (os_touches (w_os w) < 2 ^ 64 - 1)"

definition calm :: "world \<Rightarrow> world \<Rightarrow> bool" where
  "calm w w' = (os_ok w \<and> young w')"

lemma calm_split:
  assumes "calm w w''" and "io_frame w w'" and "io_frame w' w''"
  shows "calm w w'" and "calm w' w''"
  using assms os_ok_frame [of w w']
  by (auto simp: calm_def young_def io_frame_def os_frame_def)

lemma calm_os_ok: "calm w w' \<Longrightarrow> os_ok w"
  by (simp add: calm_def)

text \<open>Two worlds with the same device and cache, as before and after an allocation.\<close>

definition same_store :: "world \<Rightarrow> world \<Rightarrow> bool" where
  "same_store w w' = (w_ctx w' = w_ctx w \<and> w_dev w' = w_dev w \<and> w_bc w' = w_bc w \<and>
     w_mode w' = w_mode w \<and> os_touches (w_os w) \<le> os_touches (w_os w'))"

lemma same_store_refl [simp]: "same_store w w"
  by (simp add: same_store_def)

lemma same_store_fits: "same_store w w' \<Longrightarrow> fits w' b = fits w b"
  by (simp add: same_store_def fits_def)

text \<open>The four postconditions, for the views \<open>V\<close> before and \<open>V'\<close> after the routine.\<close>

definition rd_post ::
  "(u32 \<Rightarrow> byte list) \<Rightarrow> (u32 \<Rightarrow> byte list) \<Rightarrow> world \<Rightarrow> u32 \<Rightarrow> (byte list \<times> u32 \<times> u32) res \<Rightarrow> world \<Rightarrow> bool" where
  "rd_post V V' w b r w' = ((\<forall>c. fits w c \<longrightarrow> V' c = V c) \<and>
     (case r of Inl _ \<Rightarrow> \<not> (calm w w' \<and> fits w b)
      | Inr (buf', cnt, frac) \<Rightarrow> length buf' = blksz w \<and>
          (cnt = 1 \<and> frac = 0 \<and> fits w b \<and> buf' = V b \<or>
           cnt = 0 \<and> unat frac < blksz w \<and> \<not> (calm w w' \<and> fits w b))))"

definition wr_post ::
  "(u32 \<Rightarrow> byte list) \<Rightarrow> (u32 \<Rightarrow> byte list) \<Rightarrow> world \<Rightarrow> u32 \<Rightarrow> byte list \<Rightarrow> (u32 \<times> u32) res \<Rightarrow> world \<Rightarrow> bool" where
  "wr_post V V' w b src r w' = ((\<forall>c. fits w c \<longrightarrow> c \<noteq> b \<longrightarrow> V' c = V c) \<and>
     (r = Inr (1, 0) \<longrightarrow> V' b = src) \<and> (calm w w' \<longrightarrow> r = Inr (1, 0)) \<and> torn src (V b) (V' b))"

definition md_post ::
  "(u32 \<Rightarrow> byte list) \<Rightarrow> (u32 \<Rightarrow> byte list) \<Rightarrow> world \<Rightarrow> u32 \<Rightarrow> u32 \<Rightarrow> byte list \<Rightarrow> unit res \<Rightarrow> world \<Rightarrow> bool" where
  "md_post V V' w b off patch r w' = ((\<forall>c. fits w c \<longrightarrow> c \<noteq> b \<longrightarrow> V' c = V c) \<and>
     (case r of Inl e \<Rightarrow> V' b = V b \<and> (calm w w' \<longrightarrow> e = MOFS_EINVAL)
      | Inr _ \<Rightarrow> unat off + length patch \<le> blksz w \<and> V' b = overwrite (unat off) patch (V b)))"

definition iv_post ::
  "(u32 \<Rightarrow> byte list) \<Rightarrow> (u32 \<Rightarrow> byte list) \<Rightarrow> world \<Rightarrow> u32 \<Rightarrow> unit res \<Rightarrow> world \<Rightarrow> bool" where
  "iv_post V V' w b r w' = (r = Inr () \<and> (\<forall>c. fits w c \<longrightarrow> c \<noteq> b \<longrightarrow> V' c = V c))"

definition fl_post ::
  "(u32 \<Rightarrow> byte list) \<Rightarrow> (u32 \<Rightarrow> byte list) \<Rightarrow> world \<Rightarrow> unit res \<Rightarrow> world \<Rightarrow> bool" where
  "fl_post V V' w r w' = ((\<forall>c. fits w c \<longrightarrow> V' c = V c) \<and>
     (case r of Inl _ \<Rightarrow> \<not> calm w w'
      | Inr _ \<Rightarrow> (\<forall>c. fits w c \<longrightarrow> dev_block w' c = V c) \<and> dv_stable (w_dev w') = dv_data (w_dev w')))"

locale block_cache =
  fixes view :: "world \<Rightarrow> u32 \<Rightarrow> byte list"
    and inv :: "world \<Rightarrow> bool"
    and rd :: "int \<Rightarrow> byte list \<Rightarrow> u32 \<Rightarrow> u32 \<Rightarrow> (byte list \<times> u32 \<times> u32) mofs"
    and wr :: "int \<Rightarrow> byte list \<Rightarrow> u32 \<Rightarrow> u32 \<Rightarrow> (u32 \<times> u32) mofs"
    and md :: "u32 \<Rightarrow> u32 \<Rightarrow> byte list \<Rightarrow> unit mofs"
    and iv :: "u32 \<Rightarrow> unit mofs"
  assumes inv_ready: "inv w \<Longrightarrow> io_ready w"
    and view_length: "inv w \<Longrightarrow> fits w b \<Longrightarrow> length (view w b) = blksz w"
    and view_store: "same_store w w' \<Longrightarrow> view w' b = view w b"
    and inv_store: "same_store w w' \<Longrightarrow> inv w \<Longrightarrow> inv w'"
    and rd_law: "inv w \<Longrightarrow> length buf = blksz w \<Longrightarrow>
      wp (rd (dev_fd w) buf 1 b)
        (\<lambda>r w'. inv w' \<and> io_frame w w' \<and> rd_post (view w) (view w') w b r w') w"
    and wr_law: "inv w \<Longrightarrow> length src = blksz w \<Longrightarrow> fits w b \<Longrightarrow>
      wp (wr (dev_fd w) src 1 b)
        (\<lambda>r w'. inv w' \<and> io_frame w w' \<and> wr_post (view w) (view w') w b src r w') w"
    and md_law: "inv w \<Longrightarrow> fits w b \<Longrightarrow> length patch < 2 ^ 32 \<Longrightarrow>
      wp (md b off patch)
        (\<lambda>r w'. inv w' \<and> io_frame w w' \<and> md_post (view w) (view w') w b off patch r w') w"
    and iv_law: "inv w \<Longrightarrow>
      wp (iv b) (\<lambda>r w'. inv w' \<and> io_frame w w' \<and> iv_post (view w) (view w') w b r w') w"
begin

text \<open>Reading one whole block, with the check every caller makes: a short read is an error
  (\<open>e\<close>, which is EIO in the core).\<close>

definition read_full :: "mofs_error \<Rightarrow> byte list \<Rightarrow> u32 \<Rightarrow> byte list mofs" where
  "read_full e buf b =
     bind (gets dev_fd) (\<lambda>fd.
     bind (rd fd buf 1 b) (\<lambda>(buf', cnt, frac).
     if cnt \<noteq> 1 \<or> frac \<noteq> 0 then throw e else ret buf'))"

definition write_full :: "mofs_error \<Rightarrow> byte list \<Rightarrow> u32 \<Rightarrow> unit mofs" where
  "write_full e src b =
     bind (gets dev_fd) (\<lambda>fd.
     bind (wr fd src 1 b) (\<lambda>(cnt, frac).
     if cnt \<noteq> 1 \<or> frac \<noteq> 0 then throw e else ret ()))"

lemma wp_read_full:
  assumes "inv w" and "length buf = blksz w"
  shows "wp (read_full e buf b) (\<lambda>r w'.
      inv w' \<and> io_frame w w' \<and> (\<forall>c. fits w c \<longrightarrow> view w' c = view w c) \<and>
      (case r of Inl _ \<Rightarrow> \<not> (calm w w' \<and> fits w b) | Inr d \<Rightarrow> fits w b \<and> d = view w b)) w"
  unfolding read_full_def wp_bind wp_gets sum.case
  by (rule wp_mono [OF rd_law [OF assms]]) (auto simp: rd_post_def wp_simps split: sum.splits)

lemma wp_write_full:
  assumes "inv w" and "length src = blksz w" and "fits w b"
  shows "wp (write_full e src b) (\<lambda>r w'.
      inv w' \<and> io_frame w w' \<and> (\<forall>c. fits w c \<longrightarrow> c \<noteq> b \<longrightarrow> view w' c = view w c) \<and>
      (case r of Inl _ \<Rightarrow> \<not> calm w w' \<and> torn src (view w b) (view w' b) | Inr _ \<Rightarrow> view w' b = src)) w"
  unfolding write_full_def wp_bind wp_gets sum.case
  by (rule wp_mono [OF wr_law [OF assms]]) (auto simp: wr_post_def wp_simps split: sum.splits prod.splits)

text \<open>Read-modify-write of one block: the view of the block is transformed, every other block
  keeps its view, and a failure leaves the other blocks alone too.\<close>

lemma wp_read_modify_write:
  assumes inv: "inv w" and len: "length buf = blksz w"
    and f: "\<And>d. length d = blksz w \<Longrightarrow> length (f d) = blksz w"
  shows "wp (bind (read_full e buf b) (\<lambda>d. write_full e (f d) b)) (\<lambda>r w'.
      inv w' \<and> io_frame w w' \<and> (\<forall>c. fits w c \<longrightarrow> c \<noteq> b \<longrightarrow> view w' c = view w c) \<and>
      (case r of Inl _ \<Rightarrow> \<not> (calm w w' \<and> fits w b) \<and> (fits w b \<longrightarrow> torn (f (view w b)) (view w b) (view w' b))
       | Inr _ \<Rightarrow> fits w b \<and> view w' b = f (view w b))) w"
proof (rule wp_bind_rule [OF wp_read_full [OF inv len]], goal_cases)
  case (1 e w')
  then show ?case by auto
next
  case (2 d w1)
  then have d: "d = view w b" "fits w b" and w1: "inv w1" "io_frame w w1"
    and same: "\<forall>c. fits w c \<longrightarrow> view w1 c = view w c" by auto
  have ctx: "w_ctx w1 = w_ctx w" using w1(2) by (rule io_frame_ctx)
  have src: "length (f d) = blksz w1" using f d view_length inv ctx by simp
  show ?case
  proof (rule wp_mono [OF wp_write_full [OF w1(1) src fits_frame [OF w1(2) d(2)]]], goal_cases)
    case (1 r w')
    then show ?case
      using d same w1 io_frame_trans [OF w1(2), of w'] fits_frame [OF w1(2)] calm_split [of w w' w1]
      by (auto split: sum.splits)
  qed
qed

end

text \<open>A write-back cache also has a flush: it changes no view, and when it reports success every
  block of the device equals its view and has reached stable storage.\<close>

locale write_back_cache = block_cache +
  fixes fl :: "unit mofs"
  assumes fl_law: "inv w \<Longrightarrow>
      wp fl (\<lambda>r w'. inv w' \<and> io_frame w w' \<and> fl_post (view w) (view w') w r w') w"

end
