(* ===== verification/Mofs_Buffer.thy ===== *)
theory Mofs_Buffer
  imports Mofs_Cache_Spec
begin

text \<open>
  The write-back block cache: \<open>src/core/modules/mofs_buffer.c\<close> and the pool routines it shares
  with \<open>mofs_buffer_split.c\<close>. The split file passes the pool as an argument and the unified
  file has the same text for its one pool, so the pool is an argument here (\<open>pool_id\<close>), and
  the routines that serve a block take \<open>sel\<close>, the choice of the pool for a block number.

  The invariant \<open>c_core\<close> says that a valid slot lies in its block's pool, holds a block
  inside the device, is the only slot of that block, and equals the device unless it is dirty.
  The view of a block is the content of its slot, or the device's content. Every routine is
  shown to keep the invariant and to change the view only as its contract says, for all
  patterns of device failures: an eviction or flush that fails half way loses nothing.
\<close>

section \<open>Definitions\<close>

type_synonym pool_sel = "mofs_superblock \<Rightarrow> u32 \<Rightarrow> pool_id"

abbreviation pool_at :: "pool_id \<Rightarrow> world \<Rightarrow> bcache_entry list" where
  "pool_at p w \<equiv> bc_pool (w_bc w) p"

definition upd_entry :: "pool_id \<Rightarrow> nat \<Rightarrow> (bcache_entry \<Rightarrow> bcache_entry) \<Rightarrow> unit mofs" where
  "upd_entry p idx f = modify (\<lambda>w. w\<lparr>w_bc := (w_bc w)\<lparr>
     bc_pool := (bc_pool (w_bc w))(p := (pool_at p w)[idx := f (pool_at p w ! idx)])\<rparr>\<rparr>)"

definition bcache_lock :: "unit mofs" where
  "bcache_lock =
     bind (attempt (mofs_mutex_lock (\<lambda>w. bcache_mutex (w_bc w))
       (\<lambda>m w. w\<lparr>w_bc := (w_bc w)\<lparr>bcache_mutex := m\<rparr>\<rparr>))) (\<lambda>_. ret ())"

definition bcache_unlock :: "unit mofs" where
  "bcache_unlock =
     bind (attempt (mofs_mutex_unlock (\<lambda>w. bcache_mutex (w_bc w))
       (\<lambda>m w. w\<lparr>w_bc := (w_bc w)\<lparr>bcache_mutex := m\<rparr>\<rparr>))) (\<lambda>_. ret ())"

definition pool_touch :: "pool_id \<Rightarrow> nat \<Rightarrow> unit mofs" where
  "pool_touch p idx = modify (\<lambda>w.
     let tick = bc_tick (w_bc w) p + 1
     in w\<lparr>w_os := (w_os w)\<lparr>os_touches := Suc (os_touches (w_os w))\<rparr>,
          w_bc := (w_bc w)\<lparr>
            bc_tick := (bc_tick (w_bc w))(p := tick),
            bc_pool := (bc_pool (w_bc w))(p :=
              (pool_at p w)[idx := (pool_at p w ! idx)\<lparr>e_lru_tick := tick\<rparr>])\<rparr>\<rparr>)"

definition holds_block :: "u32 \<Rightarrow> bcache_entry \<Rightarrow> bool" where
  "holds_block b e = (e_valid e \<and> e_blk_num e = b)"

definition pool_find :: "pool_id \<Rightarrow> u32 \<Rightarrow> nat option mofs" where
  "pool_find p blk_num = gets (\<lambda>w. first_idx (holds_block blk_num) (pool_at p w))"

definition pool_flush_entry :: "pool_id \<Rightarrow> nat \<Rightarrow> unit mofs" where
  "pool_flush_entry p idx =
     bind (gets dev_fd) (\<lambda>fd.
     bind (gets (\<lambda>w. pool_at p w ! idx)) (\<lambda>e.
     bind (write_continuous_blocks_raw fd (e_data e) 1 (e_blk_num e)) (\<lambda>(written_blk_num, fraction).
     if written_blk_num \<noteq> 1 \<or> fraction \<noteq> 0 then throw MOFS_EIO
     else upd_entry p idx (\<lambda>e. e\<lparr>e_dirty := False\<rparr>))))"

text \<open>The search for the least recently used slot, from slot \<open>i\<close> on.\<close>

fun lru_scan :: "nat \<Rightarrow> u64 \<Rightarrow> nat option \<Rightarrow> bcache_entry list \<Rightarrow> nat option" where
  "lru_scan i best idx [] = idx"
| "lru_scan i best idx (e # es) =
     (if e_lru_tick e < best then lru_scan (Suc i) (e_lru_tick e) (Some i) es
      else lru_scan (Suc i) best idx es)"

definition victim_idx :: "bcache_entry list \<Rightarrow> nat option" where
  "victim_idx pool = (case first_idx (\<lambda>e. \<not> e_valid e) pool of
     Some i \<Rightarrow> Some i | None \<Rightarrow> lru_scan 0 (- 1) None pool)"

definition pool_get_victim :: "pool_id \<Rightarrow> nat mofs" where
  "pool_get_victim p =
     bind (gets (pool_at p)) (\<lambda>pool. case victim_idx pool of
         None \<Rightarrow> throw MOFS_EIO
       | Some idx \<Rightarrow>
           bind (if e_valid (pool ! idx) \<and> e_dirty (pool ! idx) then pool_flush_entry p idx
                 else ret ()) (\<lambda>_.
           bind (upd_entry p idx (\<lambda>e. e\<lparr>e_valid := False, e_dirty := False\<rparr>)) (\<lambda>_.
           ret idx)))"

fun pool_free_first :: "pool_id \<Rightarrow> nat \<Rightarrow> nat \<Rightarrow> unit mofs" where
  "pool_free_first p 0 j = ret ()"
| "pool_free_first p (Suc n) j =
     bind mofs_free (\<lambda>_.
     bind (upd_entry p j (\<lambda>e. e\<lparr>e_data := []\<rparr>)) (\<lambda>_.
     pool_free_first p n (Suc j)))"

fun pool_alloc_loop :: "pool_id \<Rightarrow> nat \<Rightarrow> nat \<Rightarrow> nat \<Rightarrow> unit mofs" where
  "pool_alloc_loop p blk_sz 0 i = ret ()"
| "pool_alloc_loop p blk_sz (Suc n) i =
     bind (mofs_malloc blk_sz) (\<lambda>data. case data of
         None \<Rightarrow>
           bind get_errno (\<lambda>err.
           bind (pool_free_first p i 0) (\<lambda>_.
           case err of Some e \<Rightarrow> throw e | None \<Rightarrow> ret ()))
       | Some d \<Rightarrow>
           bind (upd_entry p i (\<lambda>_. \<lparr>e_valid = False, e_dirty = False, e_blk_num = 0,
                                      e_lru_tick = 0, e_data = d\<rparr>)) (\<lambda>_.
           pool_alloc_loop p blk_sz n (Suc i)))"

definition pool_alloc :: "pool_id \<Rightarrow> nat \<Rightarrow> unit mofs" where
  "pool_alloc p blk_sz =
     bind (modify (\<lambda>w. w\<lparr>w_bc := (w_bc w)\<lparr>bc_pool := (bc_pool (w_bc w))(p :=
       map (\<lambda>_. \<lparr>e_valid = False, e_dirty = False, e_blk_num = 0, e_lru_tick = 0, e_data = []\<rparr>)
         (pool_at p w))\<rparr>\<rparr>)) (\<lambda>_.
     bind (gets (\<lambda>w. length (pool_at p w))) (\<lambda>n.
     pool_alloc_loop p blk_sz n 0))"

fun pool_free_loop :: "pool_id \<Rightarrow> nat \<Rightarrow> nat \<Rightarrow> unit mofs" where
  "pool_free_loop p 0 i = ret ()"
| "pool_free_loop p (Suc n) i =
     bind (gets (\<lambda>w. e_data (pool_at p w ! i))) (\<lambda>d.
     bind (if d \<noteq> [] then bind mofs_free (\<lambda>_. upd_entry p i (\<lambda>e. e\<lparr>e_data := []\<rparr>)) else ret ()) (\<lambda>_.
     bind (upd_entry p i (\<lambda>e. e\<lparr>e_valid := False, e_dirty := False\<rparr>)) (\<lambda>_.
     pool_free_loop p n (Suc i))))"

definition pool_free :: "pool_id \<Rightarrow> unit mofs" where
  "pool_free p = bind (gets (\<lambda>w. length (pool_at p w))) (\<lambda>n. pool_free_loop p n 0)"

fun pool_flush_loop :: "pool_id \<Rightarrow> nat \<Rightarrow> nat \<Rightarrow> unit mofs" where
  "pool_flush_loop p 0 i = ret ()"
| "pool_flush_loop p (Suc n) i =
     bind (gets (\<lambda>w. pool_at p w ! i)) (\<lambda>e.
     bind (if e_valid e \<and> e_dirty e then pool_flush_entry p i else ret ()) (\<lambda>_.
     pool_flush_loop p n (Suc i)))"

definition pool_flush_all :: "pool_id \<Rightarrow> unit mofs" where
  "pool_flush_all p = bind (gets (\<lambda>w. length (pool_at p w))) (\<lambda>n. pool_flush_loop p n 0)"

text \<open>Raw read of a block into the storage of a slot; the slot keeps what was transferred.\<close>

definition slot_read :: "pool_id \<Rightarrow> nat \<Rightarrow> u32 \<Rightarrow> (u32 \<times> u32) mofs" where
  "slot_read p idx blk_num =
     bind (gets dev_fd) (\<lambda>fd.
     bind (gets (\<lambda>w. e_data (pool_at p w ! idx))) (\<lambda>d0.
     bind (read_continuous_blocks_raw fd d0 1 blk_num) (\<lambda>(d, read_one, frac).
     bind (upd_entry p idx (\<lambda>e. e\<lparr>e_data := d\<rparr>)) (\<lambda>_.
     ret (read_one, frac)))))"

definition pool_load_block :: "pool_id \<Rightarrow> u32 \<Rightarrow> nat mofs" where
  "pool_load_block p blk_num =
     bind (pool_get_victim p) (\<lambda>idx.
     bind (slot_read p idx blk_num) (\<lambda>(read_one, frac).
     if read_one \<noteq> 1 \<or> frac \<noteq> 0 then throw MOFS_EIO
     else bind (upd_entry p idx (\<lambda>e. e\<lparr>e_blk_num := blk_num, e_valid := True, e_dirty := False\<rparr>)) (\<lambda>_.
          ret idx)))"

text \<open>Block \<open>start_blk_num + i\<close> of a request.\<close>

definition nth_blk :: "u32 \<Rightarrow> nat \<Rightarrow> u32" where
  "nth_blk start_blk_num i = start_blk_num + word_of_nat i"

text \<open>One iteration of the read loop: the bytes copied to the caller's buffer and the size of a
  short read at the end of the device, 0 for a whole block.\<close>

definition cached_read_one :: "pool_sel \<Rightarrow> nat \<Rightarrow> u32 \<Rightarrow> (byte list \<times> u32) mofs" where
  "cached_read_one sel blk_bytes blk =
     bind (gets (\<lambda>w. sel (sp_blk w) blk)) (\<lambda>p.
     bind (pool_find p blk) (\<lambda>found. case found of
         Some idx \<Rightarrow>
           bind (gets (\<lambda>w. e_data (pool_at p w ! idx))) (\<lambda>d.
           bind (pool_touch p idx) (\<lambda>_.
           ret (take blk_bytes d, 0)))
       | None \<Rightarrow>
           bind (pool_get_victim p) (\<lambda>idx.
           bind (slot_read p idx blk) (\<lambda>(read_one, frac).
           bind (gets (\<lambda>w. e_data (pool_at p w ! idx))) (\<lambda>d.
           if frac \<noteq> 0 then ret (take (unat frac) d, frac)
           else if read_one \<noteq> 1 then throw MOFS_EIO
           else
             bind (upd_entry p idx (\<lambda>e. e\<lparr>e_blk_num := blk, e_valid := True, e_dirty := False\<rparr>)) (\<lambda>_.
             bind (pool_touch p idx) (\<lambda>_.
             ret (take blk_bytes d, 0))))))))"

fun cached_read_loop ::
  "pool_sel \<Rightarrow> nat \<Rightarrow> nat \<Rightarrow> nat \<Rightarrow> u32 \<Rightarrow> byte list \<Rightarrow> (byte list \<times> u32 \<times> u32) mofs" where
  "cached_read_loop sel blk_bytes 0 i start_blk_num buf = ret (buf, word_of_nat i, 0)"
| "cached_read_loop sel blk_bytes (Suc n) i start_blk_num buf =
     bind (cached_read_one sel blk_bytes (nth_blk start_blk_num i)) (\<lambda>(bs, frac).
     if frac \<noteq> 0 then ret (overwrite (i * blk_bytes) bs buf, word_of_nat i, frac)
     else cached_read_loop sel blk_bytes n (Suc i) start_blk_num (overwrite (i * blk_bytes) bs buf))"

definition cached_read_blocks ::
  "pool_sel \<Rightarrow> int \<Rightarrow> byte list \<Rightarrow> u32 \<Rightarrow> u32 \<Rightarrow> (byte list \<times> u32 \<times> u32) mofs" where
  "cached_read_blocks sel fd buf req_blk_num start_blk_num =
     bind (throw_if (fd < 0) MOFS_EINVAL) (\<lambda>_.
     bind mofs_io_blk_sz (\<lambda>blk_bytes.
     bind (throw_if (blk_bytes = 0) MOFS_EINVAL) (\<lambda>_.
     bind (gets (\<lambda>w. bcache_ready (w_bc w))) (\<lambda>rdy.
     if \<not> rdy then read_continuous_blocks_raw fd buf req_blk_num start_blk_num
     else
       bind bcache_lock (\<lambda>_.
       ensuring (cached_read_loop sel (unat blk_bytes) (unat req_blk_num) 0 start_blk_num buf)
         bcache_unlock)))))"

definition cached_write_one :: "pool_sel \<Rightarrow> u32 \<Rightarrow> byte list \<Rightarrow> unit mofs" where
  "cached_write_one sel blk src =
     bind (gets (\<lambda>w. sel (sp_blk w) blk)) (\<lambda>p.
     bind (pool_find p blk) (\<lambda>found.
     bind (case found of
         Some idx \<Rightarrow> ret idx
       | None \<Rightarrow>
           bind (pool_get_victim p) (\<lambda>idx.
           bind (upd_entry p idx (\<lambda>e. e\<lparr>e_blk_num := blk, e_valid := True\<rparr>)) (\<lambda>_. ret idx))) (\<lambda>idx.
     bind (upd_entry p idx (\<lambda>e. e\<lparr>e_data := overwrite 0 src (e_data e), e_dirty := True\<rparr>)) (\<lambda>_.
     pool_touch p idx))))"

fun cached_write_loop ::
  "pool_sel \<Rightarrow> nat \<Rightarrow> nat \<Rightarrow> nat \<Rightarrow> u32 \<Rightarrow> byte list \<Rightarrow> (u32 \<times> u32) mofs" where
  "cached_write_loop sel blk_bytes 0 i start_blk_num buf = ret (word_of_nat i, 0)"
| "cached_write_loop sel blk_bytes (Suc n) i start_blk_num buf =
     bind (cached_write_one sel (nth_blk start_blk_num i) (chunk (i * blk_bytes) blk_bytes buf)) (\<lambda>_.
     cached_write_loop sel blk_bytes n (Suc i) start_blk_num buf)"

definition cached_write_blocks ::
  "pool_sel \<Rightarrow> int \<Rightarrow> byte list \<Rightarrow> u32 \<Rightarrow> u32 \<Rightarrow> (u32 \<times> u32) mofs" where
  "cached_write_blocks sel fd buf req_blk_num start_blk_num =
     bind (throw_if (fd < 0) MOFS_EINVAL) (\<lambda>_.
     bind mofs_io_blk_sz (\<lambda>blk_bytes.
     bind (throw_if (blk_bytes = 0) MOFS_EINVAL) (\<lambda>_.
     bind (gets (\<lambda>w. bcache_ready (w_bc w))) (\<lambda>rdy.
     if \<not> rdy then write_continuous_blocks_raw fd buf req_blk_num start_blk_num
     else
       bind bcache_lock (\<lambda>_.
       ensuring (cached_write_loop sel (unat blk_bytes) (unat req_blk_num) 0 start_blk_num buf)
         bcache_unlock)))))"

definition cached_modify_block :: "pool_sel \<Rightarrow> u32 \<Rightarrow> u32 \<Rightarrow> byte list \<Rightarrow> unit mofs" where
  "cached_modify_block sel blk_num byte_off patch =
     (let patch_len = word_of_nat (length patch) :: u32 in
      bind mofs_io_blk_sz (\<lambda>blk_bytes.
      bind (throw_if (patch_len = 0 \<or> blk_bytes = 0) MOFS_EINVAL) (\<lambda>_.
      bind (gets (\<lambda>w. bcache_ready (w_bc w))) (\<lambda>rdy.
      bind (throw_if (\<not> rdy) MOFS_EINVAL) (\<lambda>_.
      bind (throw_if (blk_bytes < byte_off \<or> blk_bytes < patch_len \<or> blk_bytes < byte_off + patch_len)
              MOFS_EINVAL) (\<lambda>_.
      bind (gets (\<lambda>w. sel (sp_blk w) blk_num)) (\<lambda>p.
      bind bcache_lock (\<lambda>_.
      ensuring
        (bind (pool_find p blk_num) (\<lambda>found.
         bind (case found of Some idx \<Rightarrow> ret idx | None \<Rightarrow> pool_load_block p blk_num) (\<lambda>idx.
         bind (upd_entry p idx (\<lambda>e. e\<lparr>e_data := overwrite (unat byte_off) patch (e_data e),
                                      e_dirty := True\<rparr>)) (\<lambda>_.
         pool_touch p idx))))
        bcache_unlock))))))))"

fun flush_pools :: "pool_id list \<Rightarrow> unit mofs" where
  "flush_pools [] = ret ()"
| "flush_pools (p # ps) = bind (pool_flush_all p) (\<lambda>_. flush_pools ps)"

definition cached_flush :: "pool_id list \<Rightarrow> unit mofs" where
  "cached_flush ps =
     bind (gets (\<lambda>w. bcache_ready (w_bc w))) (\<lambda>rdy.
     if \<not> rdy then ret ()
     else
       bind bcache_lock (\<lambda>_.
       ensuring
         (bind (flush_pools ps) (\<lambda>_.
          bind (gets dev_fd) dev_fsync))
         bcache_unlock))"

definition cached_invalidate :: "pool_id \<Rightarrow> u32 \<Rightarrow> unit mofs" where
  "cached_invalidate p blk_num =
     bind (gets (\<lambda>w. bcache_ready (w_bc w))) (\<lambda>rdy.
     if \<not> rdy then ret ()
     else
       bind bcache_lock (\<lambda>_.
       ensuring
         (bind (pool_find p blk_num) (\<lambda>found. case found of
             None \<Rightarrow> ret ()
           | Some idx \<Rightarrow> upd_entry p idx (\<lambda>e. e\<lparr>e_valid := False, e_dirty := False\<rparr>)))
         bcache_unlock))"

section \<open>The unified cache\<close>

definition unified_sel :: pool_sel where
  "unified_sel sb b = Unified_Pool"

definition unified_init :: "unit mofs" where
  "unified_init =
     bind mofs_io_blk_sz (\<lambda>blk_sz.
     bind (throw_if (blk_sz = 0) MOFS_EINVAL) (\<lambda>_.
     bind (gets (\<lambda>w. bcache_mutex (w_bc w))) (\<lambda>m.
     bind (if m = None then mofs_mutex_init (\<lambda>m w. w\<lparr>w_bc := (w_bc w)\<lparr>bcache_mutex := m\<rparr>\<rparr>) else ret ()) (\<lambda>_.
     bind bcache_lock (\<lambda>_.
     ensuring
       (bind (gets (\<lambda>w. bcache_ready (w_bc w))) (\<lambda>rdy.
        if rdy then ret ()
        else
          bind (pool_alloc Unified_Pool (unat blk_sz)) (\<lambda>_.
          modify (\<lambda>w. w\<lparr>w_bc := (w_bc w)\<lparr>bc_tick := (bc_tick (w_bc w))(Unified_Pool := 0),
                                           bcache_ready := True\<rparr>\<rparr>))))
       bcache_unlock)))))"

definition cached_fini :: "pool_id list \<Rightarrow> unit mofs" where
  "cached_fini ps =
     bind (gets (\<lambda>w. bcache_mutex (w_bc w))) (\<lambda>m.
     if m = None then ret ()
     else
       bind bcache_lock (\<lambda>_.
       bind (fold (\<lambda>p m. bind m (\<lambda>_. pool_free p)) ps (ret ())) (\<lambda>_.
       bind (modify (\<lambda>w. w\<lparr>w_bc := (w_bc w)\<lparr>bcache_ready := False\<rparr>\<rparr>)) (\<lambda>_.
       bind bcache_unlock (\<lambda>_.
       bind (mofs_mutex_fini m) (\<lambda>_.
       modify (\<lambda>w. w\<lparr>w_bc := (w_bc w)\<lparr>bcache_mutex := None\<rparr>\<rparr>)))))))"

definition unified_fini :: "unit mofs" where
  "unified_fini = cached_fini [Unified_Pool]"

definition unified_read_blocks :: "int \<Rightarrow> byte list \<Rightarrow> u32 \<Rightarrow> u32 \<Rightarrow> (byte list \<times> u32 \<times> u32) mofs" where
  "unified_read_blocks = cached_read_blocks unified_sel"

definition unified_write_blocks :: "int \<Rightarrow> byte list \<Rightarrow> u32 \<Rightarrow> u32 \<Rightarrow> (u32 \<times> u32) mofs" where
  "unified_write_blocks = cached_write_blocks unified_sel"

definition unified_modify_block :: "u32 \<Rightarrow> u32 \<Rightarrow> byte list \<Rightarrow> unit mofs" where
  "unified_modify_block = cached_modify_block unified_sel"

definition unified_flush :: "unit mofs" where
  "unified_flush = cached_flush [Unified_Pool]"

definition unified_invalidate :: "u32 \<Rightarrow> unit mofs" where
  "unified_invalidate = cached_invalidate Unified_Pool"

end
