(* ===== verification/Mofs_Buffer_Inv.thy ===== *)
theory Mofs_Buffer_Inv
  imports Mofs_Buffer
begin

text \<open>
  The invariant of the cache, the view of a block, and the effect of the pool routines on both.
  The state changes of the cache are two: a slot is replaced (\<open>put_slot\<close>), or the device is
  written in the block of a dirty slot. One lemma for each shows when the invariant and the
  views survive; the routines are sequences of these changes.
\<close>

section \<open>Invariant and view\<close>

definition entry_ok :: "pool_sel \<Rightarrow> world \<Rightarrow> pool_id \<Rightarrow> bcache_entry \<Rightarrow> bool" where
  "entry_ok sel w p e = (
     length (e_data e) = blksz w \<and> unat (e_lru_tick e) \<le> os_touches (w_os w) \<and>
     (e_valid e \<longrightarrow> sel (sp_blk w) (e_blk_num e) = p \<and> fits w (e_blk_num e) \<and>
        (e_dirty e \<or> e_data e = dev_block w (e_blk_num e))))"

definition cached_blocks :: "bcache_entry list \<Rightarrow> u32 list" where
  "cached_blocks pool = map e_blk_num (filter e_valid pool)"

definition pool_ok :: "pool_sel \<Rightarrow> world \<Rightarrow> pool_id \<Rightarrow> bool" where
  "pool_ok sel w p = (
     pool_at p w \<noteq> [] \<and> list_all (entry_ok sel w p) (pool_at p w) \<and>
     distinct (cached_blocks (pool_at p w)) \<and> unat (bc_tick (w_bc w) p) \<le> os_touches (w_os w))"

text \<open>\<open>ps\<close> are the pools of the build.\<close>

definition c_core :: "pool_sel \<Rightarrow> pool_id list \<Rightarrow> world \<Rightarrow> bool" where
  "c_core sel ps w = (io_ready w \<and> list_all (pool_ok sel w) ps)"

definition c_inv :: "pool_sel \<Rightarrow> pool_id list \<Rightarrow> world \<Rightarrow> bool" where
  "c_inv sel ps w = (io_ready w \<and> bcache_mutex (w_bc w) \<noteq> Some True \<and>
     (bcache_ready (w_bc w) \<longrightarrow> list_all (pool_ok sel w) ps))"

definition slot_view :: "pool_sel \<Rightarrow> world \<Rightarrow> u32 \<Rightarrow> byte list" where
  "slot_view sel w b =
     (let pool = pool_at (sel (sp_blk w) b) w
      in case first_idx (holds_block b) pool of
           None \<Rightarrow> dev_block w b | Some i \<Rightarrow> e_data (pool ! i))"

definition c_view :: "pool_sel \<Rightarrow> world \<Rightarrow> u32 \<Rightarrow> byte list" where
  "c_view sel w b = (if bcache_ready (w_bc w) then slot_view sel w b else dev_block w b)"

lemma distinct_cached:
  assumes "distinct (cached_blocks pool)" and "i < length pool" and "j < length pool"
    and "e_valid (pool ! i)" and "e_valid (pool ! j)" and "e_blk_num (pool ! i) = e_blk_num (pool ! j)"
  shows "i = j"
  using assms
proof (induction pool arbitrary: i j)
  case (Cons e pool)
  have mem: "e_blk_num (pool ! k) \<in> set (cached_blocks pool)" if "k < length pool" "e_valid (pool ! k)" for k
    using that by (auto simp: cached_blocks_def)
  have "distinct (cached_blocks pool)" and notin: "e_valid e \<Longrightarrow> e_blk_num e \<notin> set (cached_blocks pool)"
    using Cons.prems(1) by (auto simp: cached_blocks_def split: if_splits)
  then show ?case
    using Cons.prems(2-) Cons.IH mem
    by (cases i; cases j) (auto, metis+)
qed simp

lemma distinct_cachedI:
  assumes "\<And>i j. i < length pool \<Longrightarrow> j < length pool \<Longrightarrow> e_valid (pool ! i) \<Longrightarrow> e_valid (pool ! j) \<Longrightarrow>
      e_blk_num (pool ! i) = e_blk_num (pool ! j) \<Longrightarrow> i = j"
  shows "distinct (cached_blocks pool)"
  using assms
proof (induction pool)
  case (Cons e pool)
  have "distinct (cached_blocks pool)"
  proof (rule Cons.IH)
    fix i j
    assume "i < length pool" "j < length pool" "e_valid (pool ! i)" "e_valid (pool ! j)"
      "e_blk_num (pool ! i) = e_blk_num (pool ! j)"
    then show "i = j" using Cons.prems [of "Suc i" "Suc j"] by simp
  qed
  moreover have "e_blk_num e \<notin> set (cached_blocks pool)" if "e_valid e"
  proof
    assume "e_blk_num e \<in> set (cached_blocks pool)"
    then obtain k where "k < length pool" "e_valid (pool ! k)" "e_blk_num (pool ! k) = e_blk_num e"
      by (auto simp: cached_blocks_def in_set_conv_nth)
    then show False using Cons.prems [of 0 "Suc k"] that by simp
  qed
  ultimately show ?case by (simp add: cached_blocks_def)
qed (simp add: cached_blocks_def)

lemma c_core_pool: "c_core sel ps w \<Longrightarrow> p \<in> set ps \<Longrightarrow> pool_ok sel w p"
  by (simp add: c_core_def list_all_iff)

lemma pool_ok_entry: "pool_ok sel w p \<Longrightarrow> i < length (pool_at p w) \<Longrightarrow> entry_ok sel w p (pool_at p w ! i)"
  by (simp add: pool_ok_def list_all_length)

lemma slot_view_hit:
  assumes "pool_ok sel w p" and "i < length (pool_at p w)" and "holds_block b (pool_at p w ! i)"
  shows "slot_view sel w b = e_data (pool_at p w ! i)"
proof -
  have valid: "e_valid (pool_at p w ! i)" "e_blk_num (pool_at p w ! i) = b"
    using assms(3) by (simp_all add: holds_block_def)
  then have p: "sel (sp_blk w) b = p"
    using pool_ok_entry [OF assms(1,2)] by (simp add: entry_ok_def)
  obtain j where j: "first_idx (holds_block b) (pool_at p w) = Some j"
    using assms(2,3) by (cases "first_idx (holds_block b) (pool_at p w)") (auto simp: first_idx_None)
  then have "j = i"
    using assms distinct_cached [of "pool_at p w" j i] valid
    by (auto simp: first_idx_Some holds_block_def pool_ok_def)
  then show ?thesis using p j by (simp add: slot_view_def Let_def)
qed

lemma slot_view_miss:
  assumes "\<forall>e\<in>set (pool_at (sel (sp_blk w) b) w). \<not> holds_block b e"
  shows "slot_view sel w b = dev_block w b"
proof -
  have "first_idx (holds_block b) (pool_at (sel (sp_blk w) b) w) = None" using assms by (simp add: first_idx_None)
  then show ?thesis by (simp add: slot_view_def Let_def)
qed

text \<open>The cached content of a block has the size of a block.\<close>

lemma slot_view_length:
  assumes "c_core sel ps w" and "sel (sp_blk w) b \<in> set ps" and "fits w b"
  shows "length (slot_view sel w b) = blksz w"
proof (cases "first_idx (holds_block b) (pool_at (sel (sp_blk w) b) w)")
  case None
  then show ?thesis using assms(3) by (simp add: slot_view_def Let_def)
next
  case (Some i)
  then show ?thesis
    using pool_ok_entry [OF c_core_pool [OF assms(1,2)], of i]
    by (auto simp: slot_view_def Let_def entry_ok_def dest: first_idx_SomeD)
qed

section \<open>Replacing a slot\<close>

definition put_slot :: "pool_id \<Rightarrow> nat \<Rightarrow> bcache_entry \<Rightarrow> world \<Rightarrow> world" where
  "put_slot p idx e w = w\<lparr>w_bc := (w_bc w)\<lparr>
     bc_pool := (bc_pool (w_bc w))(p := (pool_at p w)[idx := e])\<rparr>\<rparr>"

lemma put_slot_simps [simp]:
  "w_ctx (put_slot p i e w) = w_ctx w" "w_dev (put_slot p i e w) = w_dev w"
  "w_os (put_slot p i e w) = w_os w" "w_mode (put_slot p i e w) = w_mode w"
  "bcache_ready (w_bc (put_slot p i e w)) = bcache_ready (w_bc w)"
  "bcache_mutex (w_bc (put_slot p i e w)) = bcache_mutex (w_bc w)"
  "bc_tick (w_bc (put_slot p i e w)) = bc_tick (w_bc w)"
  "pool_at q (put_slot p i e w) = (if q = p then (pool_at p w)[i := e] else pool_at q w)"
  by (simp_all add: put_slot_def)

lemma put_slot_twice [simp]: "put_slot p i e' (put_slot p i e w) = put_slot p i e' w"
  by (simp add: put_slot_def)

lemma put_slot_frame [simp]: "io_frame w (put_slot p i e w)"
  by (simp add: io_frame_def put_slot_def fd_ok_def)

lemma put_slot_blocks [simp]:
  "fits (put_slot p i e w) b = fits w b" "dev_block (put_slot p i e w) b = dev_block w b"
  "io_ready (put_slot p i e w) = io_ready w" "entry_ok sel (put_slot p i e w) q x = entry_ok sel w q x"
  by (simp_all add: fits_def dev_block_def io_ready_def fd_ok_def entry_ok_def)

lemma wp_upd_entry [wp_simps]:
  "wp (upd_entry p idx f) Q w = Q (Inr ()) (put_slot p idx (f (pool_at p w ! idx)) w)"
  by (simp add: upd_entry_def put_slot_def wp_simps)

text \<open>The new entry must be well-formed, and no other slot of the pool may hold its block.\<close>

lemma put_slot_core:
  assumes core: "c_core sel ps w" and p: "p \<in> set ps" and idx: "idx < length (pool_at p w)"
    and e: "entry_ok sel w p e"
    and alone: "\<And>j. j < length (pool_at p w) \<Longrightarrow> j \<noteq> idx \<Longrightarrow> e_valid e \<Longrightarrow>
      \<not> holds_block (e_blk_num e) (pool_at p w ! j)"
  shows "c_core sel ps (put_slot p idx e w)"
proof -
  have ok: "pool_ok sel w q" if "q \<in> set ps" for q using c_core_pool [OF core that] .
  let ?pool = "(pool_at p w)[idx := e]"
  have "distinct (cached_blocks ?pool)"
  proof (rule distinct_cachedI)
    fix i j
    assume ij: "i < length ?pool" "j < length ?pool" "e_valid (?pool ! i)" "e_valid (?pool ! j)"
      "e_blk_num (?pool ! i) = e_blk_num (?pool ! j)"
    show "i = j"
      using ij alone [of i] alone [of j] ok [OF p] distinct_cached [of "pool_at p w" i j]
      by (cases "i = idx"; cases "j = idx") (auto simp: holds_block_def pool_ok_def)
  qed
  moreover have "list_all (entry_ok sel w p) ?pool"
    using ok [OF p] e idx by (auto simp: pool_ok_def list_all_length nth_list_update)
  ultimately have "pool_ok sel (put_slot p idx e w) q" if "q \<in> set ps" for q
    using ok [OF that] by (auto simp: pool_ok_def list_all_iff)
  then show ?thesis using core by (simp add: c_core_def list_all_iff)
qed

text \<open>The views afterwards: the block of the new entry, the block the slot held before, and the
  others.\<close>

lemma put_slot_view:
  assumes core: "c_core sel ps w" and p: "p \<in> set ps" and idx: "idx < length (pool_at p w)"
    and core': "c_core sel ps (put_slot p idx e w)" and sel: "sel (sp_blk w) b \<in> set ps"
  shows "slot_view sel (put_slot p idx e w) b =
    (if holds_block b e then e_data e
     else if holds_block b (pool_at p w ! idx) then dev_block w b
     else slot_view sel w b)"
proof -
  let ?w = "put_slot p idx e w" and ?q = "sel (sp_blk w) b"
  note ok = c_core_pool [OF core] and ok' = c_core_pool [OF core']
  consider (new) "holds_block b e" | (old) "\<not> holds_block b e" "holds_block b (pool_at p w ! idx)"
    | (other) "\<not> holds_block b e" "\<not> holds_block b (pool_at p w ! idx)" by blast
  then show ?thesis
  proof cases
    case new
    then show ?thesis using slot_view_hit [OF ok' [OF p], of idx b] idx by simp
  next
    case old
    have q: "?q = p" using pool_ok_entry [OF ok [OF p] idx] old(2) by (simp add: entry_ok_def holds_block_def)
    have "\<not> holds_block b (pool_at p w ! j)" if "j < length (pool_at p w)" "j \<noteq> idx" for j
      using that old(2) idx distinct_cached [of "pool_at p w" j idx] ok [OF p]
      by (auto simp: holds_block_def pool_ok_def)
    then have "\<forall>x\<in>set (pool_at ?q ?w). \<not> holds_block b x"
      using old(1) q idx by (auto simp: in_set_conv_nth nth_list_update split: if_splits)
    then show ?thesis using old slot_view_miss [where w = ?w and b = b] by simp
  next
    case other
    show ?thesis
    proof (cases "\<exists>i<length (pool_at ?q w). holds_block b (pool_at ?q w ! i)")
      case True
      then obtain i where i: "i < length (pool_at ?q w)" "holds_block b (pool_at ?q w ! i)" by blast
      then have "pool_at ?q ?w ! i = pool_at ?q w ! i"
        using other(2) idx by (auto simp: nth_list_update)
      then show ?thesis
        using slot_view_hit [OF ok [OF sel] i] slot_view_hit [OF ok' [OF sel], of i b] i other
        by (cases "?q = p") auto
    next
      case False
      then have "\<forall>x\<in>set (pool_at ?q ?w). \<not> holds_block b x" "\<forall>x\<in>set (pool_at ?q w). \<not> holds_block b x"
        using other(1) idx by (auto simp: in_set_conv_nth nth_list_update split: if_splits)
      then show ?thesis
        using slot_view_miss [where w = ?w and b = b] slot_view_miss [where w = w and b = b] other by simp
    qed
  qed
qed

section \<open>Writing a dirty slot to the device\<close>

lemma dev_write_core:
  assumes core: "c_core sel ps w" and p: "p \<in> set ps" and idx: "idx < length (pool_at p w)"
    and dirty: "holds_block b (pool_at p w ! idx)" "e_dirty (pool_at p w ! idx)"
    and frame: "io_frame w w'" and bc: "same_caches w w'" and t: "t \<le> blksz w"
    and data: "dv_data (w_dev w') = write_at (unat b * blksz w) (take t d) (dv_data (w_dev w))"
  shows "c_core sel ps w'" and "fits w c \<Longrightarrow> slot_view sel w' c = slot_view sel w c"
proof -
  have ctx: "w_ctx w' = w_ctx w" using frame by (rule io_frame_ctx)
  have pools: "w_bc w' = w_bc w" using bc by (simp add: same_caches_def)
  have touches: "os_touches (w_os w) \<le> os_touches (w_os w')" using frame by (simp add: io_frame_def os_frame_def)
  have other: "dev_block w' c = dev_block w c" if "fits w c" "c \<noteq> b" for c
    using dev_block_write_other [OF that _ frame data] t by simp
  have entry: "entry_ok sel w' q (pool_at q w ! i)" if q: "q \<in> set ps" and i: "i < length (pool_at q w)" for q i
  proof -
    let ?e = "pool_at q w ! i"
    have ok: "entry_ok sel w q ?e" using pool_ok_entry [OF c_core_pool [OF core q] i] .
    have "e_dirty ?e" if "e_valid ?e" "e_blk_num ?e = b"
    proof -
      have "q = p"
        using ok that pool_ok_entry [OF c_core_pool [OF core p] idx] dirty(1)
        by (auto simp: entry_ok_def holds_block_def)
      then have "i = idx"
        using that dirty(1) i idx c_core_pool [OF core p] distinct_cached [of "pool_at p w" i idx]
        by (auto simp: holds_block_def pool_ok_def)
      then show ?thesis using \<open>q = p\<close> dirty(2) by simp
    qed
    then show ?thesis using ok other [of "e_blk_num ?e"] fits_frame [OF frame] touches
      by (cases "e_blk_num ?e = b") (auto simp: entry_ok_def ctx)
  qed
  then have "pool_ok sel w' q" if "q \<in> set ps" for q
    using c_core_pool [OF core that] that touches by (auto simp: pool_ok_def list_all_length pools)
  then show "c_core sel ps w'"
    using core io_ready_frame [OF frame] by (simp add: c_core_def list_all_iff)
  show "slot_view sel w' c = slot_view sel w c" if "fits w c"
  proof (cases "first_idx (holds_block c) (pool_at (sel (sp_blk w) c) w)")
    case None
    have "c \<noteq> b"
    proof
      assume "c = b"
      then have "sel (sp_blk w) c = p"
        using pool_ok_entry [OF c_core_pool [OF core p] idx] dirty(1)
        by (auto simp: entry_ok_def holds_block_def)
      then show False using None dirty(1) idx \<open>c = b\<close> by (auto simp: first_idx_None)
    qed
    then show ?thesis using None other [OF that] by (simp add: slot_view_def ctx pools)
  next
    case (Some i)
    then show ?thesis by (simp add: slot_view_def ctx pools)
  qed
qed

section \<open>Touching a slot\<close>

definition touched :: "pool_id \<Rightarrow> nat \<Rightarrow> world \<Rightarrow> world" where
  "touched p idx w =
     put_slot p idx ((pool_at p w ! idx)\<lparr>e_lru_tick := bc_tick (w_bc w) p + 1\<rparr>)
       (w\<lparr>w_bc := (w_bc w)\<lparr>bc_tick := (bc_tick (w_bc w))(p := bc_tick (w_bc w) p + 1)\<rparr>,
          w_os := (w_os w)\<lparr>os_touches := Suc (os_touches (w_os w))\<rparr>\<rparr>)"

lemma wp_pool_touch [wp_simps]: "wp (pool_touch p idx) Q w = Q (Inr ()) (touched p idx w)"
  by (simp add: pool_touch_def touched_def put_slot_def wp_simps Let_def)

lemma unat_plus_one_le: "unat ((t :: u64) + 1) \<le> Suc (unat t)"
  by (simp add: unat_word_ariths)

lemma touched_frame [simp]: "io_frame w (touched p idx w)"
  by (simp add: io_frame_def os_frame_def touched_def fd_ok_def put_slot_def)

lemma touched_ready [simp]:
  "w_dev (touched p idx w) = w_dev w"
  "bcache_ready (w_bc (touched p idx w)) = bcache_ready (w_bc w)"
  "bcache_mutex (w_bc (touched p idx w)) = bcache_mutex (w_bc w)"
  by (simp_all add: touched_def)

lemma touched_core:
  assumes core: "c_core sel ps w" and p: "p \<in> set ps" and idx: "idx < length (pool_at p w)"
  shows "c_core sel ps (touched p idx w)"
    and "sel (sp_blk w) b \<in> set ps \<Longrightarrow> slot_view sel (touched p idx w) b = slot_view sel w b"
proof -
  let ?w = "w\<lparr>w_bc := (w_bc w)\<lparr>bc_tick := (bc_tick (w_bc w))(p := bc_tick (w_bc w) p + 1)\<rparr>,
          w_os := (w_os w)\<lparr>os_touches := Suc (os_touches (w_os w))\<rparr>\<rparr>"
  let ?e = "(pool_at p w ! idx)\<lparr>e_lru_tick := bc_tick (w_bc w) p + 1\<rparr>"
  have same: "fits ?w c = fits w c" "dev_block ?w c = dev_block w c" "io_ready ?w = io_ready w" for c
    by (simp_all add: fits_def dev_block_def io_ready_def fd_ok_def)
  have entry: "entry_ok sel w q x \<Longrightarrow> entry_ok sel ?w q x" for q x
    by (auto simp: entry_ok_def same)
  have "pool_ok sel ?w q" if "q \<in> set ps" for q
    using c_core_pool [OF core that] entry unat_plus_one_le [of "bc_tick (w_bc w) p"]
    by (auto simp: pool_ok_def list_all_iff)
  then have core1: "c_core sel ps ?w" using core by (simp add: c_core_def list_all_iff same)
  have tick: "unat (bc_tick (w_bc w) p) \<le> os_touches (w_os w)"
    using c_core_pool [OF core p] by (simp add: pool_ok_def)
  have e: "entry_ok sel ?w p ?e"
    using pool_ok_entry [OF c_core_pool [OF core p] idx] unat_plus_one_le [of "bc_tick (w_bc w) p"] tick
    by (auto simp: entry_ok_def same)
  have alone: "\<not> holds_block (e_blk_num ?e) (pool_at p ?w ! j)"
    if "j < length (pool_at p ?w)" "j \<noteq> idx" "e_valid ?e" for j
    using that idx distinct_cached [of "pool_at p w" j idx] c_core_pool [OF core p]
    by (auto simp: holds_block_def pool_ok_def)
  have idx': "idx < length (pool_at p ?w)" using idx by simp
  show core': "c_core sel ps (touched p idx w)"
    unfolding touched_def using put_slot_core [OF core1 p idx' e alone] by simp
  show "slot_view sel (touched p idx w) b = slot_view sel w b" if "sel (sp_blk w) b \<in> set ps"
  proof -
    have "slot_view sel (touched p idx w) b =
      (if holds_block b ?e then e_data ?e
       else if holds_block b (pool_at p w ! idx) then dev_block ?w b else slot_view sel ?w b)"
      unfolding touched_def
      using put_slot_view [OF core1 p idx' core' [unfolded touched_def], where b = b] that by simp
    moreover have "slot_view sel ?w b = slot_view sel w b" by (simp add: slot_view_def same Let_def split: option.split)
    ultimately show ?thesis
      using slot_view_hit [OF c_core_pool [OF core p] idx, of b] by (auto simp: holds_block_def)
  qed
qed

section \<open>The pool routines\<close>

text \<open>Every block has its pool among those of the build.\<close>

definition sel_in :: "pool_sel \<Rightarrow> pool_id list \<Rightarrow> bool" where
  "sel_in sel ps = (\<forall>sb b. sel sb b \<in> set ps)"

definition same_views :: "pool_sel \<Rightarrow> world \<Rightarrow> world \<Rightarrow> bool" where
  "same_views sel w w' = (length (dv_data (w_dev w')) = length (dv_data (w_dev w)) \<and>
     (\<forall>b. fits w b \<longrightarrow> slot_view sel w' b = slot_view sel w b))"

lemma same_views_refl [simp]: "same_views sel w w"
  by (simp add: same_views_def)

lemma same_views_trans:
  "same_views sel a b \<Longrightarrow> same_views sel b c \<Longrightarrow> io_frame a b \<Longrightarrow> same_views sel a c"
  by (auto simp: same_views_def dest: fits_frame)

text \<open>Flushing a dirty slot never changes a view, and a failure leaves the pools as they are.\<close>

lemma wp_pool_flush_entry:
  assumes core: "c_core sel ps w" and sel: "sel_in sel ps" and p: "p \<in> set ps"
    and idx: "idx < length (pool_at p w)"
    and dirty: "e_valid (pool_at p w ! idx)" "e_dirty (pool_at p w ! idx)"
  shows "wp (pool_flush_entry p idx) (\<lambda>r w'.
      c_core sel ps w' \<and> io_frame w w' \<and> same_views sel w w' \<and>
      (case r of Inl _ \<Rightarrow> w_bc w' = w_bc w \<and> \<not> os_ok w
       | Inr _ \<Rightarrow> w_bc w' = w_bc (put_slot p idx ((pool_at p w ! idx)\<lparr>e_dirty := False\<rparr>) w) \<and>
           dev_block w' (e_blk_num (pool_at p w ! idx)) = e_data (pool_at p w ! idx))) w"
proof -
  let ?e = "pool_at p w ! idx"
  let ?b = "e_blk_num ?e"
  have ok: "entry_ok sel w p ?e" using pool_ok_entry [OF c_core_pool [OF core p] idx] .
  have holds: "holds_block ?b ?e" using dirty by (simp add: holds_block_def)
  have rdy: "io_ready w" using core by (simp add: c_core_def)
  have len: "length (e_data ?e) = blksz w" and fit: "fits w ?b"
    using ok dirty by (simp_all add: entry_ok_def)
  have step: "wp (write_continuous_blocks_raw (dev_fd w) (e_data ?e) 1 ?b) (\<lambda>r w'.
      c_core sel ps w' \<and> io_frame w w' \<and> same_views sel w w' \<and> w_bc w' = w_bc w \<and>
      (r = Inr (1, 0) \<longrightarrow> dev_block w' ?b = e_data ?e) \<and> (os_ok w \<longrightarrow> r = Inr (1, 0))) w"
  proof (rule wp_mono [OF wp_write_raw_1 [OF rdy len, of ?b]], goal_cases)
    case (1 r w')
    then obtain t where t: "t \<le> blksz w"
      "dv_data (w_dev w') = write_at (unat ?b * blksz w) (take t (e_data ?e)) (dv_data (w_dev w))" by blast
    have frame: "io_frame w w'" "same_caches w w'" using 1 by auto
    note core' = dev_write_core [OF core p idx holds dirty(2) frame t]
    have "dev_block w' ?b = e_data ?e" if "r = Inr (1, 0)"
      using dev_block_write_same [OF fit len frame(1)] 1 that by simp
    moreover have "length (dv_data (w_dev w')) = length (dv_data (w_dev w))"
      using fit t by (auto simp: length_write_at fits_def len)
    ultimately show ?case using core' 1 frame fit by (auto simp: same_views_def same_caches_def)
  qed
  show ?thesis
    unfolding pool_flush_entry_def wp_bind wp_gets sum.case
  proof (rule wp_mono [OF step], goal_cases)
    case (1 r w')
    let ?e' = "?e\<lparr>e_dirty := False\<rparr>"
    show ?case
    proof (cases "r = Inr (1, 0)")
      case False
      then show ?thesis using 1 by (auto simp: wp_simps split: sum.splits)
    next
      case True
      have pools: "w_bc w' = w_bc w" and core': "c_core sel ps w'" and frame: "io_frame w w'"
        and views: "same_views sel w w'" and dev: "dev_block w' ?b = e_data ?e" using 1 True by auto
      have ctx: "w_ctx w' = w_ctx w" using frame by (rule io_frame_ctx)
      have idx': "idx < length (pool_at p w')" using idx pools by simp
      have e': "entry_ok sel w' p ?e'"
        using pool_ok_entry [OF c_core_pool [OF core' p] idx'] dev pools by (simp add: entry_ok_def)
      have alone: "\<not> holds_block (e_blk_num ?e') (pool_at p w' ! j)"
        if "j < length (pool_at p w')" "j \<noteq> idx" "e_valid ?e'" for j
        using that idx' distinct_cached [of "pool_at p w" j idx] c_core_pool [OF core p] pools dirty
        by (auto simp: holds_block_def pool_ok_def)
      have core'': "c_core sel ps (put_slot p idx ?e' w')"
        by (rule put_slot_core [OF core' p idx' e' alone])
      have "slot_view sel (put_slot p idx ?e' w') b = slot_view sel w' b" for b
        using put_slot_view [OF core' p idx' core'', where b = b] sel pools
          slot_view_hit [OF c_core_pool [OF core' p] idx', of b]
        by (auto simp: holds_block_def sel_in_def)
      then have "same_views sel w (put_slot p idx ?e' w')"
        using views by (simp add: same_views_def)
      moreover have "io_frame w (put_slot p idx ?e' w')"
        using frame put_slot_frame by (rule io_frame_trans)
      moreover have "w_bc (put_slot p idx ?e' w') = w_bc (put_slot p idx ?e' w)"
        using pools by (simp add: put_slot_def)
      ultimately show ?thesis
        using True core'' dev pools by (simp add: wp_simps)
    qed
  qed
qed

text \<open>The victim search: an empty slot, or the slot with the smallest tick. It finds one
  whenever some tick is below the starting value.\<close>

lemma lru_scan_result:
  "lru_scan i best idx es = r \<Longrightarrow>
     (r = idx \<and> (\<forall>e\<in>set es. best \<le> e_lru_tick e)) \<or>
     (\<exists>k<length es. r = Some (i + k) \<and> e_lru_tick (es ! k) < best \<and>
        (\<forall>e\<in>set es. e_lru_tick (es ! k) \<le> e_lru_tick e))"
proof (induction es arbitrary: i best idx)
  case (Cons e es)
  show ?case
  proof (cases "e_lru_tick e < best")
    case True
    then have r: "lru_scan (Suc i) (e_lru_tick e) (Some i) es = r" using Cons.prems by simp
    from Cons.IH [OF r] show ?thesis
    proof
      assume "r = Some i \<and> (\<forall>x\<in>set es. e_lru_tick e \<le> e_lru_tick x)"
      then show ?thesis using True by (intro disjI2 exI [of _ 0]) auto
    next
      assume "\<exists>k<length es. r = Some (Suc i + k) \<and> e_lru_tick (es ! k) < e_lru_tick e \<and>
        (\<forall>x\<in>set es. e_lru_tick (es ! k) \<le> e_lru_tick x)"
      then obtain k where "k < length es" "r = Some (Suc i + k)" "e_lru_tick (es ! k) < e_lru_tick e"
        "\<forall>x\<in>set es. e_lru_tick (es ! k) \<le> e_lru_tick x" by blast
      then show ?thesis using True by (intro disjI2 exI [of _ "Suc k"]) auto
    qed
  next
    case False
    then have r: "lru_scan (Suc i) best idx es = r" using Cons.prems by simp
    from Cons.IH [OF r] show ?thesis
    proof
      assume "r = idx \<and> (\<forall>x\<in>set es. best \<le> e_lru_tick x)"
      then show ?thesis using False by auto
    next
      assume "\<exists>k<length es. r = Some (Suc i + k) \<and> e_lru_tick (es ! k) < best \<and>
        (\<forall>x\<in>set es. e_lru_tick (es ! k) \<le> e_lru_tick x)"
      then obtain k where "k < length es" "r = Some (Suc i + k)" "e_lru_tick (es ! k) < best"
        "\<forall>x\<in>set es. e_lru_tick (es ! k) \<le> e_lru_tick x" by blast
      then show ?thesis using False by (intro disjI2 exI [of _ "Suc k"]) auto
    qed
  qed
qed auto

lemma victim_idx_Some:
  assumes "victim_idx pool = Some k"
  shows "k < length pool" and "e_valid (pool ! k) \<Longrightarrow> e \<in> set pool \<Longrightarrow>
    e_valid e \<and> e_lru_tick (pool ! k) \<le> e_lru_tick e"
proof -
  have "k < length pool \<and> (e_valid (pool ! k) \<longrightarrow>
    (\<forall>e\<in>set pool. e_valid e \<and> e_lru_tick (pool ! k) \<le> e_lru_tick e))"
  proof (cases "first_idx (\<lambda>e. \<not> e_valid e) pool")
    case None
    then have "lru_scan 0 (- 1) None pool = Some k" using assms by (simp add: victim_idx_def)
    moreover have "\<forall>e\<in>set pool. e_valid e" using None by (simp add: first_idx_None)
    ultimately show ?thesis using lru_scan_result [of 0 "- 1" None pool "Some k"] by auto
  next
    case (Some i)
    then show ?thesis using assms by (auto simp: victim_idx_def dest: first_idx_SomeD)
  qed
  then show "k < length pool" and "e_valid (pool ! k) \<Longrightarrow> e \<in> set pool \<Longrightarrow>
    e_valid e \<and> e_lru_tick (pool ! k) \<le> e_lru_tick e" by blast+
qed

lemma victim_idx_exists:
  assumes "pool_ok sel w p" and "young w"
  obtains k where "victim_idx (pool_at p w) = Some k"
proof (cases "victim_idx (pool_at p w)")
  case None
  then have "first_idx (\<lambda>e. \<not> e_valid e) (pool_at p w) = None" "lru_scan 0 (- 1) None (pool_at p w) = None"
    by (auto simp: victim_idx_def split: option.splits)
  then have big: "\<forall>e\<in>set (pool_at p w). - 1 \<le> e_lru_tick e"
    using lru_scan_result [of 0 "- 1" None "pool_at p w" None] by auto
  obtain e where e: "e \<in> set (pool_at p w)" using assms(1) by (cases "pool_at p w") (auto simp: pool_ok_def)
  have "e_lru_tick e = - 1" using big e by (simp add: order_antisym)
  moreover have "unat (e_lru_tick e) \<le> os_touches (w_os w)"
    using assms(1) e by (auto simp: pool_ok_def list_all_iff entry_ok_def)
  moreover have "unat (- 1 :: u64) = 2 ^ 64 - 1" by (simp add: unsigned_minus_1_eq_mask mask_eq_exp_minus_1)
  ultimately show ?thesis using assms(2) by (simp add: young_def)
qed (rule that)

text \<open>Emptying a slot whose block is on the device changes no view.\<close>

lemma clear_slot:
  assumes core: "c_core sel ps w" and sel: "sel_in sel ps" and p: "p \<in> set ps"
    and idx: "idx < length (pool_at p w)" and clean: "\<not> (e_valid (pool_at p w ! idx) \<and> e_dirty (pool_at p w ! idx))"
  defines "e \<equiv> (pool_at p w ! idx)\<lparr>e_valid := False, e_dirty := False\<rparr>"
  shows "c_core sel ps (put_slot p idx e w)" and "same_views sel w (put_slot p idx e w)"
proof -
  have ok: "entry_ok sel w p (pool_at p w ! idx)" using pool_ok_entry [OF c_core_pool [OF core p] idx] .
  show core': "c_core sel ps (put_slot p idx e w)"
    by (rule put_slot_core [OF core p idx]) (use ok in \<open>auto simp: e_def entry_ok_def\<close>)
  have "slot_view sel (put_slot p idx e w) b = slot_view sel w b" for b
    using put_slot_view [OF core p idx core', where b = b] sel ok clean
      slot_view_hit [OF c_core_pool [OF core p] idx, of b]
    by (auto simp: e_def holds_block_def sel_in_def entry_ok_def)
  then show "same_views sel w (put_slot p idx e w)" by (simp add: same_views_def)
qed

lemma wp_pool_get_victim:
  assumes core: "c_core sel ps w" and sel: "sel_in sel ps" and p: "p \<in> set ps"
  shows "wp (pool_get_victim p) (\<lambda>r w'.
      c_core sel ps w' \<and> io_frame w w' \<and> same_views sel w w' \<and>
      (case r of Inl _ \<Rightarrow> w_bc w' = w_bc w \<and> \<not> (os_ok w \<and> young w)
       | Inr idx \<Rightarrow> idx < length (pool_at p w) \<and>
           w_bc w' = w_bc (put_slot p idx ((pool_at p w ! idx)\<lparr>e_valid := False, e_dirty := False\<rparr>) w))) w"
proof (cases "victim_idx (pool_at p w)")
  case None
  then have "\<not> young w" using victim_idx_exists [OF c_core_pool [OF core p]] by fastforce
  then show ?thesis using None core by (simp add: pool_get_victim_def wp_simps)
next
  case (Some idx)
  let ?e = "pool_at p w ! idx"
  have idx: "idx < length (pool_at p w)" using victim_idx_Some [OF Some] by simp
  show ?thesis
  proof (cases "e_valid ?e \<and> e_dirty ?e")
    case False
    then show ?thesis
      using Some clear_slot [OF core sel p idx False] idx by (auto simp: pool_get_victim_def wp_simps)
  next
    case True
    have "wp (pool_flush_entry p idx) (\<lambda>r w'. case r of
        Inl e \<Rightarrow> c_core sel ps w' \<and> io_frame w w' \<and> same_views sel w w' \<and> w_bc w' = w_bc w \<and> \<not> os_ok w
      | Inr _ \<Rightarrow> (let w'' = put_slot p idx ((pool_at p w' ! idx)\<lparr>e_valid := False, e_dirty := False\<rparr>) w'
           in c_core sel ps w'' \<and> io_frame w w'' \<and> same_views sel w w'' \<and>
              w_bc w'' = w_bc (put_slot p idx (?e\<lparr>e_valid := False, e_dirty := False\<rparr>) w))) w"
    proof (rule wp_mono [OF wp_pool_flush_entry [OF core sel p idx]], goal_cases)
      case (3 r w')
      show ?case
      proof (cases r)
        case (Inl e)
        then show ?thesis using 3 by simp
      next
        case (Inr u)
        then have w': "c_core sel ps w'" "io_frame w w'" "same_views sel w w'"
          "w_bc w' = w_bc (put_slot p idx (?e\<lparr>e_dirty := False\<rparr>) w)" using 3 by auto
        have slot: "pool_at p w' ! idx = ?e\<lparr>e_dirty := False\<rparr>" and idx': "idx < length (pool_at p w')"
          using w'(4) idx by simp_all
        let ?w = "put_slot p idx ((pool_at p w' ! idx)\<lparr>e_valid := False, e_dirty := False\<rparr>) w'"
        have clean: "\<not> (e_valid (pool_at p w' ! idx) \<and> e_dirty (pool_at p w' ! idx))" using slot by simp
        have "io_frame w ?w" using w'(2) put_slot_frame by (rule io_frame_trans)
        moreover have "w_bc ?w = w_bc (put_slot p idx (?e\<lparr>e_valid := False, e_dirty := False\<rparr>) w)"
          using w'(4) slot by (simp add: put_slot_def)
        ultimately show ?thesis
          using clear_slot [OF w'(1) sel p idx' clean] same_views_trans [OF w'(3) _ w'(2)] Inr
          by (simp add: Let_def)
      qed
    qed (use True in auto)
    then show ?thesis using Some idx True
      by (auto simp: pool_get_victim_def wp_simps Let_def elim!: wp_mono split: sum.splits)
  qed
qed

text \<open>A block loaded into an empty slot becomes visible with the content of the device, which
  was its view already.\<close>

lemma fill_slot:
  assumes core: "c_core sel ps w" and sel: "sel_in sel ps" and idx: "idx < length (pool_at p w)"
    and p: "p = sel (sp_blk w) b" and empty: "\<not> e_valid (pool_at p w ! idx)"
    and absent: "\<forall>e\<in>set (pool_at p w). \<not> holds_block b e" and fit: "fits w b"
    and d: "length d = blksz w" "dirty \<or> d = dev_block w b"
    and e: "e_valid e" "e_blk_num e = b" "e_dirty e = dirty" "e_data e = d"
      "e_lru_tick e = e_lru_tick (pool_at p w ! idx)"
  shows "c_core sel ps (put_slot p idx e w)"
    and "slot_view sel (put_slot p idx e w) c = (if c = b then d else slot_view sel w c)"
proof -
  have pin: "p \<in> set ps" using sel p by (simp add: sel_in_def)
  have ok: "entry_ok sel w p (pool_at p w ! idx)" using pool_ok_entry [OF c_core_pool [OF core pin] idx] .
  have "entry_ok sel w p e" using ok e d fit p by (auto simp: entry_ok_def)
  moreover have "\<not> holds_block (e_blk_num e) (pool_at p w ! j)" if "j < length (pool_at p w)" for j
    using absent that e(2) by simp
  ultimately show core': "c_core sel ps (put_slot p idx e w)"
    by (intro put_slot_core [OF core pin idx]) auto
  show "slot_view sel (put_slot p idx e w) c = (if c = b then d else slot_view sel w c)"
    using put_slot_view [OF core pin idx core', where b = c] sel e empty
    by (auto simp: holds_block_def sel_in_def)
qed

text \<open>Writing into the slot that holds a block.\<close>

lemma overwrite_slot:
  assumes core: "c_core sel ps w" and sel: "sel_in sel ps" and p: "p \<in> set ps"
    and idx: "idx < length (pool_at p w)" and holds: "holds_block b (pool_at p w ! idx)"
    and d: "length d = blksz w"
  defines "e \<equiv> (pool_at p w ! idx)\<lparr>e_data := d, e_dirty := True\<rparr>"
  shows "c_core sel ps (put_slot p idx e w)"
    and "slot_view sel (put_slot p idx e w) c = (if c = b then d else slot_view sel w c)"
proof -
  have ok: "entry_ok sel w p (pool_at p w ! idx)" using pool_ok_entry [OF c_core_pool [OF core p] idx] .
  have alone: "\<not> holds_block b (pool_at p w ! j)" if "j < length (pool_at p w)" "j \<noteq> idx" for j
    using that idx holds distinct_cached [of "pool_at p w" j idx] c_core_pool [OF core p]
    by (auto simp: holds_block_def pool_ok_def)
  show core': "c_core sel ps (put_slot p idx e w)"
    by (rule put_slot_core [OF core p idx])
      (use ok d alone holds in \<open>auto simp: e_def entry_ok_def holds_block_def\<close>)
  show "slot_view sel (put_slot p idx e w) c = (if c = b then d else slot_view sel w c)"
    using put_slot_view [OF core p idx core', where b = c] sel holds
    by (auto simp: e_def holds_block_def sel_in_def)
qed

text \<open>Changing the bytes of an empty slot is invisible.\<close>

lemma scribble_slot:
  assumes core: "c_core sel ps w" and sel: "sel_in sel ps" and p: "p \<in> set ps"
    and idx: "idx < length (pool_at p w)" and empty: "\<not> e_valid (pool_at p w ! idx)"
    and d: "length d = blksz w"
  defines "e \<equiv> (pool_at p w ! idx)\<lparr>e_data := d\<rparr>"
  shows "c_core sel ps (put_slot p idx e w)" and "same_views sel w (put_slot p idx e w)"
proof -
  have ok: "entry_ok sel w p (pool_at p w ! idx)" using pool_ok_entry [OF c_core_pool [OF core p] idx] .
  show core': "c_core sel ps (put_slot p idx e w)"
    by (rule put_slot_core [OF core p idx]) (use ok d empty in \<open>auto simp: e_def entry_ok_def\<close>)
  have "slot_view sel (put_slot p idx e w) c = slot_view sel w c" for c
    using put_slot_view [OF core p idx core', where b = c] sel empty
    by (auto simp: e_def holds_block_def sel_in_def)
  then show "same_views sel w (put_slot p idx e w)" by (simp add: same_views_def)
qed

end
