(* ===== verification/Mofs_Buffer_Laws.thy ===== *)
theory Mofs_Buffer_Laws
  imports Mofs_Buffer_Inv
begin

text \<open>
  The contracts of the cache entry points, from single blocks to whole requests, and the
  interpretation of the cache locales by the unified cache.
\<close>

section \<open>One block\<close>

definition lock_same :: "world \<Rightarrow> world \<Rightarrow> bool" where
  "lock_same w w' = (bcache_mutex (w_bc w') = bcache_mutex (w_bc w) \<and>
     bcache_ready (w_bc w') = bcache_ready (w_bc w))"

lemma lock_same_refl [simp]: "lock_same w w"
  by (simp add: lock_same_def)

lemma lock_same_trans: "lock_same a b \<Longrightarrow> lock_same b c \<Longrightarrow> lock_same a c"
  by (simp add: lock_same_def)

text \<open>What every routine under the cache lock keeps.\<close>

definition cache_step :: "pool_sel \<Rightarrow> pool_id list \<Rightarrow> world \<Rightarrow> world \<Rightarrow> bool" where
  "cache_step sel ps w w' = (c_core sel ps w' \<and> io_frame w w' \<and> lock_same w w')"

lemma cache_step_refl: "c_core sel ps w \<Longrightarrow> cache_step sel ps w w"
  by (simp add: cache_step_def)

lemma cache_step_trans:
  "cache_step sel ps a b \<Longrightarrow> cache_step sel ps b c \<Longrightarrow> cache_step sel ps a c"
  by (auto simp: cache_step_def intro: io_frame_trans lock_same_trans)

text \<open>Loading an absent block into a victim slot: what the miss path does up to the check of the
  transfer. The pools end as before but for the emptied slot, which has the bytes read.\<close>

lemma wp_slot_read:
  assumes core: "c_core sel ps w" and sel: "sel_in sel ps" and p: "p \<in> set ps"
    and idx: "idx < length (pool_at p w)" and empty: "\<not> e_valid (pool_at p w ! idx)"
  shows "wp (slot_read p idx b) (\<lambda>r w'.
      cache_step sel ps w w' \<and> same_views sel w w' \<and>
      (case r of Inl _ \<Rightarrow> \<not> (os_ok w \<and> fits w b)
       | Inr (cnt, frac) \<Rightarrow>
           (\<exists>d. length d = blksz w \<and>
             w_bc w' = w_bc (put_slot p idx ((pool_at p w ! idx)\<lparr>e_data := d\<rparr>) w) \<and>
             (cnt = 1 \<and> frac = 0 \<and> fits w b \<and> d = dev_block w' b \<or>
              cnt = 0 \<and> unat frac < blksz w \<and> \<not> (os_ok w \<and> fits w b))))) w"
proof -
  let ?e = "pool_at p w ! idx"
  have rdy: "io_ready w" using core by (simp add: c_core_def)
  have len: "length (e_data ?e) = blksz w"
    using pool_ok_entry [OF c_core_pool [OF core p] idx] by (simp add: entry_ok_def)
  show ?thesis
    unfolding slot_read_def wp_bind wp_gets sum.case
  proof (rule wp_mono [OF wp_read_raw_1 [OF rdy len, of b]], goal_cases)
    case (1 r w')
    have frame: "io_frame w w'" and pools: "w_bc w' = w_bc w"
      and data: "dv_data (w_dev w') = dv_data (w_dev w)" using 1 by (auto simp: same_caches_def)
    have ctx: "w_ctx w' = w_ctx w" using frame by (rule io_frame_ctx)
    have touches: "os_touches (w_os w) \<le> os_touches (w_os w')" using frame by (simp add: io_frame_def os_frame_def)
    have blocks: "dev_block w' c = dev_block w c" "fits w' c = fits w c" for c
      by (simp_all add: dev_block_def fits_def ctx data)
    have core': "c_core sel ps w'"
      using core io_ready_frame [OF frame] touches
      by (fastforce simp: c_core_def list_all_iff pool_ok_def entry_ok_def pools ctx blocks)
    have views: "same_views sel w w'"
      by (simp add: same_views_def slot_view_def ctx pools blocks data cong: option.case_cong)
    have step: "cache_step sel ps w w'" using core' frame pools by (simp add: cache_step_def lock_same_def)
    show ?case
    proof (cases r)
      case (Inl e)
      then show ?thesis using 1 step views by simp
    next
      case (Inr res)
      obtain d cnt frac where res: "res = (d, cnt, frac)" by (cases res)
      have idx': "idx < length (pool_at p w')" and empty': "\<not> e_valid (pool_at p w' ! idx)"
        and d: "length d = blksz w'" using idx empty 1 Inr res pools ctx by auto
      let ?w = "put_slot p idx ((pool_at p w' ! idx)\<lparr>e_data := d\<rparr>) w'"
      note scr = scribble_slot [OF core' sel p idx' empty' d]
      have "cache_step sel ps w ?w"
        using scr(1) io_frame_trans [OF frame put_slot_frame] pools by (simp add: cache_step_def lock_same_def)
      moreover have "same_views sel w ?w" using same_views_trans [OF views scr(2) frame] .
      moreover have "w_bc ?w = w_bc (put_slot p idx (?e\<lparr>e_data := d\<rparr>) w)"
        using pools by (simp add: put_slot_def)
      moreover have "cnt = 1 \<and> frac = 0 \<and> fits w b \<and> d = dev_block ?w b \<or>
          cnt = 0 \<and> unat frac < blksz w \<and> \<not> (os_ok w \<and> fits w b)"
        using 1 Inr res blocks by auto
      ultimately show ?thesis
        using Inr res d ctx by (auto simp: wp_simps)
    qed
  qed
qed

text \<open>Victim selection as a step: the chosen slot is empty and the block is still absent.\<close>

lemma wp_victim_step:
  assumes core: "c_core sel ps w" and sel: "sel_in sel ps" and p: "p \<in> set ps"
    and absent: "\<forall>e\<in>set (pool_at p w). \<not> holds_block b e"
  shows "wp (pool_get_victim p) (\<lambda>r w'.
      cache_step sel ps w w' \<and> same_views sel w w' \<and>
      (case r of Inl _ \<Rightarrow> \<not> calm w w'
       | Inr idx \<Rightarrow> idx < length (pool_at p w') \<and> \<not> e_valid (pool_at p w' ! idx) \<and>
           (\<forall>e\<in>set (pool_at p w'). \<not> holds_block b e))) w"
proof (rule wp_mono [OF wp_pool_get_victim [OF core sel p]], goal_cases)
  case (1 r w')
  have young: "young w' \<Longrightarrow> young w" using 1 by (auto simp: young_def io_frame_def os_frame_def)
  show ?case
  proof (cases r)
    case (Inl e)
    then show ?thesis using 1 young by (auto simp: cache_step_def lock_same_def calm_def)
  next
    case (Inr idx)
    let ?e = "(pool_at p w ! idx)\<lparr>e_valid := False, e_dirty := False\<rparr>"
    have pools: "w_bc w' = w_bc (put_slot p idx ?e w)" and idx: "idx < length (pool_at p w)"
      using 1 Inr by simp_all
    have "\<forall>e\<in>set (pool_at p w'). \<not> holds_block b e"
      using absent by (auto simp: pools holds_block_def dest!: set_update_subset_insert [THEN subsetD])
    then show ?thesis using 1 Inr idx pools by (simp add: cache_step_def lock_same_def)
  qed
qed

text \<open>The whole miss path: on success the block sits in the slot, clean, with the content of the
  device.\<close>

lemma wp_load_slot:
  assumes core: "c_core sel ps w" and sel: "sel_in sel ps" and p: "p = sel (sp_blk w) b"
    and absent: "\<forall>e\<in>set (pool_at p w). \<not> holds_block b e"
    and Inl: "\<And>e w'. cache_step sel ps w w' \<Longrightarrow> same_views sel w w' \<Longrightarrow> \<not> (calm w w' \<and> fits w b) \<Longrightarrow> Q (Inl e) w'"
    and short: "\<And>idx frac w'. cache_step sel ps w w' \<Longrightarrow> same_views sel w w' \<Longrightarrow>
      \<not> (calm w w' \<and> fits w b) \<Longrightarrow> unat frac < blksz w \<Longrightarrow>
      length (e_data (pool_at p w' ! idx)) = blksz w \<Longrightarrow> wp (k idx (0, frac)) Q w'"
    and full: "\<And>idx w'. cache_step sel ps w w' \<Longrightarrow> same_views sel w w' \<Longrightarrow> fits w b \<Longrightarrow>
      idx < length (pool_at p w') \<Longrightarrow> \<not> e_valid (pool_at p w' ! idx) \<Longrightarrow>
      (\<forall>e\<in>set (pool_at p w'). \<not> holds_block b e) \<Longrightarrow>
      e_data (pool_at p w' ! idx) = dev_block w' b \<Longrightarrow> wp (k idx (1, 0)) Q w'"
  shows "wp (bind (pool_get_victim p) (\<lambda>idx. bind (slot_read p idx b) (k idx))) Q w"
proof -
  have pin: "p \<in> set ps" using sel p by (simp add: sel_in_def)
  show ?thesis
  proof (rule wp_bind_rule [OF wp_victim_step [OF core sel pin absent]], goal_cases)
    case (1 e w')
    then show ?case using Inl by auto
  next
    case (2 idx w1)
    then have w1: "cache_step sel ps w w1" "same_views sel w w1" "idx < length (pool_at p w1)"
      "\<not> e_valid (pool_at p w1 ! idx)" "\<forall>e\<in>set (pool_at p w1). \<not> holds_block b e" by auto
    have frame: "io_frame w w1" and core1: "c_core sel ps w1" using w1(1) by (simp_all add: cache_step_def)
    have ctx: "w_ctx w1 = w_ctx w" using frame by (rule io_frame_ctx)
    show ?case
    proof (rule wp_bind_rule [OF wp_slot_read [OF core1 sel pin w1(3,4)]], goal_cases)
      case (1 e w2)
      then have step: "cache_step sel ps w w2" using cache_step_trans [OF w1(1)] by blast
      have "\<not> (calm w w2 \<and> fits w b)"
        using 1 fits_frame [OF frame] os_ok_frame [OF frame] by (auto simp: calm_def)
      then show ?case using Inl step 1 same_views_trans [OF w1(2) _ frame] by blast
    next
      case (2 res w2)
      obtain cnt frac where res: "res = (cnt, frac)" by (cases res)
      then obtain d where d: "length d = blksz w1"
        "w_bc w2 = w_bc (put_slot p idx ((pool_at p w1 ! idx)\<lparr>e_data := d\<rparr>) w1)"
        "cnt = 1 \<and> frac = 0 \<and> fits w1 b \<and> d = dev_block w2 b \<or>
         cnt = 0 \<and> unat frac < blksz w1 \<and> \<not> (os_ok w1 \<and> fits w1 b)" using 2 by auto
      have step: "cache_step sel ps w w2" using cache_step_trans [OF w1(1)] 2 by blast
      have views: "same_views sel w w2" using 2 same_views_trans [OF w1(2) _ frame] by blast
      have slot: "pool_at p w2 ! idx = (pool_at p w1 ! idx)\<lparr>e_data := d\<rparr>" "idx < length (pool_at p w2)"
        using d(2) w1(3) by simp_all
      have absent2: "\<forall>e\<in>set (pool_at p w2). \<not> holds_block b e"
        using w1(4,5) by (auto simp: d(2) holds_block_def dest!: set_update_subset_insert [THEN subsetD])
      show ?case
        using d(3)
      proof
        assume "cnt = 1 \<and> frac = 0 \<and> fits w1 b \<and> d = dev_block w2 b"
        moreover have "fits w b" if "fits w1 b" using that w1(2) by (simp add: fits_def same_views_def ctx)
        ultimately show ?thesis
          using full [OF step views _ slot(2) _ absent2] slot w1(4) res by simp
      next
        assume short': "cnt = 0 \<and> unat frac < blksz w1 \<and> \<not> (os_ok w1 \<and> fits w1 b)"
        then have "\<not> (calm w w2 \<and> fits w b)"
          using fits_frame [OF frame] os_ok_frame [OF frame] by (auto simp: calm_def)
        then show ?thesis using short [OF step views] short' slot d(1) ctx res by simp
      qed
    qed
  qed
qed

lemma same_views_fits: "same_views sel w w' \<Longrightarrow> io_frame w w' \<Longrightarrow> fits w' b = fits w b"
  by (simp add: same_views_def fits_def io_frame_ctx)

lemma touched_step:
  assumes "c_core sel ps w" and "sel_in sel ps" and "p \<in> set ps" and "idx < length (pool_at p w)"
  shows "cache_step sel ps w (touched p idx w)" and "same_views sel w (touched p idx w)"
  using touched_core [OF assms(1,3,4)] assms(2)
  by (auto simp: cache_step_def lock_same_def same_views_def sel_in_def)

lemma put_slot_step:
  "c_core sel ps (put_slot p idx e w) \<Longrightarrow> cache_step sel ps w (put_slot p idx e w)"
  by (simp add: cache_step_def lock_same_def)

text \<open>The pool lookup: a slot that holds the block, or no slot does.\<close>

lemma wp_pool_find:
  assumes hit: "\<And>idx. idx < length (pool_at p w) \<Longrightarrow> holds_block b (pool_at p w ! idx) \<Longrightarrow> Q (Inr (Some idx)) w"
    and miss: "\<forall>e\<in>set (pool_at p w). \<not> holds_block b e \<Longrightarrow> Q (Inr None) w"
  shows "wp (pool_find p b) Q w"
proof (cases "first_idx (holds_block b) (pool_at p w)")
  case None
  then have "\<forall>e\<in>set (pool_at p w). \<not> holds_block b e" by (simp add: first_idx_None)
  then show ?thesis using miss None by (simp add: pool_find_def wp_simps)
next
  case (Some idx)
  then show ?thesis using hit first_idx_SomeD [OF Some] by (simp add: pool_find_def wp_simps)
qed

lemma wp_cached_read_one:
  assumes core: "c_core sel ps w" and sel: "sel_in sel ps"
  shows "wp (cached_read_one sel (blksz w) b) (\<lambda>r w'.
      cache_step sel ps w w' \<and> same_views sel w w' \<and>
      (case r of Inl _ \<Rightarrow> \<not> (calm w w' \<and> fits w b)
       | Inr (bs, frac) \<Rightarrow>
           frac = 0 \<and> fits w b \<and> bs = slot_view sel w b \<and> length bs = blksz w \<or>
           frac \<noteq> 0 \<and> unat frac < blksz w \<and> length bs = unat frac \<and> \<not> (calm w w' \<and> fits w b))) w"
proof -
  let ?p = "sel (sp_blk w) b"
  have pin: "?p \<in> set ps" using sel by (simp add: sel_in_def)
  show ?thesis
    unfolding cached_read_one_def wp_bind wp_gets sum.case
  proof (rule wp_pool_find, goal_cases)
    case (1 idx)
    let ?e = "pool_at ?p w ! idx"
    have ok: "entry_ok sel w ?p ?e" using pool_ok_entry [OF c_core_pool [OF core pin] 1(1)] .
    have "slot_view sel w b = e_data ?e" using slot_view_hit [OF c_core_pool [OF core pin] 1] .
    moreover have "length (e_data ?e) = blksz w" "fits w b"
      using ok 1(2) by (auto simp: entry_ok_def holds_block_def)
    ultimately show ?case
      using touched_step [OF core sel pin 1(1)] by (simp add: wp_simps)
  next
    case 2
    show ?case
      unfolding sum.case option.case
    proof (rule wp_load_slot [OF core sel refl 2], goal_cases)
      case (1 e w')
      then show ?case by simp
    next
      case (2 idx frac w')
      then show ?case by (auto simp: wp_simps min_def)
    next
      case (3 idx w')
      have frame: "io_frame w w'" and core': "c_core sel ps w'" using 3(1) by (simp_all add: cache_step_def)
      have ctx: "w_ctx w' = w_ctx w" using frame by (rule io_frame_ctx)
      let ?d = "dev_block w' b"
      let ?e = "(pool_at ?p w' ! idx)\<lparr>e_blk_num := b, e_valid := True, e_dirty := False\<rparr>"
      let ?w = "put_slot ?p idx ?e w'"
      have fit': "fits w' b" using fits_frame [OF frame 3(3)] .
      note fill = fill_slot [OF core' sel, of idx ?p b ?d False ?e, unfolded ctx, OF 3(4) refl 3(5,6) fit']
      have core1: "c_core sel ps ?w" using fill(1) 3(7) fit' ctx by simp
      have miss: "slot_view sel w' b = ?d"
        using slot_view_miss [where w = w' and b = b and sel = sel] 3(6) ctx by simp
      have "slot_view sel ?w c = slot_view sel w' c" for c
        using fill(2) [of c] 3(7) fit' ctx miss by simp
      then have views1: "same_views sel w ?w"
        using 3(2) by (simp add: same_views_def)
      have step1: "cache_step sel ps w ?w"
        using cache_step_trans [OF 3(1) put_slot_step [OF core1]] .
      have idx1: "idx < length (pool_at ?p ?w)" using 3(4) by simp
      have "slot_view sel w b = ?d" using miss 3(2,3) by (simp add: same_views_def)
      then show ?case
        using touched_step [OF core1 sel pin idx1] cache_step_trans [OF step1] 3 fit' ctx
          same_views_trans [OF views1] step1
        by (auto simp: wp_simps cache_step_def)
    qed
  qed
qed

lemma wp_cached_write_one:
  assumes core: "c_core sel ps w" and sel: "sel_in sel ps" and src: "length src = blksz w" and fit: "fits w b"
  shows "wp (cached_write_one sel b src) (\<lambda>r w'.
      cache_step sel ps w w' \<and> length (dv_data (w_dev w')) = length (dv_data (w_dev w)) \<and>
      (\<forall>c. fits w c \<longrightarrow> c \<noteq> b \<longrightarrow> slot_view sel w' c = slot_view sel w c) \<and>
      (case r of Inl _ \<Rightarrow> \<not> calm w w' \<and> slot_view sel w' b = slot_view sel w b
       | Inr _ \<Rightarrow> slot_view sel w' b = src)) w"
proof -
  let ?p = "sel (sp_blk w) b"
  have pin: "?p \<in> set ps" using sel by (simp add: sel_in_def)
  have store: "wp (bind (upd_entry ?p idx (\<lambda>e. e\<lparr>e_data := overwrite 0 src (e_data e), e_dirty := True\<rparr>)) (\<lambda>_.
        pool_touch ?p idx)) (\<lambda>r w'. r = Inr () \<and>
      cache_step sel ps w1 w' \<and> length (dv_data (w_dev w')) = length (dv_data (w_dev w1)) \<and>
      (\<forall>c. fits w1 c \<longrightarrow> slot_view sel w' c = (if c = b then src else slot_view sel w1 c))) w1"
    if core1: "c_core sel ps w1" and idx: "idx < length (pool_at ?p w1)"
      and holds: "holds_block b (pool_at ?p w1 ! idx)" and ctx: "w_ctx w1 = w_ctx w" for w1 idx
  proof -
    let ?e = "(pool_at ?p w1 ! idx)\<lparr>e_data := src, e_dirty := True\<rparr>"
    have len: "length (e_data (pool_at ?p w1 ! idx)) = length src"
      using pool_ok_entry [OF c_core_pool [OF core1 pin] idx] src ctx by (simp add: entry_ok_def)
    have src1: "length src = blksz w1" using src ctx by simp
    note ow = overwrite_slot [OF core1 sel pin idx holds src1]
    have idx2: "idx < length (pool_at ?p (put_slot ?p idx ?e w1))" using idx by simp
    note t = touched_step [OF ow(1) sel pin idx2]
    show ?thesis
      using t ow(2) len cache_step_trans [OF put_slot_step [OF ow(1)] t(1)]
      by (simp add: wp_simps same_views_def)
  qed
  show ?thesis
    unfolding cached_write_one_def wp_bind [of "gets _"] wp_bind [of "pool_find _ _"] wp_gets sum.case
  proof (rule wp_pool_find, goal_cases)
    case (1 idx)
    have "wp (bind (upd_entry ?p idx (\<lambda>e. e\<lparr>e_data := overwrite 0 src (e_data e), e_dirty := True\<rparr>)) (\<lambda>_.
        pool_touch ?p idx)) (\<lambda>r w'.
      cache_step sel ps w w' \<and> length (dv_data (w_dev w')) = length (dv_data (w_dev w)) \<and>
      (\<forall>c. fits w c \<longrightarrow> c \<noteq> b \<longrightarrow> slot_view sel w' c = slot_view sel w c) \<and>
      (case r of Inl _ \<Rightarrow> \<not> calm w w' \<and> slot_view sel w' b = slot_view sel w b
       | Inr _ \<Rightarrow> slot_view sel w' b = src)) w"
      using wp_mono [OF store [OF core 1 refl]] fit by auto
    then show ?case by (simp add: wp_simps)
  next
    case 2
    show ?case
      unfolding sum.case option.case wp_bind [of "bind _ _"]
    proof (rule wp_bind_rule [OF wp_victim_step [OF core sel pin 2]], goal_cases)
      case (1 e w')
      then show ?case using fit by (auto simp: same_views_def)
    next
      case (2 idx w1)
      then have w1: "cache_step sel ps w w1" "same_views sel w w1" "idx < length (pool_at ?p w1)"
        "\<not> e_valid (pool_at ?p w1 ! idx)" "\<forall>e\<in>set (pool_at ?p w1). \<not> holds_block b e" by auto
      have frame: "io_frame w w1" and core1: "c_core sel ps w1" using w1(1) by (simp_all add: cache_step_def)
      have ctx: "w_ctx w1 = w_ctx w" using frame by (rule io_frame_ctx)
      let ?e = "(pool_at ?p w1 ! idx)\<lparr>e_blk_num := b, e_valid := True, e_data := src, e_dirty := True\<rparr>"
      let ?w = "put_slot ?p idx ?e w1"
      have len: "length (e_data (pool_at ?p w1 ! idx)) = length src"
        using pool_ok_entry [OF c_core_pool [OF core1 pin] w1(3)] src ctx by (simp add: entry_ok_def)
      note fill = fill_slot [OF core1 sel, of idx ?p b src True ?e, unfolded ctx,
          OF w1(3) refl w1(4,5) fits_frame [OF frame fit]]
      have core2: "c_core sel ps ?w" using fill(1) src ctx by simp
      have view2: "slot_view sel ?w c = (if c = b then src else slot_view sel w1 c)" for c
        using fill(2) [of c] src ctx by simp
      have idx2: "idx < length (pool_at ?p ?w)" using w1(3) by simp
      note t = touched_step [OF core2 sel pin idx2]
      have "cache_step sel ps w (touched ?p idx ?w)"
        using cache_step_trans [OF cache_step_trans [OF w1(1) put_slot_step [OF core2]] t(1)] .
      then show ?case
        using t(2) view2 w1(2,3) len same_views_fits [OF w1(2) frame] fit
        by (simp add: wp_simps same_views_def)
    qed
  qed
qed

section \<open>Requests of several blocks\<close>

text \<open>The state of a read request: \<open>m\<close> blocks after the first \<open>i\<close> have been delivered, each
  with its view.\<close>

definition cread_result ::
  "pool_sel \<Rightarrow> world \<Rightarrow> u32 \<Rightarrow> nat \<Rightarrow> nat \<Rightarrow> byte list \<Rightarrow> byte list \<times> u32 \<times> u32 \<Rightarrow> world \<Rightarrow> bool" where
  "cread_result sel w start i n buf = (\<lambda>(buf', cnt, frac) w'. \<exists>m\<le>n.
     cnt = word_of_nat (i + m) \<and> unat frac < blksz w \<and> (m = n \<longrightarrow> frac = 0) \<and>
     length buf' = length buf \<and>
     (\<forall>k<i. chunk (k * blksz w) (blksz w) buf' = chunk (k * blksz w) (blksz w) buf) \<and>
     (\<forall>k<m. fits w (nth_blk start (i + k)) \<and>
        chunk ((i + k) * blksz w) (blksz w) buf' = slot_view sel w (nth_blk start (i + k))) \<and>
     (m < n \<longrightarrow> \<not> (calm w w' \<and> (\<forall>k<n. fits w (nth_blk start (i + k))))))"

lemma cread_result_short:
  assumes "i * blksz w + unat frac \<le> length buf" and "length bs = unat frac" and "unat frac < blksz w"
    and "\<not> (calm w w' \<and> fits w (nth_blk start i))"
  shows "cread_result sel w start i (Suc n) buf (overwrite (i * blksz w) bs buf, word_of_nat i, frac) w'"
proof -
  have "chunk (k * blksz w) (blksz w) (overwrite (i * blksz w) bs buf) = chunk (k * blksz w) (blksz w) buf"
    if "k < i" for k
    using that assms block_fits [of k i "blksz w" "i * blksz w"]
    by (intro chunk_overwrite_disjoint) auto
  then show ?thesis
    unfolding cread_result_def using assms by (auto intro!: exI [of _ 0])
qed

lemma cread_result_step:
  assumes room: "(i + Suc n) * blksz w \<le> length buf"
    and bs: "bs = slot_view sel w (nth_blk start i)" "length bs = blksz w" and fit: "fits w (nth_blk start i)"
    and views: "same_views sel w w1" and frame: "io_frame w w1" and frame': "io_frame w1 w'"
    and res: "cread_result sel w1 start (Suc i) n (overwrite (i * blksz w) bs buf) r w'"
  shows "cread_result sel w start i (Suc n) buf r w'"
proof -
  let ?blk = "blksz w"
  have ctx: "w_ctx w1 = w_ctx w" using frame by (rule io_frame_ctx)
  have fits1: "fits w1 c = fits w c" for c using same_views_fits [OF views frame] .
  have view1: "slot_view sel w1 c = slot_view sel w c" if "fits w c" for c
    using views that by (simp add: same_views_def)
  obtain buf' cnt frac m where r: "r = (buf', cnt, frac)" "m \<le> n" "cnt = word_of_nat (Suc i + m)"
    "unat frac < ?blk" "m = n \<longrightarrow> frac = 0" "length buf' = length (overwrite (i * ?blk) bs buf)"
    "\<And>k. k < Suc i \<Longrightarrow> chunk (k * ?blk) ?blk buf' = chunk (k * ?blk) ?blk (overwrite (i * ?blk) bs buf)"
    "\<And>k. k < m \<Longrightarrow> fits w (nth_blk start (Suc i + k)) \<and>
       chunk ((Suc i + k) * ?blk) ?blk buf' = slot_view sel w1 (nth_blk start (Suc i + k))"
    "m < n \<longrightarrow> \<not> (calm w1 w' \<and> (\<forall>k<n. fits w (nth_blk start (Suc i + k))))"
    using res unfolding cread_result_def ctx fits1 by (cases r) (simp only: prod.case, blast)
  have fit_i: "i * ?blk + ?blk \<le> length buf" using block_fits [of i "i + Suc n" ?blk] room by simp
  have len: "length (overwrite (i * ?blk) bs buf) = length buf" using fit_i bs(2) by simp
  have low: "chunk (k * ?blk) ?blk buf' = chunk (k * ?blk) ?blk buf" if "k < i" for k
    using that r(7) [of k] block_fits [of k i ?blk "i * ?blk"] bs(2) fit_i
      chunk_overwrite_disjoint [of "i * ?blk" bs buf "k * ?blk" ?blk] by simp
  have here: "chunk (i * ?blk) ?blk buf' = bs" using r(7) [of i] fit_i bs(2) by simp
  have all: "fits w (nth_blk start (i + k)) \<and>
      chunk ((i + k) * ?blk) ?blk buf' = slot_view sel w (nth_blk start (i + k))" if "k < Suc m" for k
    using that here bs fit r(8) [of "k - 1"] view1 by (cases k) auto
  have stop: "\<not> (calm w w' \<and> (\<forall>k<Suc n. fits w (nth_blk start (i + k))))" if "Suc m < Suc n"
  proof
    assume "calm w w' \<and> (\<forall>k<Suc n. fits w (nth_blk start (i + k)))"
    then have "calm w1 w'" "\<And>k. k < n \<Longrightarrow> fits w (nth_blk start (i + Suc k))"
      using calm_split [OF _ frame frame'] by auto
    then show False using r(9) that by auto
  qed
  show ?thesis
    unfolding cread_result_def r(1) prod.case
    using r(2-6) len low all stop by (intro exI [of _ "Suc m"]) simp
qed

lemma wp_cached_read_loop:
  assumes "c_core sel ps w" and sel: "sel_in sel ps" and "(i + n) * blksz w \<le> length buf"
  shows "wp (cached_read_loop sel (blksz w) n i start buf) (\<lambda>r w'.
      cache_step sel ps w w' \<and> same_views sel w w' \<and>
      (case r of Inl _ \<Rightarrow> \<not> (calm w w' \<and> (\<forall>k<n. fits w (nth_blk start (i + k))))
       | Inr res \<Rightarrow> cread_result sel w start i n buf res w')) w"
  using assms(1,3)
proof (induction n arbitrary: w i buf)
  case 0
  have "0 < blksz w" using 0 by (simp add: c_core_def io_ready_def)
  then show ?case using 0 by (auto simp: wp_simps cread_result_def cache_step_refl)
next
  case (Suc n)
  let ?b = "nth_blk start i"
  have fit_i: "i * blksz w + blksz w \<le> length buf" using block_fits [of i "i + Suc n" "blksz w"] Suc.prems by simp
  show ?case
    unfolding cached_read_loop.simps
  proof (rule wp_bind_rule [OF wp_cached_read_one [OF Suc.prems(1) sel]], goal_cases)
    case (1 e w')
    then show ?case by auto
  next
    case (2 res w1)
    obtain bs frac where res: "res = (bs, frac)" by (cases res)
    have step: "cache_step sel ps w w1" "same_views sel w w1" using 2 by auto
    have frame: "io_frame w w1" and core1: "c_core sel ps w1" using step(1) by (simp_all add: cache_step_def)
    have ctx: "w_ctx w1 = w_ctx w" using frame by (rule io_frame_ctx)
    show ?case
    proof (cases "frac = 0")
      case False
      then show ?thesis using 2 res fit_i step
        by (auto simp: wp_simps intro!: cread_result_short)
    next
      case True
      then have bs: "fits w ?b" "bs = slot_view sel w ?b" "length bs = blksz w" using 2 res by auto
      let ?buf = "overwrite (i * blksz w) bs buf"
      have "length ?buf = length buf" using fit_i bs(3) by simp
      then have "wp (cached_read_loop sel (blksz w1) n (Suc i) start ?buf) (\<lambda>r w'.
          cache_step sel ps w1 w' \<and> same_views sel w1 w' \<and>
          (case r of Inl _ \<Rightarrow> \<not> (calm w1 w' \<and> (\<forall>k<n. fits w1 (nth_blk start (Suc i + k))))
           | Inr res \<Rightarrow> cread_result sel w1 start (Suc i) n ?buf res w')) w1"
        using Suc.prems(2) ctx by (intro Suc.IH [OF core1]) simp
      then have "wp (cached_read_loop sel (blksz w) n (Suc i) start ?buf) (\<lambda>r w'.
          cache_step sel ps w w' \<and> same_views sel w w' \<and>
          (case r of Inl _ \<Rightarrow> \<not> (calm w w' \<and> (\<forall>k<Suc n. fits w (nth_blk start (i + k))))
           | Inr res \<Rightarrow> cread_result sel w start i (Suc n) buf res w')) w1"
        unfolding ctx
      proof (rule wp_mono, goal_cases)
        case (1 r w')
        have frame': "io_frame w1 w'" using 1 by (simp add: cache_step_def)
        have "\<not> (calm w w' \<and> (\<forall>k<Suc n. fits w (nth_blk start (i + k))))" if "r = Inl e" for e
        proof
          assume "calm w w' \<and> (\<forall>k<Suc n. fits w (nth_blk start (i + k)))"
          then have "calm w1 w'" "\<And>k. k < n \<Longrightarrow> fits w1 (nth_blk start (i + Suc k))"
            using calm_split [OF _ frame frame'] fits_frame [OF frame] by auto
          then show False using 1 that by auto
        qed
        moreover have "cread_result sel w start i (Suc n) buf res w'" if "r = Inr res" for res
          using 1 that by (intro cread_result_step [OF Suc.prems(2) bs(2,3,1) step(2) frame frame']) simp
        ultimately show ?case
          using 1 cache_step_trans [OF step(1)] same_views_trans [OF step(2) _ frame]
          by (cases r) auto
      qed
      then show ?thesis using True res by simp
    qed
  qed
qed

end
