(* ===== verification/Mofs_Buffer_API.thy ===== *)
theory Mofs_Buffer_API
  imports Mofs_Buffer_Laws
begin

text \<open>
  The entry points of the cache under its mutex, for any choice of pools: they satisfy the laws
  of \<open>block_cache\<close> and \<open>write_back_cache\<close>, whether the cache is ready or (before it is
  initialised) passes requests through to the device. The unified cache is the first
  interpretation.
\<close>

section \<open>The cache mutex\<close>

definition set_mutex :: "bool option \<Rightarrow> world \<Rightarrow> world" where
  "set_mutex m w = w\<lparr>w_bc := (w_bc w)\<lparr>bcache_mutex := m\<rparr>\<rparr>"

lemma set_mutex_simps [simp]:
  "w_ctx (set_mutex m w) = w_ctx w" "w_dev (set_mutex m w) = w_dev w" "w_os (set_mutex m w) = w_os w"
  "w_mode (set_mutex m w) = w_mode w" "bc_pool (w_bc (set_mutex m w)) = bc_pool (w_bc w)"
  "bc_tick (w_bc (set_mutex m w)) = bc_tick (w_bc w)"
  "bcache_ready (w_bc (set_mutex m w)) = bcache_ready (w_bc w)"
  "bcache_mutex (w_bc (set_mutex m w)) = m" "set_mutex (bcache_mutex (w_bc w)) w = w"
  by (simp_all add: set_mutex_def)

lemma set_mutex_same: "bcache_mutex (w_bc w) = m \<Longrightarrow> set_mutex m w = w"
  by (auto simp: set_mutex_def)

lemma set_mutex_frame [simp]: "io_frame w (set_mutex m w)" "io_frame (set_mutex m w) w"
  by (simp_all add: io_frame_def set_mutex_def fd_ok_def)

lemma set_mutex_frame_iff [simp]:
  "io_frame (set_mutex m w) w' = io_frame w w'" "io_frame w (set_mutex m w') = io_frame w w'"
  by (blast intro: io_frame_trans set_mutex_frame)+

lemma set_mutex_blocks [simp]:
  "fits (set_mutex m w) b = fits w b" "dev_block (set_mutex m w) b = dev_block w b"
  "io_ready (set_mutex m w) = io_ready w" "slot_view sel (set_mutex m w) b = slot_view sel w b"
  "entry_ok sel (set_mutex m w) p e = entry_ok sel w p e" "pool_ok sel (set_mutex m w) p = pool_ok sel w p"
  "c_core sel ps (set_mutex m w) = c_core sel ps w"
  "calm (set_mutex m w) w' = calm w w'" "calm w (set_mutex m w') = calm w w'"
  "same_views sel (set_mutex m w) w' = same_views sel w w'"
  "same_views sel w (set_mutex m w') = same_views sel w w'"
proof -
  have ent: "entry_ok sel (set_mutex m w) p e = entry_ok sel w p e" for p e
    by (simp add: entry_ok_def fits_def dev_block_def)
  have pol: "pool_ok sel (set_mutex m w) p = pool_ok sel w p" for p
    unfolding pool_ok_def set_mutex_simps list_all_iff ent ..
  show "entry_ok sel (set_mutex m w) p e = entry_ok sel w p e" by (rule ent)
  show "pool_ok sel (set_mutex m w) p = pool_ok sel w p" by (rule pol)
  show "c_core sel ps (set_mutex m w) = c_core sel ps w"
    by (simp add: c_core_def list_all_iff pol io_ready_def fd_ok_def)
qed (simp_all add: fits_def dev_block_def io_ready_def fd_ok_def slot_view_def calm_def os_ok_def
    young_def same_views_def cong: option.case_cong)

text \<open>Running a routine under the lock: a thread that does not hold the mutex gets it and gives
  it back, whatever the routine returns.\<close>

lemma wp_locked:
  assumes free: "bcache_mutex (w_bc w) \<noteq> Some True"
    and body: "wp m (\<lambda>r w'. lock_same (set_mutex M w) w' \<and> Q r (set_mutex (bcache_mutex (w_bc w)) w'))
      (set_mutex M w)"
    and M: "M = map_option (\<lambda>_. True) (bcache_mutex (w_bc w))"
  shows "wp (bind bcache_lock (\<lambda>_. ensuring m bcache_unlock)) Q w"
proof (cases "bcache_mutex (w_bc w)")
  case None
  then have "wp m (\<lambda>r w'. bcache_mutex (w_bc w') = None \<and> Q r w') w"
    using body M by (auto simp: lock_same_def set_mutex_same elim!: wp_mono)
  then show ?thesis
    using None by (auto simp: bcache_lock_def bcache_unlock_def mofs_mutex_lock_def
        mofs_mutex_unlock_def wp_simps elim!: wp_mono)
next
  case (Some h)
  then have h: "bcache_mutex (w_bc w) = Some False" using free by (cases h) auto
  then have "wp m (\<lambda>r w'. bcache_mutex (w_bc w') = Some True \<and> Q r (set_mutex (Some False) w')) (set_mutex (Some True) w)"
    using body M by (auto simp: lock_same_def elim!: wp_mono)
  then show ?thesis
    using h by (auto simp: bcache_lock_def bcache_unlock_def mofs_mutex_lock_def
        mofs_mutex_unlock_def wp_simps set_mutex_def [symmetric] elim!: wp_mono)
qed

section \<open>The laws\<close>

lemma c_inv_core: "c_inv sel ps w \<Longrightarrow> bcache_ready (w_bc w) \<Longrightarrow> c_core sel ps w"
  by (simp add: c_inv_def c_core_def)

lemma c_inv_free: "c_inv sel ps w \<Longrightarrow> bcache_mutex (w_bc w) \<noteq> Some True"
  by (simp add: c_inv_def)

lemma c_inv_locked:
  assumes "bcache_ready (w_bc w)" and "c_inv sel ps w" and "cache_step sel ps (set_mutex M w) w'"
  shows "c_inv sel ps (set_mutex (bcache_mutex (w_bc w)) w')" and "io_frame w w'"
    and "bcache_ready (w_bc w')"
  using assms by (auto simp: c_inv_def c_core_def cache_step_def lock_same_def list_all_iff)

text \<open>A request of \<open>n\<close> blocks delivers the view of every block it reports.\<close>

lemma wp_cached_read_blocks:
  assumes inv: "c_inv sel ps w" and rdy: "bcache_ready (w_bc w)" and sel: "sel_in sel ps"
    and room: "unat n * blksz w \<le> length buf"
  shows "wp (cached_read_blocks sel (dev_fd w) buf n start) (\<lambda>r w'.
      c_inv sel ps w' \<and> io_frame w w' \<and> bcache_ready (w_bc w') \<and> same_views sel w w' \<and>
      (case r of Inl _ \<Rightarrow> \<not> (calm w w' \<and> (\<forall>k<unat n. fits w (nth_blk start k)))
       | Inr res \<Rightarrow> cread_result sel w start 0 (unat n) buf res w')) w"
proof -
  let ?M = "map_option (\<lambda>_. True) (bcache_mutex (w_bc w))"
  let ?w = "set_mutex ?M w"
  have fd: "0 \<le> dev_fd w" "sb_blk_size (sp_blk w) \<noteq> 0" and core: "c_core sel ps ?w"
    using inv c_inv_core [OF inv rdy] by (auto simp: c_inv_def io_ready_def fd_ok_def)
  have "wp (cached_read_loop sel (blksz ?w) (unat n) 0 start buf) (\<lambda>r w'.
      cache_step sel ps ?w w' \<and> same_views sel ?w w' \<and>
      (case r of Inl _ \<Rightarrow> \<not> (calm ?w w' \<and> (\<forall>k<unat n. fits ?w (nth_blk start (0 + k))))
       | Inr res \<Rightarrow> cread_result sel ?w start 0 (unat n) buf res w')) ?w"
    by (rule wp_cached_read_loop [OF core sel]) (use room in simp)
  then have "wp (bind bcache_lock (\<lambda>_.
      ensuring (cached_read_loop sel (blksz w) (unat n) 0 start buf) bcache_unlock)) (\<lambda>r w'.
      c_inv sel ps w' \<and> io_frame w w' \<and> bcache_ready (w_bc w') \<and> same_views sel w w' \<and>
      (case r of Inl _ \<Rightarrow> \<not> (calm w w' \<and> (\<forall>k<unat n. fits w (nth_blk start k)))
       | Inr res \<Rightarrow> cread_result sel w start 0 (unat n) buf res w')) w"
  proof (intro wp_locked [OF c_inv_free [OF inv] _ refl], simp only: set_mutex_simps, elim wp_mono, goal_cases)
    case (1 r w')
    then show ?case
      using c_inv_locked [OF rdy inv, of ?M w']
      by (auto simp: cache_step_def cread_result_def split: sum.splits)
  qed
  then show ?thesis
    using fd rdy by (simp add: cached_read_blocks_def wp_bind [of "throw_if _ _"] wp_bind [of mofs_io_blk_sz]
        wp_bind [of "gets _"] wp_throw_if wp_mofs_io_blk_sz wp_gets)
qed

lemma cread_result_1:
  assumes "length buf = blksz w" and "cread_result sel w b 0 1 buf (buf', cnt, frac) w'"
  shows "length buf' = blksz w \<and>
    (cnt = 1 \<and> frac = 0 \<and> fits w b \<and> buf' = slot_view sel w b \<or>
     cnt = 0 \<and> unat frac < blksz w \<and> \<not> (calm w w' \<and> fits w b))"
proof -
  have b: "nth_blk b 0 = b" by (simp add: nth_blk_def)
  obtain m where m: "m \<le> 1" "cnt = word_of_nat m" "unat frac < blksz w" "m = 1 \<longrightarrow> frac = 0"
    "length buf' = length buf"
    "\<forall>k<m. fits w (nth_blk b k) \<and> chunk (k * blksz w) (blksz w) buf' = slot_view sel w (nth_blk b k)"
    "m < 1 \<longrightarrow> \<not> (calm w w' \<and> (\<forall>k<1. fits w (nth_blk b k)))"
    using assms(2) by (simp only: cread_result_def prod.case add_0) blast
  show ?thesis
  proof (cases "m = 0")
    case True
    then show ?thesis using m assms(1) b by simp
  next
    case False
    then have "m = 1" using m(1) by simp
    then show ?thesis using m assms(1) b by auto
  qed
qed

text \<open>While the cache is not ready the view of a block is the block of the device.\<close>

lemma c_inv_frame_unready:
  assumes "c_inv sel ps w" and "\<not> bcache_ready (w_bc w)" and "io_frame w w'" and "same_caches w w'"
  shows "c_inv sel ps w'" and "\<not> bcache_ready (w_bc w')"
  using assms io_ready_frame [OF assms(3)] by (auto simp: c_inv_def same_caches_def)

lemma cached_read_1:
  assumes inv: "c_inv sel ps w" and sel: "sel_in sel ps" and len: "length buf = blksz w"
  shows "wp (cached_read_blocks sel (dev_fd w) buf 1 b) (\<lambda>r w'.
      c_inv sel ps w' \<and> bcache_ready (w_bc w') = bcache_ready (w_bc w) \<and> io_frame w w' \<and>
      (\<forall>c. fits w c \<longrightarrow> c_view sel w' c = c_view sel w c) \<and>
      (case r of Inl _ \<Rightarrow> \<not> (calm w w' \<and> fits w b)
       | Inr (buf', cnt, frac) \<Rightarrow> length buf' = blksz w \<and>
           (cnt = 1 \<and> frac = 0 \<and> fits w b \<and> buf' = c_view sel w b \<or>
            cnt = 0 \<and> unat frac < blksz w \<and> \<not> (calm w w' \<and> fits w b)))) w"
proof (cases "bcache_ready (w_bc w)")
  case True
  have room: "unat (1 :: u32) * blksz w \<le> length buf" using len by simp
  have one: "unat (1 :: u32) = 1" by simp
  have b: "nth_blk b 0 = b" by (simp add: nth_blk_def)
  show ?thesis
  proof (rule wp_mono [OF wp_cached_read_blocks [OF inv True sel room, unfolded one]], goal_cases)
    case (1 r w')
    have res: "length buf' = blksz w \<and>
        (cnt = 1 \<and> frac = 0 \<and> fits w b \<and> buf' = slot_view sel w b \<or>
         cnt = 0 \<and> unat frac < blksz w \<and> \<not> (calm w w' \<and> fits w b))" if "r = Inr (buf', cnt, frac)" for buf' cnt frac
      using 1 that by (intro cread_result_1 [OF len]) simp
    show ?case
    proof (cases r)
      case (Inl e)
      then show ?thesis using 1 True b by (auto simp: c_view_def same_views_def)
    next
      case (Inr x)
      obtain buf' cnt frac where "x = (buf', cnt, frac)" by (cases x)
      then show ?thesis using 1 True Inr res [of buf' cnt frac] by (auto simp: c_view_def same_views_def)
    qed
  qed
next
  case False
  have rdy: "io_ready w" and fd: "0 \<le> dev_fd w" "sb_blk_size (sp_blk w) \<noteq> 0"
    using inv by (auto simp: c_inv_def io_ready_def fd_ok_def)
  have "wp (read_continuous_blocks_raw (dev_fd w) buf 1 b) (\<lambda>r w'.
      c_inv sel ps w' \<and> bcache_ready (w_bc w') = bcache_ready (w_bc w) \<and> io_frame w w' \<and> (\<forall>c. fits w c \<longrightarrow> c_view sel w' c = c_view sel w c) \<and>
      (case r of Inl _ \<Rightarrow> \<not> (calm w w' \<and> fits w b)
       | Inr (buf', cnt, frac) \<Rightarrow> length buf' = blksz w \<and>
           (cnt = 1 \<and> frac = 0 \<and> fits w b \<and> buf' = c_view sel w b \<or>
            cnt = 0 \<and> unat frac < blksz w \<and> \<not> (calm w w' \<and> fits w b)))) w"
  proof (rule wp_mono [OF wp_read_raw_1 [OF rdy len]], goal_cases)
    case (1 r w')
    then show ?case
      using c_inv_frame_unready [OF inv False, of w'] dev_block_cong [of w w'] False
      by (auto simp: c_view_def calm_def split: sum.splits)
  qed
  then show ?thesis
    using fd False by (simp add: cached_read_blocks_def wp_bind wp_throw_if wp_mofs_io_blk_sz wp_gets)
qed

lemma cached_write_1:
  assumes inv: "c_inv sel ps w" and sel: "sel_in sel ps" and len: "length src = blksz w" and fit: "fits w b"
  shows "wp (cached_write_blocks sel (dev_fd w) src 1 b) (\<lambda>r w'.
      c_inv sel ps w' \<and> bcache_ready (w_bc w') = bcache_ready (w_bc w) \<and> io_frame w w' \<and>
      (\<forall>c. fits w c \<longrightarrow> c \<noteq> b \<longrightarrow> c_view sel w' c = c_view sel w c) \<and>
      (r = Inr (1, 0) \<longrightarrow> c_view sel w' b = src) \<and> (calm w w' \<longrightarrow> r = Inr (1, 0)) \<and>
      torn src (c_view sel w b) (c_view sel w' b)) w"
proof (cases "bcache_ready (w_bc w)")
  case True
  let ?M = "map_option (\<lambda>_. True) (bcache_mutex (w_bc w))"
  let ?w = "set_mutex ?M w"
  have fd: "0 \<le> dev_fd w" "sb_blk_size (sp_blk w) \<noteq> 0" and core: "c_core sel ps ?w"
    using inv c_inv_core [OF inv True] by (auto simp: c_inv_def io_ready_def fd_ok_def)
  have "wp (bind bcache_lock (\<lambda>_.
      ensuring (cached_write_loop sel (blksz w) 1 0 b src) bcache_unlock)) (\<lambda>r w'.
      c_inv sel ps w' \<and> bcache_ready (w_bc w') = bcache_ready (w_bc w) \<and> io_frame w w' \<and> (\<forall>c. fits w c \<longrightarrow> c \<noteq> b \<longrightarrow> c_view sel w' c = c_view sel w c) \<and>
      (r = Inr (1, 0) \<longrightarrow> c_view sel w' b = src) \<and> (calm w w' \<longrightarrow> r = Inr (1, 0)) \<and>
      torn src (c_view sel w b) (c_view sel w' b)) w"
  proof (rule wp_locked [OF c_inv_free [OF inv] _ refl])
    have whole: "torn src (slot_view sel w b) src"
      using len slot_view_length [OF c_inv_core [OF inv True], of b] fit sel by (intro torn_all) (simp add: sel_in_def)
    have b: "nth_blk b 0 = b" and src: "chunk 0 (blksz w) src = src" using len by (simp_all add: nth_blk_def)
    have "wp (cached_write_one sel b src) (\<lambda>r w'.
      cache_step sel ps ?w w' \<and> length (dv_data (w_dev w')) = length (dv_data (w_dev ?w)) \<and>
      (\<forall>c. fits ?w c \<longrightarrow> c \<noteq> b \<longrightarrow> slot_view sel w' c = slot_view sel ?w c) \<and>
      (case r of Inl _ \<Rightarrow> \<not> calm ?w w' \<and> slot_view sel w' b = slot_view sel ?w b
       | Inr _ \<Rightarrow> slot_view sel w' b = src)) ?w"
      using len fit by (intro wp_cached_write_one [OF core sel]) simp_all
    then show "wp (cached_write_loop sel (blksz w) 1 0 b src) (\<lambda>r w'. lock_same ?w w' \<and>
       (c_inv sel ps (set_mutex (bcache_mutex (w_bc w)) w') \<and>
        bcache_ready (w_bc (set_mutex (bcache_mutex (w_bc w)) w')) = bcache_ready (w_bc w) \<and>
        io_frame w (set_mutex (bcache_mutex (w_bc w)) w') \<and>
        (\<forall>c. fits w c \<longrightarrow> c \<noteq> b \<longrightarrow> c_view sel (set_mutex (bcache_mutex (w_bc w)) w') c = c_view sel w c) \<and>
        (r = Inr (1, 0) \<longrightarrow> c_view sel (set_mutex (bcache_mutex (w_bc w)) w') b = src) \<and>
        (calm w (set_mutex (bcache_mutex (w_bc w)) w') \<longrightarrow> r = Inr (1, 0)) \<and>
        torn src (c_view sel w b) (c_view sel (set_mutex (bcache_mutex (w_bc w)) w') b))) ?w"
      unfolding One_nat_def cached_write_loop.simps wp_bind b mult_0 src
    proof (rule wp_mono, goal_cases)
      case (1 r w')
      then show ?case using c_inv_locked [OF True inv, of ?M w'] True whole
        by (auto simp: wp_simps cache_step_def c_view_def split: sum.splits)
    qed
  qed
  then show ?thesis
    using fd True by (simp add: cached_write_blocks_def wp_bind [of "throw_if _ _"] wp_bind [of mofs_io_blk_sz]
        wp_bind [of "gets _"] wp_throw_if wp_mofs_io_blk_sz wp_gets)
next
  case False
  have rdy: "io_ready w" and fd: "0 \<le> dev_fd w" "sb_blk_size (sp_blk w) \<noteq> 0"
    using inv by (auto simp: c_inv_def io_ready_def fd_ok_def)
  have "wp (write_continuous_blocks_raw (dev_fd w) src 1 b) (\<lambda>r w'.
      c_inv sel ps w' \<and> bcache_ready (w_bc w') = bcache_ready (w_bc w) \<and> io_frame w w' \<and> (\<forall>c. fits w c \<longrightarrow> c \<noteq> b \<longrightarrow> c_view sel w' c = c_view sel w c) \<and>
      (r = Inr (1, 0) \<longrightarrow> c_view sel w' b = src) \<and> (calm w w' \<longrightarrow> r = Inr (1, 0)) \<and>
      torn src (c_view sel w b) (c_view sel w' b)) w"
  proof (rule wp_mono [OF wp_write_raw_1 [OF rdy len]], goal_cases)
    case (1 r w')
    then obtain t where t: "t \<le> blksz w"
      "dv_data (w_dev w') = write_at (unat b * blksz w) (take t src) (dv_data (w_dev w))" by blast
    have frame: "io_frame w w'" "same_caches w w'" using 1 by auto
    have "dev_block w' c = dev_block w c" if "fits w c" "c \<noteq> b" for c
      using dev_block_write_other [OF that _ frame(1) t(2)] t(1) by simp
    moreover have "dev_block w' b = src" if "r = Inr (1, 0)"
      using dev_block_write_same [OF fit len frame(1)] 1 that by simp
    moreover have "torn src (dev_block w b) (dev_block w' b)"
      using dev_block_write_part [OF fit _ frame(1) t(2)] t(1) by (auto simp: torn_def)
    ultimately show ?case
      using c_inv_frame_unready [OF inv False frame] 1 False fit by (auto simp: c_view_def calm_def)
  qed
  then show ?thesis
    using fd False by (simp add: cached_write_blocks_def wp_bind wp_throw_if wp_mofs_io_blk_sz wp_gets)
qed

lemma cached_read_law:
  assumes "c_inv sel ps w" and "sel_in sel ps" and "length buf = blksz w"
  shows "wp (cached_read_blocks sel (dev_fd w) buf 1 b) (\<lambda>r w'.
      c_inv sel ps w' \<and> bcache_ready (w_bc w') = bcache_ready (w_bc w) \<and> io_frame w w' \<and>
      rd_post (c_view sel w) (c_view sel w') w b r w') w"
  unfolding rd_post_def by (rule cached_read_1 [OF assms])

lemma cached_write_law:
  assumes "c_inv sel ps w" and "sel_in sel ps" and "length src = blksz w" and "fits w b"
  shows "wp (cached_write_blocks sel (dev_fd w) src 1 b) (\<lambda>r w'.
      c_inv sel ps w' \<and> bcache_ready (w_bc w') = bcache_ready (w_bc w) \<and> io_frame w w' \<and>
      wr_post (c_view sel w) (c_view sel w') w b src r w') w"
  unfolding wr_post_def by (rule cached_write_1 [OF assms])

text \<open>Patching a block in place.\<close>

lemma wp_patch_slot:
  assumes core: "c_core sel ps w" and sel: "sel_in sel ps" and p: "p \<in> set ps"
    and idx: "idx < length (pool_at p w)" and holds: "holds_block b (pool_at p w ! idx)"
    and room: "off + length patch \<le> blksz w"
  shows "wp (bind (upd_entry p idx (\<lambda>e. e\<lparr>e_data := overwrite off patch (e_data e), e_dirty := True\<rparr>)) (\<lambda>_.
        pool_touch p idx)) (\<lambda>r w'. r = Inr () \<and> cache_step sel ps w w' \<and>
      length (dv_data (w_dev w')) = length (dv_data (w_dev w)) \<and>
      (\<forall>c. fits w c \<longrightarrow> slot_view sel w' c =
         (if c = b then overwrite off patch (slot_view sel w b) else slot_view sel w c))) w"
proof -
  let ?d = "overwrite off patch (e_data (pool_at p w ! idx))"
  have old: "slot_view sel w b = e_data (pool_at p w ! idx)"
    using slot_view_hit [OF c_core_pool [OF core p] idx holds] .
  have len: "length ?d = blksz w"
    using pool_ok_entry [OF c_core_pool [OF core p] idx] room by (simp add: entry_ok_def)
  note ow = overwrite_slot [OF core sel p idx holds len]
  let ?w = "put_slot p idx ((pool_at p w ! idx)\<lparr>e_data := ?d, e_dirty := True\<rparr>) w"
  have idx2: "idx < length (pool_at p ?w)" using idx by simp
  note t = touched_step [OF ow(1) sel p idx2]
  show ?thesis
    using t ow(2) old cache_step_trans [OF put_slot_step [OF ow(1)] t(1)]
    by (simp add: wp_simps same_views_def)
qed

lemma wp_pool_load_block:
  assumes core: "c_core sel ps w" and sel: "sel_in sel ps" and p: "p = sel (sp_blk w) b"
    and absent: "\<forall>e\<in>set (pool_at p w). \<not> holds_block b e"
  shows "wp (pool_load_block p b) (\<lambda>r w'. cache_step sel ps w w' \<and> same_views sel w w' \<and>
      (case r of Inl _ \<Rightarrow> \<not> (calm w w' \<and> fits w b)
       | Inr idx \<Rightarrow> idx < length (pool_at p w') \<and> holds_block b (pool_at p w' ! idx))) w"
  unfolding pool_load_block_def
proof (rule wp_load_slot [OF core sel p absent], goal_cases)
  case (1 e w')
  then show ?case by simp
next
  case (2 idx frac w')
  then show ?case by (simp add: wp_simps)
next
  case (3 idx w')
  have frame: "io_frame w w'" and core': "c_core sel ps w'" using 3(1) by (simp_all add: cache_step_def)
  have ctx: "w_ctx w' = w_ctx w" using frame by (rule io_frame_ctx)
  let ?e = "(pool_at p w' ! idx)\<lparr>e_blk_num := b, e_valid := True, e_dirty := False\<rparr>"
  have p': "p = sel (sp_blk w') b" using p ctx by simp
  have fit': "fits w' b" using fits_frame [OF frame 3(3)] .
  note fill = fill_slot [OF core' sel 3(4) p' 3(5,6) fit', of "dev_block w' b" False ?e]
  have core1: "c_core sel ps (put_slot p idx ?e w')" using fill(1) 3(7) fit' by simp
  have miss: "slot_view sel w' b = dev_block w' b"
    using slot_view_miss [where w = w' and b = b and sel = sel] 3(6) p' by simp
  have "slot_view sel (put_slot p idx ?e w') c = slot_view sel w' c" for c
    using fill(2) [of c] 3(7) fit' miss by simp
  then have "same_views sel w (put_slot p idx ?e w')" using 3(2) by (simp add: same_views_def)
  then show ?case
    using cache_step_trans [OF 3(1) put_slot_step [OF core1]] 3(4) by (simp add: wp_simps holds_block_def)
qed

text \<open>The range check on words is the check on numbers: block sizes are too small to wrap.\<close>

lemma patch_guard:
  fixes blk off len :: u32
  assumes "unat blk \<le> 65536"
  shows "blk < off \<or> blk < len \<or> blk < off + len \<longleftrightarrow> unat blk < unat off + unat len"
proof (cases "unat off + unat len \<le> 131072")
  case True
  then have "unat (off + len) = unat off + unat len" by (simp add: unat_word_ariths)
  then show ?thesis by (auto simp: word_less_nat_alt)
next
  case False
  then show ?thesis using assms by (auto simp: word_less_nat_alt)
qed

lemma wp_modify_body:
  assumes core: "c_core sel ps w" and sel: "sel_in sel ps" and fit: "fits w b" and p: "p = sel (sp_blk w) b"
    and room: "off + length patch \<le> blksz w"
  shows "wp (bind (pool_find p b) (\<lambda>found.
         bind (case found of Some idx \<Rightarrow> ret idx | None \<Rightarrow> pool_load_block p b) (\<lambda>idx.
         bind (upd_entry p idx (\<lambda>e. e\<lparr>e_data := overwrite off patch (e_data e), e_dirty := True\<rparr>)) (\<lambda>_.
         pool_touch p idx)))) (\<lambda>r w'. cache_step sel ps w w' \<and>
      (\<forall>c. fits w c \<longrightarrow> c \<noteq> b \<longrightarrow> slot_view sel w' c = slot_view sel w c) \<and>
      (case r of Inl _ \<Rightarrow> slot_view sel w' b = slot_view sel w b \<and> \<not> calm w w'
       | Inr _ \<Rightarrow> slot_view sel w' b = overwrite off patch (slot_view sel w b))) w"
proof -
  have pin: "p \<in> set ps" using sel p by (simp add: sel_in_def)
  show ?thesis
    unfolding wp_bind [of "pool_find _ _"]
  proof (rule wp_pool_find, goal_cases)
    case (1 idx)
    have "wp (bind (upd_entry p idx (\<lambda>e. e\<lparr>e_data := overwrite off patch (e_data e), e_dirty := True\<rparr>)) (\<lambda>_.
         pool_touch p idx)) (\<lambda>r w'. cache_step sel ps w w' \<and>
      (\<forall>c. fits w c \<longrightarrow> c \<noteq> b \<longrightarrow> slot_view sel w' c = slot_view sel w c) \<and>
      (case r of Inl _ \<Rightarrow> slot_view sel w' b = slot_view sel w b \<and> \<not> calm w w'
       | Inr _ \<Rightarrow> slot_view sel w' b = overwrite off patch (slot_view sel w b))) w"
      by (rule wp_mono [OF wp_patch_slot [OF core sel pin 1 room]]) (use fit in auto)
    then show ?case by (simp add: wp_simps)
  next
    case 2
    show ?case unfolding sum.case option.case
    proof (rule wp_bind_rule [OF wp_pool_load_block [OF core sel p 2]], goal_cases)
      case (1 e w')
      then show ?case using fit by (auto simp: same_views_def)
    next
      case (2 idx w1)
      then have w1: "cache_step sel ps w w1" "same_views sel w w1" "idx < length (pool_at p w1)"
        "holds_block b (pool_at p w1 ! idx)" by auto
      have frame: "io_frame w w1" and core1: "c_core sel ps w1" using w1(1) by (simp_all add: cache_step_def)
      have room1: "off + length patch \<le> blksz w1" using room io_frame_ctx [OF frame] by simp
      show ?case
        by (rule wp_mono [OF wp_patch_slot [OF core1 sel pin w1(3,4) room1]])
          (use fit fits_frame [OF frame] w1(2) cache_step_trans [OF w1(1)] in \<open>auto simp: same_views_def\<close>)
    qed
  qed
qed

lemma cached_modify_law:
  assumes inv: "c_inv sel ps w" and sel: "sel_in sel ps" and fit: "fits w b" and plen: "length patch < 2 ^ 32"
  shows "wp (cached_modify_block sel b off patch) (\<lambda>r w'.
      c_inv sel ps w' \<and> bcache_ready (w_bc w') = bcache_ready (w_bc w) \<and> io_frame w w' \<and> (\<forall>c. fits w c \<longrightarrow> c \<noteq> b \<longrightarrow> c_view sel w' c = c_view sel w c) \<and>
      (case r of Inl e \<Rightarrow> c_view sel w' b = c_view sel w b \<and> (calm w w' \<longrightarrow> e = MOFS_EINVAL) \<and>
           \<not> (patch \<noteq> [] \<and> bcache_ready (w_bc w) \<and> unat off + length patch \<le> blksz w \<and> calm w w')
       | Inr _ \<Rightarrow> unat off + length patch \<le> blksz w \<and>
           c_view sel w' b = overwrite (unat off) patch (c_view sel w b))) w"
proof -
  let ?len = "word_of_nat (length patch) :: u32"
  have len: "unat ?len = length patch" using plen by (simp add: unat_of_nat take_bit_nat_eq_self)
  have nz: "?len = 0 \<longleftrightarrow> patch = []" unfolding word_unat_eq_iff len by simp
  have blk: "blksz w \<le> 65536" "sb_blk_size (sp_blk w) \<noteq> 0" using inv by (auto simp: c_inv_def io_ready_def)
  note guard = patch_guard [OF blk(1), of off ?len, unfolded len]
  show ?thesis
  proof (cases "patch \<noteq> [] \<and> bcache_ready (w_bc w) \<and> unat off + length patch \<le> blksz w")
    case False
    then have "?len = 0 \<or> \<not> bcache_ready (w_bc w) \<or> (sb_blk_size (sp_blk w) < off \<or>
        sb_blk_size (sp_blk w) < ?len \<or> sb_blk_size (sp_blk w) < off + ?len)"
      unfolding nz guard by auto
    then show ?thesis using inv False
      by (elim disjE) (simp_all add: cached_modify_block_def wp_bind wp_throw_if wp_gets
          wp_mofs_io_blk_sz wp_throw Let_def, blast+)
  next
    case True
    let ?M = "map_option (\<lambda>_. True) (bcache_mutex (w_bc w))"
    let ?w = "set_mutex ?M w" and ?p = "sel (sp_blk w) b"
    have core: "c_core sel ps ?w" using c_inv_core [OF inv] True by simp
    have "wp (bind bcache_lock (\<lambda>_. ensuring
        (bind (pool_find ?p b) (\<lambda>found.
         bind (case found of Some idx \<Rightarrow> ret idx | None \<Rightarrow> pool_load_block ?p b) (\<lambda>idx.
         bind (upd_entry ?p idx (\<lambda>e. e\<lparr>e_data := overwrite (unat off) patch (e_data e),
                                      e_dirty := True\<rparr>)) (\<lambda>_.
         pool_touch ?p idx)))) bcache_unlock)) (\<lambda>r w'.
      c_inv sel ps w' \<and> bcache_ready (w_bc w') = bcache_ready (w_bc w) \<and> io_frame w w' \<and> (\<forall>c. fits w c \<longrightarrow> c \<noteq> b \<longrightarrow> c_view sel w' c = c_view sel w c) \<and>
      (case r of Inl _ \<Rightarrow> c_view sel w' b = c_view sel w b \<and> \<not> calm w w'
       | Inr _ \<Rightarrow> c_view sel w' b = overwrite (unat off) patch (c_view sel w b))) w"
    proof (intro wp_locked [OF c_inv_free [OF inv] _ refl],
        rule wp_mono [OF wp_modify_body [OF core sel]], goal_cases)
      case (4 r w')
      then show ?case using c_inv_locked [OF _ inv, of ?M w'] True
        by (auto simp: cache_step_def c_view_def split: sum.splits)
    qed (use fit True in simp_all)
    then have body: "wp (bind bcache_lock (\<lambda>_. ensuring
        (bind (pool_find ?p b) (\<lambda>found.
         bind (case found of Some idx \<Rightarrow> ret idx | None \<Rightarrow> pool_load_block ?p b) (\<lambda>idx.
         bind (upd_entry ?p idx (\<lambda>e. e\<lparr>e_data := overwrite (unat off) patch (e_data e),
                                      e_dirty := True\<rparr>)) (\<lambda>_.
         pool_touch ?p idx)))) bcache_unlock)) (\<lambda>r w'.
      c_inv sel ps w' \<and> bcache_ready (w_bc w') = bcache_ready (w_bc w) \<and> io_frame w w' \<and> (\<forall>c. fits w c \<longrightarrow> c \<noteq> b \<longrightarrow> c_view sel w' c = c_view sel w c) \<and>
      (case r of Inl e \<Rightarrow> c_view sel w' b = c_view sel w b \<and> (calm w w' \<longrightarrow> e = MOFS_EINVAL) \<and>
           \<not> (patch \<noteq> [] \<and> bcache_ready (w_bc w) \<and> unat off + length patch \<le> blksz w \<and> calm w w')
       | Inr _ \<Rightarrow> unat off + length patch \<le> blksz w \<and>
           c_view sel w' b = overwrite (unat off) patch (c_view sel w b))) w"
      by (rule wp_mono) (use True in \<open>simp split: sum.splits\<close>)
    have "?len \<noteq> 0" "bcache_ready (w_bc w)" "\<not> (sb_blk_size (sp_blk w) < off \<or>
        sb_blk_size (sp_blk w) < ?len \<or> sb_blk_size (sp_blk w) < off + ?len)"
      unfolding nz guard using True by auto
    then show ?thesis
      using body blk(2)
      by (simp add: cached_modify_block_def Let_def wp_bind [of "throw_if _ _"] wp_bind [of mofs_io_blk_sz]
        wp_bind [of "gets _"] wp_throw_if wp_mofs_io_blk_sz wp_gets)
  qed
qed

text \<open>Dropping a block: only its own view changes, to the content of the device.\<close>

lemma cached_invalidate_law:
  assumes inv: "c_inv sel ps w" and sel: "sel_in sel ps" and p: "p \<in> set ps"
  shows "wp (cached_invalidate p b) (\<lambda>r w'. r = Inr () \<and> c_inv sel ps w' \<and> bcache_ready (w_bc w') = bcache_ready (w_bc w) \<and> io_frame w w' \<and>
      w_dev w' = w_dev w \<and> (\<forall>c. c \<noteq> b \<longrightarrow> c_view sel w' c = c_view sel w c) \<and>
      (c_view sel w' b = c_view sel w b \<or> c_view sel w' b = dev_block w b) \<and>
      (sel (sp_blk w) b = p \<longrightarrow> c_view sel w' b = dev_block w b)) w"
proof (cases "bcache_ready (w_bc w)")
  case False
  then show ?thesis using inv by (simp add: cached_invalidate_def wp_simps c_view_def)
next
  case True
  let ?M = "map_option (\<lambda>_. True) (bcache_mutex (w_bc w))"
  let ?w = "set_mutex ?M w"
  have core: "c_core sel ps ?w" using c_inv_core [OF inv True] by simp
  let ?body = "bind (pool_find p b) (\<lambda>found. case found of None \<Rightarrow> ret ()
         | Some idx \<Rightarrow> upd_entry p idx (\<lambda>e. e\<lparr>e_valid := False, e_dirty := False\<rparr>))"
  have body: "wp ?body (\<lambda>r w'. r = Inr () \<and> cache_step sel ps ?w w' \<and> w_dev w' = w_dev w \<and>
      (\<forall>c. c \<noteq> b \<longrightarrow> slot_view sel w' c = slot_view sel w c) \<and>
      (slot_view sel w' b = slot_view sel w b \<or> slot_view sel w' b = dev_block w b) \<and>
      (sel (sp_blk w) b = p \<longrightarrow> slot_view sel w' b = dev_block w b)) ?w"
    unfolding wp_bind [of "pool_find _ _"]
  proof (rule wp_pool_find, goal_cases)
    case (1 idx)
    let ?e = "(pool_at p ?w ! idx)\<lparr>e_valid := False, e_dirty := False\<rparr>"
    have core': "c_core sel ps (put_slot p idx ?e ?w)"
      by (rule put_slot_core [OF core p 1(1)])
        (use pool_ok_entry [OF c_core_pool [OF core p] 1(1)] in \<open>auto simp: entry_ok_def\<close>)
    have "slot_view sel (put_slot p idx ?e ?w) c =
        (if c = b then dev_block w b else slot_view sel w c)" for c
      using put_slot_view [OF core p 1(1) core', where b = c] sel 1(2)
      by (auto simp: holds_block_def sel_in_def)
    then show ?case using put_slot_step [OF core'] by (simp add: wp_simps)
  next
    case 2
    then have "sel (sp_blk w) b = p \<Longrightarrow> slot_view sel w b = dev_block w b"
      using slot_view_miss [where w = w and b = b and sel = sel] by simp
    then show ?case using cache_step_refl [OF core] by (simp add: wp_simps)
  qed
  have "wp (bind bcache_lock (\<lambda>_. ensuring ?body bcache_unlock)) (\<lambda>r w'. r = Inr () \<and>
      c_inv sel ps w' \<and> bcache_ready (w_bc w') = bcache_ready (w_bc w) \<and> io_frame w w' \<and>
      w_dev w' = w_dev w \<and> (\<forall>c. c \<noteq> b \<longrightarrow> c_view sel w' c = c_view sel w c) \<and>
      (c_view sel w' b = c_view sel w b \<or> c_view sel w' b = dev_block w b) \<and>
      (sel (sp_blk w) b = p \<longrightarrow> c_view sel w' b = dev_block w b)) w"
  proof (intro wp_locked [OF c_inv_free [OF inv] _ refl], rule wp_mono [OF body], goal_cases)
    case (1 r w')
    then show ?case using c_inv_locked [OF True inv, of ?M w'] True
      by (auto simp: cache_step_def c_view_def)
  qed
  then show ?thesis
    using True by (simp add: cached_invalidate_def wp_bind [of "gets _"] wp_gets)
qed

section \<open>Flush\<close>

definition clean_pool :: "pool_id \<Rightarrow> world \<Rightarrow> bool" where
  "clean_pool p w = list_all (\<lambda>e. \<not> (e_valid e \<and> e_dirty e)) (pool_at p w)"

lemma wp_pool_flush_loop:
  assumes "c_core sel ps w" and sel: "sel_in sel ps" and p: "p \<in> set ps"
    and "i + n = length (pool_at p w)" and "\<forall>j<i. \<not> (e_valid (pool_at p w ! j) \<and> e_dirty (pool_at p w ! j))"
  shows "wp (pool_flush_loop p n i) (\<lambda>r w'. cache_step sel ps w w' \<and> same_views sel w w' \<and>
      (\<forall>q. q \<noteq> p \<longrightarrow> pool_at q w' = pool_at q w) \<and>
      (case r of Inl _ \<Rightarrow> \<not> os_ok w | Inr _ \<Rightarrow> clean_pool p w')) w"
  using assms(1,4,5)
proof (induction n arbitrary: w i)
  case 0
  then show ?case by (auto simp: wp_simps cache_step_refl clean_pool_def list_all_length)
next
  case (Suc n)
  let ?e = "pool_at p w ! i"
  have i: "i < length (pool_at p w)" using Suc.prems(2) by simp
  have first: "wp (if e_valid ?e \<and> e_dirty ?e then pool_flush_entry p i else ret ()) (\<lambda>r w'.
      cache_step sel ps w w' \<and> same_views sel w w' \<and> (\<forall>q. q \<noteq> p \<longrightarrow> pool_at q w' = pool_at q w) \<and>
      (case r of Inl _ \<Rightarrow> \<not> os_ok w
       | Inr _ \<Rightarrow> length (pool_at p w') = length (pool_at p w) \<and>
           (\<forall>j<Suc i. \<not> (e_valid (pool_at p w' ! j) \<and> e_dirty (pool_at p w' ! j))))) w"
  proof (cases "e_valid ?e \<and> e_dirty ?e")
    case True
    then have "wp (pool_flush_entry p i) (\<lambda>r w'.
      cache_step sel ps w w' \<and> same_views sel w w' \<and> (\<forall>q. q \<noteq> p \<longrightarrow> pool_at q w' = pool_at q w) \<and>
      (case r of Inl _ \<Rightarrow> \<not> os_ok w
       | Inr _ \<Rightarrow> length (pool_at p w') = length (pool_at p w) \<and>
           (\<forall>j<Suc i. \<not> (e_valid (pool_at p w' ! j) \<and> e_dirty (pool_at p w' ! j))))) w"
    proof (intro wp_mono [OF wp_pool_flush_entry [OF Suc.prems(1) sel p i]], goal_cases)
      case (3 r w')
      then show ?case using i Suc.prems(3)
        by (cases r) (auto simp: cache_step_def lock_same_def nth_list_update less_Suc_eq)
    qed auto
    then show ?thesis using True by simp
  next
    case False
    then show ?thesis using Suc.prems by (auto simp: wp_simps cache_step_refl less_Suc_eq)
  qed
  show ?case
    unfolding pool_flush_loop.simps wp_bind [of "gets _"] wp_gets sum.case
  proof (rule wp_bind_rule [OF first], goal_cases)
    case (1 e w')
    then show ?case by auto
  next
    case (2 u w1)
    have core1: "c_core sel ps w1" and frame: "io_frame w w1" using 2 by (auto simp: cache_step_def)
    show ?case
    proof (rule wp_mono [OF Suc.IH [OF core1, of "Suc i"]], goal_cases)
      case (3 r w')
      then show ?case
        using 2 cache_step_trans [of sel ps w w1 w'] same_views_trans [of sel w w1 w'] frame
          os_ok_frame [OF frame] by (auto split: sum.splits)
    qed (use 2 Suc.prems in auto)
  qed
qed

lemma wp_flush_pools:
  assumes "c_core sel ps w" and sel: "sel_in sel ps" and "set qs \<subseteq> set ps" and "distinct (done @ qs)"
    and "\<forall>q\<in>set done. clean_pool q w"
  shows "wp (flush_pools qs) (\<lambda>r w'. cache_step sel ps w w' \<and> same_views sel w w' \<and>
      (case r of Inl _ \<Rightarrow> \<not> os_ok w | Inr _ \<Rightarrow> \<forall>q\<in>set (done @ qs). clean_pool q w')) w"
  using assms(1,3-5)
proof (induction qs arbitrary: w "done")
  case Nil
  then show ?case by (simp add: wp_simps cache_step_refl)
next
  case (Cons p qs)
  have p: "p \<in> set ps" using Cons.prems by simp
  have "wp (pool_flush_all p) (\<lambda>r w'. cache_step sel ps w w' \<and> same_views sel w w' \<and>
      (\<forall>q. q \<noteq> p \<longrightarrow> pool_at q w' = pool_at q w) \<and>
      (case r of Inl _ \<Rightarrow> \<not> os_ok w | Inr _ \<Rightarrow> clean_pool p w')) w"
    unfolding pool_flush_all_def wp_bind wp_gets sum.case
    by (rule wp_pool_flush_loop [OF Cons.prems(1) sel p]) simp_all
  then show ?case unfolding flush_pools.simps
  proof (rule wp_bind_rule, goal_cases)
    case (1 e w')
    then show ?case by auto
  next
    case (2 u w1)
    have core1: "c_core sel ps w1" and frame: "io_frame w w1" using 2 by (auto simp: cache_step_def)
    have "\<forall>q\<in>set (done @ [p]). clean_pool q w1"
      using 2 Cons.prems(3,4) by (auto simp: clean_pool_def)
    then show ?case
      using Cons.prems(2,3)
    proof (intro wp_mono [OF Cons.IH [OF core1, of "done @ [p]"]], goal_cases)
      case (4 r w')
      then show ?case
        using 2 cache_step_trans [of sel ps w w1 w'] same_views_trans [of sel w w1 w'] frame
          os_ok_frame [OF frame] by (cases r) auto
    qed auto
  qed
qed

lemma clean_view:
  assumes "c_core sel ps w" and "sel_in sel ps" and "\<forall>p\<in>set ps. clean_pool p w"
  shows "slot_view sel w b = dev_block w b"
proof (cases "first_idx (holds_block b) (pool_at (sel (sp_blk w) b) w)")
  case None
  then show ?thesis by (simp add: slot_view_def)
next
  case (Some i)
  have pin: "sel (sp_blk w) b \<in> set ps" using assms(2) by (simp add: sel_in_def)
  have i: "i < length (pool_at (sel (sp_blk w) b) w)" "holds_block b (pool_at (sel (sp_blk w) b) w ! i)"
    using first_idx_SomeD [OF Some] by simp_all
  then show ?thesis
    using Some pool_ok_entry [OF c_core_pool [OF assms(1) pin] i(1)] assms(3) pin
    by (auto simp: slot_view_def entry_ok_def holds_block_def clean_pool_def list_all_length)
qed

lemma cached_flush_law:
  assumes inv: "c_inv sel ps w" and sel: "sel_in sel ps" and rdy: "bcache_ready (w_bc w)" and "distinct ps"
  shows "wp (cached_flush ps) (\<lambda>r w'.
      c_inv sel ps w' \<and> io_frame w w' \<and> bcache_ready (w_bc w') \<and>
      (\<forall>c. fits w c \<longrightarrow> c_view sel w' c = c_view sel w c) \<and>
      (case r of Inl _ \<Rightarrow> \<not> calm w w'
       | Inr _ \<Rightarrow> (\<forall>c. fits w c \<longrightarrow> dev_block w' c = c_view sel w c) \<and>
           dv_stable (w_dev w') = dv_data (w_dev w'))) w"
proof -
  let ?M = "map_option (\<lambda>_. True) (bcache_mutex (w_bc w))"
  let ?w = "set_mutex ?M w"
  have core: "c_core sel ps ?w" using c_inv_core [OF inv rdy] by simp
  have body: "wp (bind (flush_pools ps) (\<lambda>_. bind (gets dev_fd) dev_fsync)) (\<lambda>r w'.
      cache_step sel ps ?w w' \<and> same_views sel ?w w' \<and>
      (case r of Inl _ \<Rightarrow> \<not> os_ok ?w
       | Inr _ \<Rightarrow> (\<forall>c. fits w c \<longrightarrow> dev_block w' c = slot_view sel w c) \<and>
           dv_stable (w_dev w') = dv_data (w_dev w'))) ?w"
  proof (rule wp_bind_rule [OF wp_flush_pools [OF core sel, of ps "[]"]], goal_cases)
    case (4 e w')
    then show ?case by auto
  next
    case (5 u w1)
    have core1: "c_core sel ps w1" and step: "cache_step sel ps ?w w1" and frame: "io_frame ?w w1"
      and views: "same_views sel ?w w1" using 5 by (auto simp: cache_step_def)
    have fd: "fd_ok w1 (dev_fd w1)" using core1 by (simp add: c_core_def io_ready_def)
    have clean: "slot_view sel w1 c = dev_block w1 c" for c
      using clean_view [OF core1 sel] 5 by auto
    show ?case
      unfolding wp_bind wp_gets sum.case
    proof (rule wp_mono [OF wp_dev_fsync [OF fd]], goal_cases)
      case (1 r w')
      have pools: "w_bc w' = w_bc w1" and f: "io_frame w1 w'" and data: "dv_data (w_dev w') = dv_data (w_dev w1)"
        using 1 by (auto simp: same_caches_def)
      have ctx: "w_ctx w' = w_ctx w1" using f by (rule io_frame_ctx)
      have blocks: "dev_block w' c = dev_block w1 c" "fits w' c = fits w1 c" for c
        by (simp_all add: dev_block_def fits_def ctx data)
      have "os_touches (w_os w1) \<le> os_touches (w_os w')" using f by (simp add: io_frame_def os_frame_def)
      then have "c_core sel ps w'"
        using core1 io_ready_frame [OF f]
        by (fastforce simp: c_core_def list_all_iff pool_ok_def entry_ok_def pools ctx blocks)
      then have "cache_step sel ps ?w w'"
        using cache_step_trans [OF step, of w'] f pools by (simp add: cache_step_def lock_same_def)
      moreover have "same_views sel ?w w'"
        using views by (simp add: same_views_def slot_view_def ctx pools blocks data cong: option.case_cong)
      ultimately show ?case
        using 1 os_ok_frame [OF frame] clean views blocks data by (cases r) (auto simp: same_views_def)
    qed
  qed (use assms(4) in auto)
  have "wp (bind bcache_lock (\<lambda>_. ensuring (bind (flush_pools ps) (\<lambda>_. bind (gets dev_fd) dev_fsync)) bcache_unlock)) (\<lambda>r w'.
      c_inv sel ps w' \<and> io_frame w w' \<and> bcache_ready (w_bc w') \<and>
      (\<forall>c. fits w c \<longrightarrow> c_view sel w' c = c_view sel w c) \<and>
      (case r of Inl _ \<Rightarrow> \<not> calm w w'
       | Inr _ \<Rightarrow> (\<forall>c. fits w c \<longrightarrow> dev_block w' c = c_view sel w c) \<and>
           dv_stable (w_dev w') = dv_data (w_dev w'))) w"
  proof (intro wp_locked [OF c_inv_free [OF inv] _ refl], rule wp_mono [OF body], goal_cases)
    case (1 r w')
    have "os_ok ?w = os_ok w" by (simp add: os_ok_def)
    then show ?case using 1 c_inv_locked [OF rdy inv, of ?M w'] rdy
      by (cases r) (auto simp: cache_step_def c_view_def same_views_def calm_def)
  qed
  then show ?thesis using rdy by (simp add: cached_flush_def wp_bind [of "gets (\<lambda>w. bcache_ready (w_bc w))"] wp_gets)
qed

section \<open>Interfaces\<close>

lemma c_store:
  assumes "same_store w w'"
  shows "c_view sel w' b = c_view sel w b" and "c_inv sel ps w \<Longrightarrow> c_inv sel ps w'"
proof -
  have same: "w_ctx w' = w_ctx w" "w_dev w' = w_dev w" "w_bc w' = w_bc w"
    "os_touches (w_os w) \<le> os_touches (w_os w')" using assms by (auto simp: same_store_def)
  have blocks: "dev_block w' c = dev_block w c" "fits w' c = fits w c" "io_ready w' = io_ready w" for c
    using same by (simp_all add: dev_block_def fits_def io_ready_def fd_ok_def)
  show "c_view sel w' b = c_view sel w b"
    by (simp add: c_view_def slot_view_def same blocks cong: option.case_cong)
  show "c_inv sel ps w'" if "c_inv sel ps w"
  proof -
    have entry: "entry_ok sel w' p e" if "entry_ok sel w p e" for p e
      using that same by (auto simp: entry_ok_def blocks)
    have "pool_ok sel w' p" if "pool_ok sel w p" for p
      using that same entry by (auto simp: pool_ok_def list_all_iff)
    then show ?thesis using that same by (auto simp: c_inv_def list_all_iff blocks)
  qed
qed

lemma c_view_length:
  assumes "c_inv sel ps w" and "sel_in sel ps" and "fits w b"
  shows "length (c_view sel w b) = blksz w"
  using assms slot_view_length [OF c_inv_core [OF assms(1)], of b]
  by (auto simp: c_view_def sel_in_def)

text \<open>The invariant of a cache that is in use.\<close>

definition c_live :: "pool_sel \<Rightarrow> pool_id list \<Rightarrow> world \<Rightarrow> bool" where
  "c_live sel ps w = (c_inv sel ps w \<and> bcache_ready (w_bc w))"

lemma unified_sel_in [simp]: "sel_in unified_sel [Unified_Pool]"
  by (simp add: sel_in_def unified_sel_def)

interpretation uc: write_back_cache "c_view unified_sel" "c_live unified_sel [Unified_Pool]"
  unified_read_blocks unified_write_blocks unified_modify_block unified_invalidate unified_flush
proof (unfold_locales, goal_cases)
  case (1 w)
  then show ?case by (simp add: c_live_def c_inv_def)
next
  case (2 w b)
  then show ?case using c_view_length [OF _ unified_sel_in] by (simp add: c_live_def)
next
  case (3 w w' b)
  then show ?case by (rule c_store)
next
  case (4 w w')
  then show ?case using c_store(2) by (auto simp: c_live_def same_store_def)
next
  case (5 w buf b)
  then show ?case
    unfolding unified_read_blocks_def c_live_def
    by (intro wp_mono [OF cached_read_law]) auto
next
  case (6 w src b)
  then show ?case
    unfolding unified_write_blocks_def c_live_def
    by (intro wp_mono [OF cached_write_law]) auto
next
  case (7 w b patch off)
  then show ?case
    unfolding unified_modify_block_def c_live_def
    by (intro wp_mono [OF cached_modify_law]) (auto simp: md_post_def split: sum.splits)
next
  case (8 w b)
  then show ?case
    unfolding unified_invalidate_def c_live_def
    by (intro wp_mono [OF cached_invalidate_law]) (auto simp: iv_post_def)
next
  case (9 w)
  then show ?case
    unfolding unified_flush_def c_live_def
    by (intro wp_mono [OF cached_flush_law]) (auto simp: fl_post_def)
qed

end
