(* ===== verification/Mofs_Buffer_Split.thy ===== *)
theory Mofs_Buffer_Split
  imports Mofs_Buffer_API
begin

text \<open>
  The split cache, \<open>src/core/modules/mofs_buffer_split.c\<close>: blocks below the data region go to
  the metadata pool, the others to the data pool, and only the data pool is searched by the
  invalidation. It satisfies the same laws as the unified cache.
\<close>

definition is_metadata_block :: "mofs_superblock \<Rightarrow> u32 \<Rightarrow> bool" where
  "is_metadata_block sb blk_num = (blk_num < sb_data_region_start sb)"

definition split_sel :: pool_sel where
  "split_sel sb b = (if is_metadata_block sb b then Meta_Pool else Data_Pool)"

definition split_init :: "unit mofs" where
  "split_init =
     bind mofs_io_blk_sz (\<lambda>blk_sz.
     bind (throw_if (blk_sz = 0) MOFS_EINVAL) (\<lambda>_.
     bind (gets (\<lambda>w. bcache_mutex (w_bc w))) (\<lambda>m.
     bind (if m = None then mofs_mutex_init (\<lambda>m w. w\<lparr>w_bc := (w_bc w)\<lparr>bcache_mutex := m\<rparr>\<rparr>) else ret ()) (\<lambda>_.
     bind bcache_lock (\<lambda>_.
     ensuring
       (bind (gets (\<lambda>w. bcache_ready (w_bc w))) (\<lambda>rdy.
        if rdy then ret ()
        else
          bind (pool_alloc Meta_Pool (unat blk_sz)) (\<lambda>_.
          bind (attempt (pool_alloc Data_Pool (unat blk_sz))) (\<lambda>r. case r of
              Inl e \<Rightarrow> bind (pool_free Meta_Pool) (\<lambda>_. throw e)
            | Inr _ \<Rightarrow>
                modify (\<lambda>w. w\<lparr>w_bc := (w_bc w)\<lparr>
                  bc_tick := (bc_tick (w_bc w))(Meta_Pool := 0, Data_Pool := 0),
                  bcache_ready := True\<rparr>\<rparr>)))))
       bcache_unlock)))))"

definition split_fini :: "unit mofs" where
  "split_fini = cached_fini [Meta_Pool, Data_Pool]"

definition split_read_blocks :: "int \<Rightarrow> byte list \<Rightarrow> u32 \<Rightarrow> u32 \<Rightarrow> (byte list \<times> u32 \<times> u32) mofs" where
  "split_read_blocks = cached_read_blocks split_sel"

definition split_write_blocks :: "int \<Rightarrow> byte list \<Rightarrow> u32 \<Rightarrow> u32 \<Rightarrow> (u32 \<times> u32) mofs" where
  "split_write_blocks = cached_write_blocks split_sel"

definition split_modify_block :: "u32 \<Rightarrow> u32 \<Rightarrow> byte list \<Rightarrow> unit mofs" where
  "split_modify_block = cached_modify_block split_sel"

definition split_flush :: "unit mofs" where
  "split_flush = cached_flush [Meta_Pool, Data_Pool]"

definition split_invalidate :: "u32 \<Rightarrow> unit mofs" where
  "split_invalidate = cached_invalidate Data_Pool"

lemma split_sel_in [simp]: "sel_in split_sel [Meta_Pool, Data_Pool]"
  by (simp add: sel_in_def split_sel_def)

interpretation sc: write_back_cache "c_view split_sel" "c_live split_sel [Meta_Pool, Data_Pool]"
  split_read_blocks split_write_blocks split_modify_block split_invalidate split_flush
proof (unfold_locales, goal_cases)
  case (1 w)
  then show ?case by (simp add: c_live_def c_inv_def)
next
  case (2 w b)
  then show ?case using c_view_length [OF _ split_sel_in] by (simp add: c_live_def)
next
  case (3 w w' b)
  then show ?case by (rule c_store)
next
  case (4 w w')
  then show ?case using c_store(2) by (auto simp: c_live_def same_store_def)
next
  case (5 w buf b)
  then show ?case
    unfolding split_read_blocks_def c_live_def
    by (intro wp_mono [OF cached_read_law]) auto
next
  case (6 w src b)
  then show ?case
    unfolding split_write_blocks_def c_live_def
    by (intro wp_mono [OF cached_write_law]) auto
next
  case (7 w b patch off)
  then show ?case
    unfolding split_modify_block_def c_live_def
    by (intro wp_mono [OF cached_modify_law]) (auto simp: md_post_def split: sum.splits)
next
  case (8 w b)
  then show ?case
    unfolding split_invalidate_def c_live_def
    by (intro wp_mono [OF cached_invalidate_law]) (auto simp: iv_post_def)
next
  case (9 w)
  then show ?case
    unfolding split_flush_def c_live_def
    by (intro wp_mono [OF cached_flush_law]) (auto simp: fl_post_def)
qed

end
