(* ===== verification/Mofs_Blockio.thy ===== *)
theory Mofs_Blockio
  imports Mofs_Buffer_Split
begin

text \<open>
  The block interface the core is written against: \<open>read_continuous_blocks\<close>,
  \<open>write_continuous_blocks\<close> of \<open>mofs_block.c\<close> and the \<open>mofs_bcache_*\<close> entry points, for
  the three builds (\<open>w_mode\<close> is the compile-time choice): no cache, the unified cache, the
  split cache. The interpretation \<open>bc\<close> shows that every build satisfies the laws of
  \<open>block_cache\<close>, so what is proved of the core from these laws holds for all three.
\<close>

section \<open>Definitions\<close>

definition mofs_bcache_read_blocks :: "int \<Rightarrow> byte list \<Rightarrow> u32 \<Rightarrow> u32 \<Rightarrow> (byte list \<times> u32 \<times> u32) mofs" where
  "mofs_bcache_read_blocks fd buf req_blk_num start_blk_num =
     bind (gets w_mode) (\<lambda>m. case m of
         BC_Disabled \<Rightarrow> read_continuous_blocks_raw fd buf req_blk_num start_blk_num
       | BC_Unified \<Rightarrow> unified_read_blocks fd buf req_blk_num start_blk_num
       | BC_Split \<Rightarrow> split_read_blocks fd buf req_blk_num start_blk_num)"

definition mofs_bcache_write_blocks :: "int \<Rightarrow> byte list \<Rightarrow> u32 \<Rightarrow> u32 \<Rightarrow> (u32 \<times> u32) mofs" where
  "mofs_bcache_write_blocks fd buf req_blk_num start_blk_num =
     bind (gets w_mode) (\<lambda>m. case m of
         BC_Disabled \<Rightarrow> write_continuous_blocks_raw fd buf req_blk_num start_blk_num
       | BC_Unified \<Rightarrow> unified_write_blocks fd buf req_blk_num start_blk_num
       | BC_Split \<Rightarrow> split_write_blocks fd buf req_blk_num start_blk_num)"

definition mofs_bcache_modify_block :: "u32 \<Rightarrow> u32 \<Rightarrow> byte list \<Rightarrow> unit mofs" where
  "mofs_bcache_modify_block blk_num byte_off patch =
     bind (gets w_mode) (\<lambda>m. case m of
         BC_Disabled \<Rightarrow> throw MOFS_EINVAL
       | BC_Unified \<Rightarrow> unified_modify_block blk_num byte_off patch
       | BC_Split \<Rightarrow> split_modify_block blk_num byte_off patch)"

definition mofs_bcache_flush :: "unit mofs" where
  "mofs_bcache_flush =
     bind (gets w_mode) (\<lambda>m. case m of
         BC_Disabled \<Rightarrow> ret () | BC_Unified \<Rightarrow> unified_flush | BC_Split \<Rightarrow> split_flush)"

definition mofs_bcache_invalidate :: "u32 \<Rightarrow> unit mofs" where
  "mofs_bcache_invalidate blk_num =
     bind (gets w_mode) (\<lambda>m. case m of
         BC_Disabled \<Rightarrow> ret ()
       | BC_Unified \<Rightarrow> unified_invalidate blk_num
       | BC_Split \<Rightarrow> split_invalidate blk_num)"

definition mofs_bcache_init :: "unit mofs" where
  "mofs_bcache_init =
     bind (gets w_mode) (\<lambda>m. case m of
         BC_Disabled \<Rightarrow> ret () | BC_Unified \<Rightarrow> unified_init | BC_Split \<Rightarrow> split_init)"

definition mofs_bcache_fini :: "unit mofs" where
  "mofs_bcache_fini =
     bind (gets w_mode) (\<lambda>m. case m of
         BC_Disabled \<Rightarrow> ret () | BC_Unified \<Rightarrow> unified_fini | BC_Split \<Rightarrow> split_fini)"

definition read_continuous_blocks :: "int \<Rightarrow> byte list \<Rightarrow> u32 \<Rightarrow> u32 \<Rightarrow> (byte list \<times> u32 \<times> u32) mofs" where
  "read_continuous_blocks fd buf req_blk_num start_blk_num =
     bind (gets w_mode) (\<lambda>m.
     if m \<noteq> BC_Disabled then mofs_bcache_read_blocks fd buf req_blk_num start_blk_num
     else read_continuous_blocks_raw fd buf req_blk_num start_blk_num)"

definition write_continuous_blocks :: "int \<Rightarrow> byte list \<Rightarrow> u32 \<Rightarrow> u32 \<Rightarrow> (u32 \<times> u32) mofs" where
  "write_continuous_blocks fd buf req_blk_num start_blk_num =
     bind (gets w_mode) (\<lambda>m.
     if m \<noteq> BC_Disabled then mofs_bcache_write_blocks fd buf req_blk_num start_blk_num
     else write_continuous_blocks_raw fd buf req_blk_num start_blk_num)"

section \<open>The laws for every build\<close>

definition bc_view :: "world \<Rightarrow> u32 \<Rightarrow> byte list" where
  "bc_view w b = (case w_mode w of
     BC_Disabled \<Rightarrow> dev_block w b
   | BC_Unified \<Rightarrow> c_view unified_sel w b
   | BC_Split \<Rightarrow> c_view split_sel w b)"

definition bc_inv :: "world \<Rightarrow> bool" where
  "bc_inv w = (case w_mode w of
     BC_Disabled \<Rightarrow> io_ready w
   | BC_Unified \<Rightarrow> c_inv unified_sel [Unified_Pool] w
   | BC_Split \<Rightarrow> c_inv split_sel [Meta_Pool, Data_Pool] w)"

lemma io_frame_mode: "io_frame w w' \<Longrightarrow> w_mode w' = w_mode w"
  by (simp add: io_frame_def)

text \<open>Without a cache the laws are those of raw I/O.\<close>

lemma raw_read_law:
  assumes "io_ready w" and "length buf = blksz w"
  shows "wp (read_continuous_blocks_raw (dev_fd w) buf 1 b) (\<lambda>r w'.
      io_ready w' \<and> io_frame w w' \<and> rd_post (dev_block w) (dev_block w') w b r w') w"
proof (rule wp_mono [OF wp_read_raw_1 [OF assms]], goal_cases)
  case (1 r w')
  then show ?case
    using io_ready_frame [of w w'] assms dev_block_cong [of w w']
    by (auto simp: rd_post_def calm_def split: sum.splits)
qed

lemma raw_write_law:
  assumes "io_ready w" and "length src = blksz w" and "fits w b"
  shows "wp (write_continuous_blocks_raw (dev_fd w) src 1 b) (\<lambda>r w'.
      io_ready w' \<and> io_frame w w' \<and> wr_post (dev_block w) (dev_block w') w b src r w') w"
proof (rule wp_mono [OF wp_write_raw_1 [OF assms(1,2)]], goal_cases)
  case (1 r w')
  then obtain t where t: "t \<le> blksz w"
    "dv_data (w_dev w') = write_at (unat b * blksz w) (take t src) (dv_data (w_dev w))" by blast
  have frame: "io_frame w w'" using 1 by auto
  have "dev_block w' c = dev_block w c" if "fits w c" "c \<noteq> b" for c
    using dev_block_write_other [OF that _ frame t(2)] t(1) by simp
  moreover have "dev_block w' b = src" if "r = Inr (1, 0)"
    using dev_block_write_same [OF assms(3,2) frame] 1 that by simp
  moreover have "torn src (dev_block w b) (dev_block w' b)"
    using dev_block_write_part [OF assms(3) _ frame t(2)] t(1) by (auto simp: torn_def)
  ultimately show ?case
    using io_ready_frame [OF frame assms(1)] 1 assms(3) by (auto simp: wr_post_def calm_def)
qed

text \<open>In a given build the general invariant and view are those of its cache.\<close>

lemma bc_disabled:
  "w_mode w = BC_Disabled \<Longrightarrow> bc_inv w = io_ready w" "w_mode w = BC_Disabled \<Longrightarrow> bc_view w = dev_block w"
  by (auto simp: bc_inv_def bc_view_def)

lemma bc_unified:
  "w_mode w = BC_Unified \<Longrightarrow> bc_inv w = c_inv unified_sel [Unified_Pool] w"
  "w_mode w = BC_Unified \<Longrightarrow> bc_view w = c_view unified_sel w"
  by (auto simp: bc_inv_def bc_view_def)

lemma bc_split:
  "w_mode w = BC_Split \<Longrightarrow> bc_inv w = c_inv split_sel [Meta_Pool, Data_Pool] w"
  "w_mode w = BC_Split \<Longrightarrow> bc_view w = c_view split_sel w"
  by (auto simp: bc_inv_def bc_view_def)

text \<open>A postcondition of a cache in terms of its own invariant and view holds for the general
  ones.\<close>

lemma wp_disabled:
  assumes "w_mode w = BC_Disabled"
    and "wp m (\<lambda>r w'. io_ready w' \<and> io_frame w w' \<and> P (dev_block w) (dev_block w') r w') w"
  shows "wp m (\<lambda>r w'. bc_inv w' \<and> io_frame w w' \<and> P (bc_view w) (bc_view w') r w') w"
  using assms(1) by (intro wp_mono [OF assms(2)]) (auto simp: bc_disabled io_frame_mode)

lemma wp_unified:
  assumes "w_mode w = BC_Unified"
    and "wp m (\<lambda>r w'. c_inv unified_sel [Unified_Pool] w' \<and>
      bcache_ready (w_bc w') = bcache_ready (w_bc w) \<and> io_frame w w' \<and>
      P (c_view unified_sel w) (c_view unified_sel w') r w') w"
  shows "wp m (\<lambda>r w'. bc_inv w' \<and> io_frame w w' \<and> P (bc_view w) (bc_view w') r w') w"
  using assms(1) by (intro wp_mono [OF assms(2)]) (auto simp: bc_unified io_frame_mode)

lemma wp_split:
  assumes "w_mode w = BC_Split"
    and "wp m (\<lambda>r w'. c_inv split_sel [Meta_Pool, Data_Pool] w' \<and>
      bcache_ready (w_bc w') = bcache_ready (w_bc w) \<and> io_frame w w' \<and>
      P (c_view split_sel w) (c_view split_sel w') r w') w"
  shows "wp m (\<lambda>r w'. bc_inv w' \<and> io_frame w w' \<and> P (bc_view w) (bc_view w') r w') w"
  using assms(1) by (intro wp_mono [OF assms(2)]) (auto simp: bc_split io_frame_mode)

lemmas bc_unfold = read_continuous_blocks_def write_continuous_blocks_def
  mofs_bcache_read_blocks_def mofs_bcache_write_blocks_def mofs_bcache_modify_block_def
  mofs_bcache_invalidate_def mofs_bcache_flush_def wp_bind wp_gets

lemma bc_read_law:
  assumes "bc_inv w" and len: "length buf = blksz w"
  shows "wp (read_continuous_blocks (dev_fd w) buf 1 b) (\<lambda>r w'.
      bc_inv w' \<and> io_frame w w' \<and> rd_post (bc_view w) (bc_view w') w b r w') w"
proof (cases "w_mode w")
  case BC_Disabled
  then show ?thesis
    using wp_disabled [where P = "\<lambda>V V' r w'. rd_post V V' w b r w'", OF BC_Disabled raw_read_law [OF _ len]]
      assms(1) by (simp add: bc_unfold bc_disabled)
next
  case BC_Unified
  then show ?thesis
    using wp_unified [where P = "\<lambda>V V' r w'. rd_post V V' w b r w'", OF BC_Unified
        cached_read_law [OF _ unified_sel_in len]] assms(1)
    by (simp add: bc_unfold bc_unified unified_read_blocks_def)
next
  case BC_Split
  then show ?thesis
    using wp_split [where P = "\<lambda>V V' r w'. rd_post V V' w b r w'", OF BC_Split
        cached_read_law [OF _ split_sel_in len]] assms(1)
    by (simp add: bc_unfold bc_split split_read_blocks_def)
qed

lemma bc_write_law:
  assumes "bc_inv w" and len: "length src = blksz w" and fit: "fits w b"
  shows "wp (write_continuous_blocks (dev_fd w) src 1 b) (\<lambda>r w'.
      bc_inv w' \<and> io_frame w w' \<and> wr_post (bc_view w) (bc_view w') w b src r w') w"
proof (cases "w_mode w")
  case BC_Disabled
  then show ?thesis
    using wp_disabled [where P = "\<lambda>V V' r w'. wr_post V V' w b src r w'", OF BC_Disabled
        raw_write_law [OF _ len fit]] assms(1) by (simp add: bc_unfold bc_disabled)
next
  case BC_Unified
  then show ?thesis
    using wp_unified [where P = "\<lambda>V V' r w'. wr_post V V' w b src r w'", OF BC_Unified
        cached_write_law [OF _ unified_sel_in len fit]] assms(1)
    by (simp add: bc_unfold bc_unified unified_write_blocks_def)
next
  case BC_Split
  then show ?thesis
    using wp_split [where P = "\<lambda>V V' r w'. wr_post V V' w b src r w'", OF BC_Split
        cached_write_law [OF _ split_sel_in len fit]] assms(1)
    by (simp add: bc_unfold bc_split split_write_blocks_def)
qed

lemma cached_modify_post:
  assumes "c_inv sel ps w" and "sel_in sel ps" and "fits w b" and "length patch < 2 ^ 32"
  shows "wp (cached_modify_block sel b off patch) (\<lambda>r w'.
      c_inv sel ps w' \<and> bcache_ready (w_bc w') = bcache_ready (w_bc w) \<and> io_frame w w' \<and>
      md_post (c_view sel w) (c_view sel w') w b off patch r w') w"
  by (rule wp_mono [OF cached_modify_law [OF assms]]) (auto simp: md_post_def split: sum.splits)

lemma cached_invalidate_post:
  assumes "c_inv sel ps w" and "sel_in sel ps" and "p \<in> set ps"
  shows "wp (cached_invalidate p b) (\<lambda>r w'.
      c_inv sel ps w' \<and> bcache_ready (w_bc w') = bcache_ready (w_bc w) \<and> io_frame w w' \<and>
      iv_post (c_view sel w) (c_view sel w') w b r w') w"
  by (rule wp_mono [OF cached_invalidate_law [OF assms]]) (auto simp: iv_post_def)

lemma bc_modify_law:
  assumes "bc_inv w" and fit: "fits w b" and len: "length patch < 2 ^ 32"
  shows "wp (mofs_bcache_modify_block b off patch) (\<lambda>r w'.
      bc_inv w' \<and> io_frame w w' \<and> md_post (bc_view w) (bc_view w') w b off patch r w') w"
proof (cases "w_mode w")
  case BC_Disabled
  then show ?thesis using assms(1) by (simp add: bc_unfold wp_throw md_post_def)
next
  case BC_Unified
  then show ?thesis
    using wp_unified [where P = "\<lambda>V V' r w'. md_post V V' w b off patch r w'", OF BC_Unified
        cached_modify_post [OF _ unified_sel_in fit len]] assms(1)
    by (simp add: bc_unfold bc_unified unified_modify_block_def)
next
  case BC_Split
  then show ?thesis
    using wp_split [where P = "\<lambda>V V' r w'. md_post V V' w b off patch r w'", OF BC_Split
        cached_modify_post [OF _ split_sel_in fit len]] assms(1)
    by (simp add: bc_unfold bc_split split_modify_block_def)
qed

lemma bc_invalidate_law:
  assumes "bc_inv w"
  shows "wp (mofs_bcache_invalidate b) (\<lambda>r w'.
      bc_inv w' \<and> io_frame w w' \<and> iv_post (bc_view w) (bc_view w') w b r w') w"
proof (cases "w_mode w")
  case BC_Disabled
  then show ?thesis using assms(1) by (simp add: bc_unfold wp_ret iv_post_def)
next
  case BC_Unified
  then show ?thesis
    using wp_unified [where P = "\<lambda>V V' r w'. iv_post V V' w b r w'", OF BC_Unified
        cached_invalidate_post [OF _ unified_sel_in, of w Unified_Pool b]] assms(1)
    by (simp add: bc_unfold bc_unified unified_invalidate_def)
next
  case BC_Split
  then show ?thesis
    using wp_split [where P = "\<lambda>V V' r w'. iv_post V V' w b r w'", OF BC_Split
        cached_invalidate_post [OF _ split_sel_in, of w Data_Pool b]] assms(1)
    by (simp add: bc_unfold bc_split split_invalidate_def)
qed

lemma cached_flush_post:
  assumes "c_inv sel ps w" and "sel_in sel ps" and "bcache_ready (w_bc w)" and "distinct ps"
  shows "wp (cached_flush ps) (\<lambda>r w'.
      c_inv sel ps w' \<and> bcache_ready (w_bc w') = bcache_ready (w_bc w) \<and> io_frame w w' \<and>
      fl_post (c_view sel w) (c_view sel w') w r w') w"
  by (rule wp_mono [OF cached_flush_law [OF assms]]) (use assms(3) in \<open>auto simp: fl_post_def\<close>)

text \<open>The flush of a build with a cache.\<close>

lemma bc_flush_law:
  assumes "bc_inv w" and "w_mode w \<noteq> BC_Disabled" and rdy: "bcache_ready (w_bc w)"
  shows "wp mofs_bcache_flush (\<lambda>r w'. bc_inv w' \<and> io_frame w w' \<and> fl_post (bc_view w) (bc_view w') w r w') w"
proof (cases "w_mode w")
  case BC_Disabled
  then show ?thesis using assms(2) by simp
next
  case BC_Unified
  then show ?thesis
    using wp_unified [where P = "\<lambda>V V' r w'. fl_post V V' w r w'", OF BC_Unified
        cached_flush_post [OF _ unified_sel_in rdy]] assms(1)
    by (simp add: bc_unfold bc_unified unified_flush_def)
next
  case BC_Split
  then show ?thesis
    using wp_split [where P = "\<lambda>V V' r w'. fl_post V V' w r w'", OF BC_Split
        cached_flush_post [OF _ split_sel_in rdy]] assms(1)
    by (simp add: bc_unfold bc_split split_flush_def)
qed

lemma bc_store:
  assumes "same_store w w'"
  shows "bc_view w' b = bc_view w b" and "bc_inv w \<Longrightarrow> bc_inv w'"
proof -
  have same: "w_mode w' = w_mode w" "w_ctx w' = w_ctx w" "w_dev w' = w_dev w"
    using assms by (auto simp: same_store_def)
  show "bc_view w' b = bc_view w b"
    using c_store(1) [OF assms] by (simp add: bc_view_def same dev_block_def split: bcache_mode.split)
  show "bc_inv w'" if "bc_inv w"
    using that c_store(2) [OF assms]
    by (auto simp: bc_inv_def same io_ready_def fd_ok_def split: bcache_mode.splits)
qed

interpretation bc: block_cache bc_view bc_inv read_continuous_blocks write_continuous_blocks
  mofs_bcache_modify_block mofs_bcache_invalidate
proof (unfold_locales, goal_cases)
  case (1 w)
  then show ?case by (auto simp: bc_inv_def c_inv_def split: bcache_mode.splits)
next
  case (2 w b)
  then show ?case
    using c_view_length [OF _ unified_sel_in] c_view_length [OF _ split_sel_in]
    by (auto simp: bc_inv_def bc_view_def split: bcache_mode.splits)
qed (fact bc_store bc_read_law bc_write_law bc_modify_law bc_invalidate_law)+

section \<open>One whole block\<close>

text \<open>The pattern of every metadata access: one block through \<open>read_continuous_blocks\<close> or
  \<open>write_continuous_blocks\<close>, with a short transfer reported as EIO.\<close>

definition read_block :: "byte list \<Rightarrow> u32 \<Rightarrow> byte list mofs" where
  "read_block buf b =
     bind (gets dev_fd) (\<lambda>fd.
     bind (read_continuous_blocks fd buf 1 b) (\<lambda>(buf', read_blk_num, fraction).
     if read_blk_num \<noteq> 1 \<or> fraction \<noteq> 0 then throw MOFS_EIO else ret buf'))"

definition write_block :: "byte list \<Rightarrow> u32 \<Rightarrow> unit mofs" where
  "write_block src b =
     bind (gets dev_fd) (\<lambda>fd.
     bind (write_continuous_blocks fd src 1 b) (\<lambda>(written_blk_num, fraction).
     if written_blk_num \<noteq> 1 \<or> fraction \<noteq> 0 then throw MOFS_EIO else ret ()))"

lemma read_block_full: "read_block buf b = bc.read_full MOFS_EIO buf b"
  by (simp add: read_block_def bc.read_full_def)

lemma write_block_full: "write_block src b = bc.write_full MOFS_EIO src b"
  by (simp add: write_block_def bc.write_full_def)

lemmas wp_read_block = bc.wp_read_full [where e = MOFS_EIO, folded read_block_full]
lemmas wp_write_block = bc.wp_write_full [where e = MOFS_EIO, folded write_block_full]
lemmas wp_update_block =
  bc.wp_read_modify_write [where e = MOFS_EIO, folded read_block_full write_block_full]

section \<open>Scratch buffers and the core lock\<close>

text \<open>The world after an allocation: one more live block, one more call.\<close>

definition alloc_frame :: "world \<Rightarrow> world \<Rightarrow> bool" where
  "alloc_frame w w1 = io_frame (w\<lparr>w_os := (w_os w)\<lparr>os_live := os_live (w_os w) + 1\<rparr>\<rparr>) w1"

definition freed :: "world \<Rightarrow> world" where
  "freed w = w\<lparr>w_os := (w_os w)\<lparr>os_live := os_live (w_os w) - 1\<rparr>\<rparr>"

lemma same_store_freed [simp]: "same_store w (freed w)"
  by (simp add: same_store_def freed_def)

lemma freed_simps [simp]:
  "w_ctx (freed w) = w_ctx w" "w_dev (freed w) = w_dev w" "w_bc (freed w) = w_bc w" "w_mode (freed w) = w_mode w"
  by (simp_all add: freed_def)

lemma alloc_frame_ctx: "alloc_frame w w1 \<Longrightarrow> w_ctx w1 = w_ctx w"
  by (auto simp: alloc_frame_def io_frame_def)

lemma alloc_frame_freed:
  assumes "alloc_frame w w1" and "io_frame w1 w2"
  shows "io_frame w (freed w2)"
  using assms by (auto simp: alloc_frame_def io_frame_def os_frame_def freed_def fd_ok_def)

lemma alloc_frame_calm:
  assumes "alloc_frame w w1" and "io_frame w1 w2" and "calm w (freed w2)"
  shows "calm w1 w2"
  using assms by (auto simp: alloc_frame_def io_frame_def os_frame_def freed_def calm_def os_ok_def young_def)

lemma wp_mofs_free [wp_simps]: "wp mofs_free Q w = Q (Inr ()) (freed w)"
  by (simp add: mofs_free_def freed_def wp_simps)

lemma failed_alloc: "io_frame w (w\<lparr>w_os := (os_tick (w_os w))\<lparr>os_errno := n\<rparr>\<rparr>)"
  by (simp add: io_frame_def os_frame_def fd_ok_def)

lemma wp_with_malloc:
  assumes "\<And>w1. same_store w w1 \<Longrightarrow> io_frame w w1 \<Longrightarrow> \<not> os_ok w \<Longrightarrow> Q (Inl MOFS_ENOMEM) w1"
    and "\<And>buf w1. length buf = n \<Longrightarrow> same_store w w1 \<Longrightarrow> alloc_frame w w1 \<Longrightarrow>
      wp (body buf) (\<lambda>r w2. Q r (freed w2)) w1"
  shows "wp (with_malloc n body) Q w"
proof (cases "os_fault (w_os w) (os_calls (w_os w))")
  case NoFault
  let ?w = "w\<lparr>w_os := (w_os w)\<lparr>os_calls := Suc (os_calls (w_os w)), os_live := os_live (w_os w) + 1\<rparr>\<rparr>"
  have "alloc_frame w ?w"
    by (simp add: alloc_frame_def io_frame_def os_frame_def fd_ok_def)
  moreover have "same_store w ?w" by (simp add: same_store_def)
  ultimately show ?thesis
    using assms(2) [of "map (os_junk (w_os w) (os_calls (w_os w))) [0..<n]" ?w] NoFault
    by (simp add: with_malloc_def mofs_malloc_def wp_simps)
next
  case (SysErr e)
  then have "\<not> os_ok w" using os_ok_now [of w] by auto
  then show ?thesis
    using assms(1) [of "w\<lparr>w_os := (os_tick (w_os w))\<lparr>os_errno := 12\<rparr>\<rparr>"] SysErr
    by (simp add: with_malloc_def mofs_malloc_def set_os_errno_def wp_simps same_store_def failed_alloc)
next
  case (ShortXfer k)
  then have "\<not> os_ok w" using os_ok_now [of w] by auto
  then show ?thesis
    using assms(1) [of "w\<lparr>w_os := (os_tick (w_os w))\<lparr>os_errno := 12\<rparr>\<rparr>"] ShortXfer
    by (simp add: with_malloc_def mofs_malloc_def set_os_errno_def wp_simps same_store_def failed_alloc)
qed

text \<open>Running a routine under the core lock.\<close>

definition core_locked :: "'a mofs \<Rightarrow> 'a mofs" where
  "core_locked m = bind mofs_core_sync_lock (\<lambda>_. ensuring m mofs_core_sync_unlock)"

definition locked :: "world \<Rightarrow> world" where
  "locked w = (if core_sync_ready (w_sync w)
     then w\<lparr>w_sync := (w_sync w)\<lparr>core_sync_depth := Suc (core_sync_depth (w_sync w))\<rparr>\<rparr> else w)"

definition unlocked :: "world \<Rightarrow> world" where
  "unlocked w = (if core_sync_ready (w_sync w)
     then w\<lparr>w_sync := (w_sync w)\<lparr>core_sync_depth := core_sync_depth (w_sync w) - 1\<rparr>\<rparr> else w)"

lemma locked_simps [simp]:
  "w_ctx (locked w) = w_ctx w" "same_store w (locked w)"
  "w_ctx (unlocked w) = w_ctx w" "same_store w (unlocked w)"
  by (simp_all add: locked_def unlocked_def same_store_def)

lemma wp_core_locked: "wp (core_locked m) Q w = wp m (\<lambda>r w'. Q r (unlocked w')) (locked w)"
  by (simp add: core_locked_def mofs_core_sync_lock_def mofs_core_sync_unlock_def wp_simps
      locked_def unlocked_def)

lemma locked_frame: "io_frame (locked w) w' \<Longrightarrow> io_frame w (unlocked w')"
  by (auto simp: io_frame_def locked_def unlocked_def fd_ok_def split: if_splits)

lemma locked_calm:
  "io_frame (locked w) w' \<Longrightarrow> calm w (unlocked w') \<Longrightarrow> calm (locked w) w'"
  by (auto simp: calm_def locked_def unlocked_def os_ok_def young_def split: if_splits)

end
