(* ===== verification/Mofs_Bitmap.thy ===== *)
theory Mofs_Bitmap
  imports Mofs_Blockio
begin

text \<open>
  The two allocation bitmaps: \<open>set_data_bitmap_bit\<close>, \<open>update_data_bitmap_bits\<close> and
  \<open>find_free_data_block_indices\<close> of \<open>mofs_block.c\<close> and their inode counterparts of
  \<open>mofs_inode.c\<close>. The two groups differ in the region they work on and in the reserved
  inodes 0 to 2; the shared body is \<open>set_bitmap_bit\<close> and \<open>find_free_indices\<close>.

  \<open>used_at w start i\<close> reads bit \<open>i\<close> of the bitmap at block \<open>start\<close> from the current
  content of the volume. Setting a bit changes exactly this bit; the search returns the first
  free indices in increasing order, and reports ENOSPC exactly when there are too few.
  \<open>vol_ok\<close> says that the regions of the mounted volume are in order, large enough and inside
  the device.
\<close>

unbundle bit_operations_syntax

section \<open>Operations\<close>

definition put_bit :: "nat \<Rightarrow> nat \<Rightarrow> bool \<Rightarrow> byte list \<Rightarrow> byte list" where
  "put_bit target_byte target_bit set_used bitmap_buf =
     bitmap_buf[target_byte := (if set_used
        then (bitmap_buf ! target_byte) OR push_bit target_bit 1
        else (bitmap_buf ! target_byte) AND NOT (push_bit target_bit 1))]"

definition set_bitmap_bit :: "u32 \<Rightarrow> u32 \<Rightarrow> bool \<Rightarrow> unit mofs" where
  "set_bitmap_bit bitmap_start idx set_used =
     bind (gets (\<lambda>w. sb_blk_size (sp_blk w))) (\<lambda>blk_sz.
     let bits_per_bitmap = blk_sz * 8;
         target_blk = idx div bits_per_bitmap;
         bit_in_blk = idx mod bits_per_bitmap;
         target_byte = bit_in_blk div 8;
         target_bit = bit_in_blk mod 8
     in with_malloc (unat blk_sz) (\<lambda>bitmap_buf.
        bind (read_block bitmap_buf (bitmap_start + target_blk)) (\<lambda>bitmap_buf.
        write_block (put_bit (unat target_byte) (unat target_bit) set_used bitmap_buf)
          (bitmap_start + target_blk))))"

definition set_data_bitmap_bit :: "u32 \<Rightarrow> bool \<Rightarrow> unit mofs" where
  "set_data_bitmap_bit data_idx set_used =
     bind (gets sp_blk) (\<lambda>sb.
     bind (throw_if (sb_data_blk_num sb \<le> data_idx) MOFS_EINVAL) (\<lambda>_.
     set_bitmap_bit (sb_data_bitmap_start sb) data_idx set_used))"

definition set_inode_bitmap_bit :: "u32 \<Rightarrow> bool \<Rightarrow> unit mofs" where
  "set_inode_bitmap_bit inode_idx set_used =
     bind (gets sp_blk) (\<lambda>sb.
     bind (throw_if (inode_idx < 3 \<or> sb_inode_num sb \<le> inode_idx) MOFS_EINVAL) (\<lambda>_.
     set_bitmap_bit (sb_inode_bitmap_start sb) inode_idx set_used))"

text \<open>Best effort: the result of each update is discarded.\<close>

primrec update_data_bitmap_bits :: "u32 list \<Rightarrow> bool \<Rightarrow> unit mofs" where
  "update_data_bitmap_bits [] set_used = ret ()"
| "update_data_bitmap_bits (idx # idxs) set_used =
     bind (attempt (set_data_bitmap_bit idx set_used)) (\<lambda>_. update_data_bitmap_bits idxs set_used)"

primrec update_inode_bitmap_bits :: "u32 list \<Rightarrow> bool \<Rightarrow> unit mofs" where
  "update_inode_bitmap_bits [] set_used = ret ()"
| "update_inode_bitmap_bits (idx # idxs) set_used =
     bind (attempt (set_inode_bitmap_bit idx set_used)) (\<lambda>_. update_inode_bitmap_bits idxs set_used)"

text \<open>The three nested loops of the search. \<open>acc\<close> is the filled part of the output array;
  \<open>lo\<close> is 0 for data blocks and 3 for inodes.\<close>

function scan_byte :: "u32 \<Rightarrow> u32 \<Rightarrow> nat \<Rightarrow> byte \<Rightarrow> u32 \<Rightarrow> nat \<Rightarrow> u32 list \<Rightarrow> u32 list" where
  "scan_byte lo limit need v base bit_idx acc =
     (if bit_idx < 8 \<and> length acc < need then
        let idx = base + word_of_nat bit_idx in
        if limit \<le> idx then acc
        else if idx < lo then scan_byte lo limit need v base (Suc bit_idx) acc
        else scan_byte lo limit need v base (Suc bit_idx)
               (if v AND push_bit bit_idx 1 = 0 then acc @ [idx] else acc)
      else acc)"
  by pat_completeness auto
termination by (relation "measure (\<lambda>(lo, limit, need, v, base, bit_idx, acc). 8 - bit_idx)") auto

function scan_block :: "u32 \<Rightarrow> u32 \<Rightarrow> nat \<Rightarrow> byte list \<Rightarrow> u32 \<Rightarrow> nat \<Rightarrow> u32 list \<Rightarrow> u32 list" where
  "scan_block lo limit need bitmap_buf base byte_idx acc =
     (if byte_idx < length bitmap_buf \<and> length acc < need then
        scan_block lo limit need bitmap_buf base (Suc byte_idx)
          (scan_byte lo limit need (bitmap_buf ! byte_idx) (base + word_of_nat byte_idx * 8) 0 acc)
      else acc)"
  by pat_completeness auto
termination by (relation "measure (\<lambda>(lo, limit, need, buf, base, byte_idx, acc). length buf - byte_idx)") auto

declare scan_byte.simps [simp del] scan_block.simps [simp del]

fun scan_bitmap :: "u32 \<Rightarrow> u32 \<Rightarrow> u32 \<Rightarrow> nat \<Rightarrow> nat \<Rightarrow> u32 \<Rightarrow> byte list \<Rightarrow> u32 list \<Rightarrow> u32 list mofs" where
  "scan_bitmap bitmap_start lo limit need 0 blk_idx bitmap_buf acc = ret acc"
| "scan_bitmap bitmap_start lo limit need (Suc n) blk_idx bitmap_buf acc =
     (if length acc < need then
        bind (read_block bitmap_buf (bitmap_start + blk_idx)) (\<lambda>bitmap_buf.
        bind (gets (\<lambda>w. sb_blk_size (sp_blk w) * 8)) (\<lambda>bits_per_bitmap.
        scan_bitmap bitmap_start lo limit need n (blk_idx + 1) bitmap_buf
          (scan_block lo limit need bitmap_buf (blk_idx * bits_per_bitmap) 0 acc)))
      else ret acc)"

definition find_free_indices :: "u32 \<Rightarrow> u32 \<Rightarrow> u32 \<Rightarrow> u32 \<Rightarrow> u32 \<Rightarrow> u32 list mofs" where
  "find_free_indices bitmap_start bitmap_blk_num lo limit required_alloc_num =
     (if required_alloc_num = 0 then ret []
      else
        bind (gets (\<lambda>w. sb_blk_size (sp_blk w))) (\<lambda>blk_sz.
        with_malloc (unat blk_sz) (\<lambda>bitmap_buf.
        bind (scan_bitmap bitmap_start lo limit (unat required_alloc_num) (unat bitmap_blk_num) 0 bitmap_buf [])
          (\<lambda>found.
        if length found < unat required_alloc_num then throw MOFS_ENOSPC else ret found))))"

definition find_free_data_block_indices :: "u32 \<Rightarrow> u32 list mofs" where
  "find_free_data_block_indices required_alloc_num =
     bind (gets sp_blk) (\<lambda>sb.
     find_free_indices (sb_data_bitmap_start sb) (sb_inode_table_start sb - sb_data_bitmap_start sb)
       0 (sb_data_blk_num sb) required_alloc_num)"

definition find_free_inode_indices :: "u32 \<Rightarrow> u32 list mofs" where
  "find_free_inode_indices required_alloc_num =
     bind (gets sp_blk) (\<lambda>sb.
     find_free_indices (sb_inode_bitmap_start sb) (sb_data_bitmap_start sb - sb_inode_bitmap_start sb)
       3 (sb_inode_num sb) required_alloc_num)"

section \<open>The bitmaps of a volume\<close>

definition bit_at :: "byte list \<Rightarrow> nat \<Rightarrow> bool" where
  "bit_at d k = bit (d ! (k div 8)) (k mod 8)"

text \<open>Entry \<open>i\<close> of the bitmap at block \<open>bitmap_start\<close>, for a given content \<open>V\<close> of the blocks.\<close>

definition bitmap_blk :: "mofs_superblock \<Rightarrow> u32 \<Rightarrow> nat \<Rightarrow> u32" where
  "bitmap_blk sb bitmap_start i = bitmap_start + word_of_nat (i div (8 * unat (sb_blk_size sb)))"

definition used_at :: "mofs_superblock \<Rightarrow> (u32 \<Rightarrow> byte list) \<Rightarrow> u32 \<Rightarrow> nat \<Rightarrow> bool" where
  "used_at sb V bitmap_start i = bit_at (V (bitmap_blk sb bitmap_start i)) (i mod (8 * unat (sb_blk_size sb)))"

text \<open>The regions of a volume are in order and large enough for the numbers of inodes and data
  blocks, and lie inside the device.\<close>

definition layout_ok :: "mofs_superblock \<Rightarrow> bool" where
  "layout_ok sb = (let B = unat (sb_blk_size sb);
       ib = unat (sb_inode_bitmap_start sb); db = unat (sb_data_bitmap_start sb);
       it = unat (sb_inode_table_start sb); dr = unat (sb_data_region_start sb);
       ni = unat (sb_inode_num sb); nd = unat (sb_data_blk_num sb)
     in mofs_validate_logical_blk_size (sb_blk_size sb) = None \<and>
        1 \<le> ib \<and> ib \<le> db \<and> db \<le> it \<and> it \<le> dr \<and> dr + nd < 2 ^ 32 \<and>
        ni \<le> (db - ib) * (8 * B) \<and> (db - ib) * (8 * B) \<le> 2 ^ 32 \<and>
        nd \<le> (it - db) * (8 * B) \<and> (it - db) * (8 * B) \<le> 2 ^ 32 \<and>
        ni * 64 \<le> (dr - it) * B \<and> ni * 64 < 2 ^ 31)"

definition vol_ok :: "world \<Rightarrow> bool" where
  "vol_ok w = (layout_ok (sp_blk w) \<and>
     (unat (sb_data_region_start (sp_blk w)) + unat (sb_data_blk_num (sp_blk w))) * blksz w
       \<le> length (dv_data (w_dev w)))"

section \<open>Pure lemmas\<close>

lemma length_put_bit [simp]: "length (put_bit a b u d) = length d"
  by (simp add: put_bit_def)

lemma bit_at_put_bit:
  assumes "k < 8 * length d" and "j < 8 * length d"
  shows "bit_at (put_bit (k div 8) (k mod 8) u d) j = (if j = k then u else bit_at d j)"
proof (cases "j div 8 = k div 8")
  case True
  have "k div 8 < length d" and lt: "j mod 8 < 8" "k mod 8 < 8" using assms by auto
  moreover have "j mod 8 = k mod 8 \<longleftrightarrow> j = k"
    using True by (metis div_mult_mod_eq)
  ultimately show ?thesis
    using True
    by (auto simp: bit_at_def put_bit_def bit_or_iff bit_and_iff bit_not_iff bit_exp_iff)
next
  case False
  then show ?thesis by (auto simp: bit_at_def put_bit_def)
qed

lemma and_bit_zero: "k < 8 \<Longrightarrow> (v :: byte) AND push_bit k 1 = 0 \<longleftrightarrow> \<not> bit v k"
  unfolding bit_eq_iff by (auto simp: bit_and_iff bit_exp_iff)

lemma take_take_append: "take n (take n xs @ ys) = take n (xs @ ys)"
  by (cases "n \<le> length xs") simp_all

lemma scan_byte_found:
  fixes base lo limit :: u32
  assumes "unat base + 8 \<le> 2 ^ 32" and "k \<le> 8" and "length acc \<le> need"
  shows "scan_byte lo limit need v base k acc = take need (acc @ map word_of_nat
      (filter (\<lambda>i. unat lo \<le> i \<and> i < unat limit \<and> \<not> bit v (i - unat base)) [unat base + k..<unat base + 8]))"
  using assms(2,3)
proof (induction "8 - k" arbitrary: k acc)
  case 0
  then show ?case by (simp add: scan_byte.simps)
next
  case (Suc m)
  define B where "B = unat base"
  have k: "k < 8" using Suc.hyps(2) by simp
  have idx: "unat (base + word_of_nat k) = B + k" "word_of_nat (B + k) = base + word_of_nat k"
    using assms(1) k by (simp_all add: B_def unat_word_ariths unat_of_nat take_bit_nat_eq_self)
  have wB: "word_of_nat B = base" by (simp add: B_def)
  have up: "[B + k..<B + 8] = (B + k) # [B + Suc k..<B + 8]"
    using k by (simp add: upt_conv_Cons)
  have IH: "scan_byte lo limit need v base (Suc k) acc' = take need (acc' @ map word_of_nat
      (filter (\<lambda>i. unat lo \<le> i \<and> i < unat limit \<and> \<not> bit v (i - B)) [B + Suc k..<B + 8]))"
    if "length acc' \<le> need" for acc'
    using Suc.hyps(1) [of "Suc k" acc'] Suc.hyps(2) k that by (simp add: B_def)
  show ?case
  proof (cases "length acc < need")
    case False
    then show ?thesis using Suc.prems(2) by (simp add: scan_byte.simps)
  next
    case need: True
    show ?thesis
    proof (cases "limit \<le> base + word_of_nat k")
      case True
      then have "unat limit \<le> B + k" by (simp add: word_le_nat_alt idx)
      then have "filter (\<lambda>i. unat lo \<le> i \<and> i < unat limit \<and> \<not> bit v (i - B)) [B + k..<B + 8] = []"
        by (simp add: filter_empty_conv)
      then show ?thesis
        using True need k by (simp add: scan_byte.simps [of lo limit need v base k] B_def)
    next
      case lim: False
      then have lim': "B + k < unat limit" by (simp add: word_le_nat_alt idx)
      have lo: "base + word_of_nat k < lo \<longleftrightarrow> \<not> unat lo \<le> B + k" by (simp add: word_less_nat_alt idx not_le)
      show ?thesis
        using need lim k lim'
        unfolding scan_byte.simps [of lo limit need v base k] Let_def lo and_bit_zero [OF k] B_def [symmetric] up
        by (simp add: IH wB Suc_diff_Suc [symmetric])
    qed
  qed
qed

lemma scan_block_found:
  fixes base lo limit :: u32
  assumes "unat base + 8 * length d \<le> 2 ^ 32" and "j \<le> length d" and "length acc \<le> need"
  shows "scan_block lo limit need d base j acc = take need (acc @ map word_of_nat
      (filter (\<lambda>i. unat lo \<le> i \<and> i < unat limit \<and> \<not> bit_at d (i - unat base))
        [unat base + 8 * j..<unat base + 8 * length d]))"
  using assms(2,3)
proof (induction "length d - j" arbitrary: j acc)
  case 0
  then show ?case by (simp add: scan_block.simps)
next
  case (Suc m)
  let ?P = "\<lambda>i. unat lo \<le> i \<and> i < unat limit \<and> \<not> bit_at d (i - unat base)"
  define B where "B = unat base"
  have j: "j < length d" using Suc.hyps(2) by simp
  have base': "unat (base + word_of_nat j * 8) = B + 8 * j"
    using assms(1) j by (simp add: B_def unat_word_ariths unat_of_nat take_bit_nat_eq_self mult.commute)
  have up: "[B + 8 * j..<B + 8 * length d] = [B + 8 * j..<B + 8 * j + 8] @ [B + 8 * Suc j..<B + 8 * length d]"
    using j upt_add_eq_append [of "B + 8 * j" "B + 8 * j + 8" "8 * (length d - Suc j)"] by (simp add: algebra_simps)
  have here: "filter (\<lambda>i. unat lo \<le> i \<and> i < unat limit \<and> \<not> bit (d ! j) (i - (B + 8 * j))) [B + 8 * j..<B + 8 * j + 8] =
      filter ?P [B + 8 * j..<B + 8 * j + 8]"
  proof (rule filter_cong [OF refl])
    fix i assume "i \<in> set [B + 8 * j..<B + 8 * j + 8]"
    then obtain k where "i = B + 8 * j + k" "k < 8" by (auto simp: le_iff_add)
    then show "(unat lo \<le> i \<and> i < unat limit \<and> \<not> bit (d ! j) (i - (B + 8 * j))) = ?P i"
      by (simp add: bit_at_def B_def)
  qed
  have byte: "scan_byte lo limit need (d ! j) (base + word_of_nat j * 8) 0 acc =
      take need (acc @ map word_of_nat (filter ?P [B + 8 * j..<B + 8 * j + 8]))"
    using scan_byte_found [of "base + word_of_nat j * 8" 0 acc need lo limit "d ! j"] assms(1) j Suc.prems(2) here
    by (simp add: base') (simp add: B_def)
  show ?case
  proof (cases "length acc < need")
    case False
    then show ?thesis using Suc.prems(2) by (simp add: scan_block.simps)
  next
    case True
    let ?acc = "take need (acc @ map word_of_nat (filter ?P [B + 8 * j..<B + 8 * j + 8]))"
    have "scan_block lo limit need d base j acc = scan_block lo limit need d base (Suc j) ?acc"
      using True j by (simp add: scan_block.simps [of lo limit need d base j] byte del: take_append)
    also have "\<dots> = take need (?acc @ map word_of_nat (filter ?P [B + 8 * Suc j..<B + 8 * length d]))"
      using Suc.hyps(1) [of "Suc j" ?acc] Suc.hyps(2) j by (simp add: B_def del: take_append)
    also have "\<dots> = take need (acc @ map word_of_nat (filter ?P [B + 8 * j..<B + 8 * length d]))"
      unfolding take_take_append up by simp
    finally show ?thesis by (simp only: B_def)
  qed
qed

section \<open>Setting a bit\<close>

lemma bits_per_bitmap:
  assumes "io_ready w"
  shows "unat (sb_blk_size (sp_blk w) * 8) = 8 * blksz w"
    and "idx div (sb_blk_size (sp_blk w) * 8) = word_of_nat (unat idx div (8 * blksz w))"
    and "unat (idx mod (sb_blk_size (sp_blk w) * 8) div 8) = unat idx mod (8 * blksz w) div 8"
    and "unat (idx mod (sb_blk_size (sp_blk w) * 8) mod 8) = unat idx mod (8 * blksz w) mod 8"
proof -
  show u: "unat (sb_blk_size (sp_blk w) * 8) = 8 * blksz w"
    using assms by (simp add: io_ready_def unat_word_ariths)
  show "idx div (sb_blk_size (sp_blk w) * 8) = word_of_nat (unat idx div (8 * blksz w))"
    by (simp add: word_unat_eq_iff unat_div_distrib u unat_of_nat take_bit_nat_eq_self div_le_dividend [THEN le_less_trans] unat_less [where 'a = 32, simplified])
  show "unat (idx mod (sb_blk_size (sp_blk w) * 8) div 8) = unat idx mod (8 * blksz w) div 8"
    "unat (idx mod (sb_blk_size (sp_blk w) * 8) mod 8) = unat idx mod (8 * blksz w) mod 8"
    by (simp_all add: unat_div_distrib unat_mod_distrib u)
qed

text \<open>A bit changes one byte, so a torn write of the block has changed the bit or nothing.\<close>

lemma torn_put_bit: "torn (put_bit i j u old) old new \<Longrightarrow> new = old \<or> new = put_bit i j u old"
  unfolding put_bit_def by (rule torn_one)

lemma wp_set_bitmap_bit:
  assumes inv: "bc_inv w"
  shows "wp (set_bitmap_bit start idx u) (\<lambda>r w'. bc_inv w' \<and> io_frame w w' \<and>
      (\<forall>c. fits w c \<longrightarrow> c \<noteq> bitmap_blk (sp_blk w) start (unat idx) \<longrightarrow> bc_view w' c = bc_view w c) \<and>
      (case r of Inl _ \<Rightarrow> \<not> (calm w w' \<and> fits w (bitmap_blk (sp_blk w) start (unat idx))) \<and>
           (fits w (bitmap_blk (sp_blk w) start (unat idx)) \<longrightarrow>
             bc_view w' (bitmap_blk (sp_blk w) start (unat idx)) = bc_view w (bitmap_blk (sp_blk w) start (unat idx)) \<or>
             bc_view w' (bitmap_blk (sp_blk w) start (unat idx)) =
               put_bit (unat idx mod (8 * blksz w) div 8) (unat idx mod (8 * blksz w) mod 8) u
                 (bc_view w (bitmap_blk (sp_blk w) start (unat idx))))
       | Inr _ \<Rightarrow> fits w (bitmap_blk (sp_blk w) start (unat idx)) \<and>
           bc_view w' (bitmap_blk (sp_blk w) start (unat idx)) =
             put_bit (unat idx mod (8 * blksz w) div 8) (unat idx mod (8 * blksz w) mod 8) u
               (bc_view w (bitmap_blk (sp_blk w) start (unat idx))))) w"
proof -
  have rdy: "io_ready w" by (rule bc.inv_ready [OF inv])
  show ?thesis
    unfolding set_bitmap_bit_def wp_bind wp_gets sum.case Let_def bits_per_bitmap [OF rdy] bitmap_blk_def [symmetric]
  proof (rule wp_with_malloc, goal_cases)
    case (1 w1)
    then show ?case
      using bc.inv_store [OF 1(1) inv] bc.view_store [OF 1(1)] by (auto simp: calm_def)
  next
    case (2 buf w1)
    have ctx: "w_ctx w1 = w_ctx w" by (rule alloc_frame_ctx [OF 2(3)])
    have fit: "fits w1 c = fits w c" for c by (rule same_store_fits [OF 2(2)])
    have len: "length buf = blksz w1" using 2(1) ctx by simp
    show ?case
    proof (rule wp_mono [OF wp_update_block [OF bc.inv_store [OF 2(2) inv] len]], simp, goal_cases)
      case (1 r w2)
      then show ?case
        using alloc_frame_freed [OF 2(3), of w2] alloc_frame_calm [OF 2(3), of w2]
          bc.inv_store [of w2 "freed w2"] bc.view_store [of w2 "freed w2"] bc.view_store [OF 2(2)] ctx fit
        by (auto split: sum.splits dest: torn_put_bit)
    qed
  qed
qed

text \<open>Bit \<open>i\<close> alone changes.\<close>

lemma used_at_put_bit:
  fixes sb :: mofs_superblock
  defines "B \<equiv> unat (sb_blk_size sb)"
  assumes len: "length (V (bitmap_blk sb start i)) = B" and B: "0 < B"
    and lt: "i < 2 ^ 32" "j < 2 ^ 32"
    and here: "V' (bitmap_blk sb start i) =
      put_bit (i mod (8 * B) div 8) (i mod (8 * B) mod 8) u (V (bitmap_blk sb start i))"
    and other: "bitmap_blk sb start j \<noteq> bitmap_blk sb start i \<Longrightarrow>
      V' (bitmap_blk sb start j) = V (bitmap_blk sb start j)"
  shows "used_at sb V' start j = (if j = i then u else used_at sb V start j)"
proof (cases "i div (8 * B) = j div (8 * B)")
  case True
  have "i mod (8 * B) = j mod (8 * B) \<longleftrightarrow> i = j"
    using True by (metis div_mult_mod_eq)
  moreover have "bit_at (V' (bitmap_blk sb start i)) (j mod (8 * B)) =
      (if j mod (8 * B) = i mod (8 * B) then u
       else bit_at (V (bitmap_blk sb start i)) (j mod (8 * B)))"
    unfolding here by (rule bit_at_put_bit) (use len B in simp_all)
  moreover have "bitmap_blk sb start j = bitmap_blk sb start i"
    using True by (simp add: bitmap_blk_def B_def)
  ultimately show ?thesis by (auto simp: used_at_def B_def)
next
  case False
  have "i div (8 * B) < 2 ^ 32" "j div (8 * B) < 2 ^ 32"
    using lt by (auto intro: le_less_trans [OF div_le_dividend])
  then have "word_of_nat (j div (8 * B)) \<noteq> (word_of_nat (i div (8 * B)) :: u32)"
    using False by (simp add: word_unat_eq_iff unat_of_nat take_bit_nat_eq_self)
  then have "bitmap_blk sb start j \<noteq> bitmap_blk sb start i" by (simp add: bitmap_blk_def B_def)
  then show ?thesis
    using other False by (auto simp: used_at_def B_def)
qed

text \<open>A run of bitmap blocks inside the device.\<close>

definition region_ok :: "world \<Rightarrow> u32 \<Rightarrow> nat \<Rightarrow> bool" where
  "region_ok w start nblk = (unat start + nblk < 2 ^ 32 \<and>
     (unat start + nblk) * blksz w \<le> length (dv_data (w_dev w)) \<and> nblk * (8 * blksz w) \<le> 2 ^ 32)"

lemma region_ok_frame: "io_frame w w' \<Longrightarrow> region_ok w start nblk \<Longrightarrow> region_ok w' start nblk"
  by (auto simp: region_ok_def io_frame_def)

lemma bitmap_blk_region:
  assumes reg: "region_ok w start nblk" and i: "i < nblk * (8 * blksz w)"
  shows "unat (bitmap_blk (sp_blk w) start i) = unat start + i div (8 * blksz w)"
    and "i div (8 * blksz w) < nblk" and "fits w (bitmap_blk (sp_blk w) start i)" and "i < 2 ^ 32"
proof -
  show d: "i div (8 * blksz w) < nblk" using i by (simp add: less_mult_imp_div_less)
  show u: "unat (bitmap_blk (sp_blk w) start i) = unat start + i div (8 * blksz w)"
    using reg d by (simp add: region_ok_def bitmap_blk_def unat_word_ariths unat_of_nat take_bit_nat_eq_self)
  show "fits w (bitmap_blk (sp_blk w) start i)"
    unfolding fits_def u by (rule block_fits [where n = "unat start + nblk"]) (use d reg in \<open>auto simp: region_ok_def\<close>)
  show "i < 2 ^ 32" using reg i by (simp add: region_ok_def)
qed

lemma wp_set_bitmap_used:
  assumes inv: "bc_inv w" and reg: "region_ok w start nblk" and idx: "unat idx < nblk * (8 * blksz w)"
  shows "wp (set_bitmap_bit start idx u) (\<lambda>r w'. bc_inv w' \<and> io_frame w w' \<and>
      (\<forall>c. fits w c \<longrightarrow> c \<noteq> bitmap_blk (sp_blk w) start (unat idx) \<longrightarrow> bc_view w' c = bc_view w c) \<and>
      (case r of Inl _ \<Rightarrow> \<not> calm w w'
       | Inr _ \<Rightarrow> \<forall>j < nblk * (8 * blksz w).
           used_at (sp_blk w') (bc_view w') start j = (if j = unat idx then u else used_at (sp_blk w) (bc_view w) start j))) w"
proof (rule wp_mono [OF wp_set_bitmap_bit [OF inv]], goal_cases)
  case (1 r w')
  note fit = bitmap_blk_region(3) [OF reg]
  have B: "0 < blksz w" using bc.inv_ready [OF inv] by (simp add: io_ready_def)
  show ?case
  proof (cases r)
    case (Inl e)
    then show ?thesis using 1 fit [OF idx] by simp
  next
    case (Inr v)
    have sb': "sp_blk w' = sp_blk w" using 1 io_frame_ctx [of w w'] by simp
    have "used_at (sp_blk w') (bc_view w') start j = (if j = unat idx then u else used_at (sp_blk w) (bc_view w) start j)"
      if j: "j < nblk * (8 * blksz w)" for j
      unfolding sb'
      by (rule used_at_put_bit)
        (use 1 Inr bc.view_length [OF inv fit [OF idx]] fit [OF j] B io_frame_ctx [of w w'] bitmap_blk_region(4) [OF reg] idx j in auto)
    then show ?thesis using 1 Inr by simp
  qed
qed

section \<open>Searching for free entries\<close>

definition free_from :: "world \<Rightarrow> u32 \<Rightarrow> nat \<Rightarrow> nat \<Rightarrow> nat list" where
  "free_from w start lo limit = filter (\<lambda>i. \<not> used_at (sp_blk w) (bc_view w) start i) [lo..<limit]"

lemma filter_upt_range:
  assumes "hi \<le> n"
  shows "filter (\<lambda>i. lo \<le> i \<and> i < hi \<and> P i) [0..<n] = filter P [lo..<hi]"
proof -
  have "[0..<n] = [0..<hi] @ [hi..<n]" using assms upt_add_eq_append [of 0 hi "n - hi"] by simp
  then have 1: "filter (\<lambda>i. lo \<le> i \<and> i < hi \<and> P i) [0..<n] = filter (\<lambda>i. lo \<le> i \<and> P i) [0..<hi]"
    by (simp add: filter_empty_conv) (rule filter_cong, auto)
  show ?thesis
  proof (cases "lo \<le> hi")
    case True
    then have "[0..<hi] = [0..<lo] @ [lo..<hi]" using upt_add_eq_append [of 0 lo "hi - lo"] by simp
    then show ?thesis unfolding 1 by (simp add: filter_empty_conv) (rule filter_cong, auto)
  next
    case False
    then show ?thesis unfolding 1 by (simp add: filter_empty_conv)
  qed
qed

lemma scan_block_view:
  assumes reg: "region_ok w start nblk" and b: "b < nblk" and rdy: "io_ready w"
    and len: "length (bc_view w (start + word_of_nat b)) = blksz w" and acc: "length acc \<le> need"
  shows "scan_block lo limit need (bc_view w (start + word_of_nat b))
      (word_of_nat b * (sb_blk_size (sp_blk w) * 8)) 0 acc =
    take need (acc @ map word_of_nat (filter (\<lambda>i. unat lo \<le> i \<and> i < unat limit \<and> \<not> used_at (sp_blk w) (bc_view w) start i)
      [b * (8 * blksz w)..<Suc b * (8 * blksz w)]))"
proof -
  let ?K = "8 * blksz w"
  have K: "0 < ?K" using rdy by (simp add: io_ready_def)
  have le: "b * ?K + ?K \<le> nblk * ?K" using b mult_le_mono1 [of "Suc b" nblk ?K] by simp
  have lt: "b * ?K < 2 ^ 32" and le32: "b * ?K + ?K \<le> 2 ^ 32"
    using le reg K by (auto simp: region_ok_def)
  have b32: "b < 2 ^ 32" using b reg by (simp add: region_ok_def)
  have base: "unat (word_of_nat b * (sb_blk_size (sp_blk w) * 8)) = b * ?K"
    unfolding unat_word_ariths(2) [of "word_of_nat b"] bits_per_bitmap [OF rdy]
    using lt b32 by (simp add: unat_of_nat take_bit_nat_eq_self)
  have "filter (\<lambda>i. unat lo \<le> i \<and> i < unat limit \<and> \<not> bit_at (bc_view w (start + word_of_nat b)) (i - b * ?K))
      [b * ?K..<b * ?K + ?K] =
    filter (\<lambda>i. unat lo \<le> i \<and> i < unat limit \<and> \<not> used_at (sp_blk w) (bc_view w) start i) [b * ?K..<b * ?K + ?K]"
  proof (rule filter_cong [OF refl])
    fix i assume "i \<in> set [b * ?K..<b * ?K + ?K]"
    then obtain k where k: "i = b * ?K + k" "k < ?K" by (auto simp: le_iff_add)
    have "i div ?K = b" unfolding k(1) by (subst div_mult_self3) (use K k in auto)
    moreover have "i mod ?K = k" unfolding k(1) by (subst mod_mult_self3) (use k in auto)
    ultimately show "(unat lo \<le> i \<and> i < unat limit \<and> \<not> bit_at (bc_view w (start + word_of_nat b)) (i - b * ?K)) =
        (unat lo \<le> i \<and> i < unat limit \<and> \<not> used_at (sp_blk w) (bc_view w) start i)"
      unfolding used_at_def bitmap_blk_def by (simp add: k(1))
  qed
  then show ?thesis
    using scan_block_found [of "word_of_nat b * (sb_blk_size (sp_blk w) * 8)" "bc_view w (start + word_of_nat b)" 0 acc need lo limit]
      le32 acc unfolding base len by (simp add: add.commute)
qed

lemma used_at_same:
  assumes "w_ctx w' = w_ctx w" and "\<And>c. fits w c \<Longrightarrow> bc_view w' c = bc_view w c"
    and "region_ok w start nblk" and "i < nblk * (8 * blksz w)"
  shows "used_at (sp_blk w') (bc_view w') start i = used_at (sp_blk w) (bc_view w) start i"
  using bitmap_blk_region(3) [OF assms(3,4)] assms(1,2) by (simp add: used_at_def bitmap_blk_def)

lemma wp_scan_bitmap:
  assumes "bc_inv w" and "region_ok w start nblk" and "b + n = nblk" and "length buf = blksz w"
    and "length acc \<le> need"
  shows "wp (scan_bitmap start lo limit need n (word_of_nat b) buf acc) (\<lambda>r w'. bc_inv w' \<and> io_frame w w' \<and>
      (\<forall>c. fits w c \<longrightarrow> bc_view w' c = bc_view w c) \<and>
      (case r of Inl _ \<Rightarrow> \<not> calm w w'
       | Inr found \<Rightarrow> found = take need (acc @ map word_of_nat
           (filter (\<lambda>i. unat lo \<le> i \<and> i < unat limit \<and> \<not> used_at (sp_blk w) (bc_view w) start i)
             [b * (8 * blksz w)..<nblk * (8 * blksz w)])))) w"
  using assms
proof (induction n arbitrary: b buf acc w)
  case 0
  then show ?case by (simp add: wp_simps)
next
  case (Suc n)
  let ?K = "8 * blksz w"
  let ?P = "\<lambda>i. unat lo \<le> i \<and> i < unat limit \<and> \<not> used_at (sp_blk w) (bc_view w) start i"
  show ?case
  proof (cases "length acc < need")
    case False
    then show ?thesis using Suc.prems by (simp add: wp_simps)
  next
    case True
    have b: "b < nblk" using Suc.prems(3) by simp
    have bK: "b * ?K < nblk * ?K" using b Suc.prems(1) bc.inv_ready [of w] by (simp add: io_ready_def)
    have blk: "bitmap_blk (sp_blk w) start (b * ?K) = start + word_of_nat b"
      using Suc.prems(1) bc.inv_ready [of w] by (simp add: bitmap_blk_def io_ready_def)
    have fit: "fits w (start + word_of_nat b)"
      using bitmap_blk_region(3) [OF Suc.prems(2) bK] unfolding blk .
    have len: "length (bc_view w (start + word_of_nat b)) = blksz w"
      by (rule bc.view_length [OF Suc.prems(1) fit])
    have up: "[b * ?K..<nblk * ?K] = [b * ?K..<Suc b * ?K] @ [Suc b * ?K..<nblk * ?K]"
      using upt_add_eq_append [of "b * ?K" "Suc b * ?K" "nblk * ?K - Suc b * ?K"] mult_le_mono1 [of "Suc b" nblk ?K] b by simp
    let ?acc = "take need (acc @ map word_of_nat (filter ?P [b * ?K..<Suc b * ?K]))"
    show ?thesis
      unfolding scan_bitmap.simps if_P [OF True]
    proof (rule wp_bind_rule [OF wp_read_block [OF Suc.prems(1,4)]], goal_cases)
      case (1 e w')
      then show ?case using fit by simp
    next
      case (2 d w1)
      then have d: "d = bc_view w (start + word_of_nat b)" and inv1: "bc_inv w1" and fr1: "io_frame w w1"
        and same: "\<And>c. fits w c \<Longrightarrow> bc_view w1 c = bc_view w c" by auto
      have ctx: "w_ctx w1 = w_ctx w" by (rule io_frame_ctx [OF fr1])
      have scan: "scan_block lo limit need d (word_of_nat b * (sb_blk_size (sp_blk w1) * 8)) 0 acc = ?acc"
        unfolding d ctx by (rule scan_block_view [OF Suc.prems(2) b bc.inv_ready [OF Suc.prems(1)] len Suc.prems(5)])
      have same_used: "filter (\<lambda>i. unat lo \<le> i \<and> i < unat limit \<and> \<not> used_at (sp_blk w) (bc_view w1) start i) [Suc b * ?K..<nblk * ?K] =
          filter ?P [Suc b * ?K..<nblk * ?K]"
        by (rule filter_cong [OF refl]) (use used_at_same [OF ctx same Suc.prems(2), unfolded ctx] in auto)
      have dlen: "length d = blksz w1" using d len ctx by simp
      have acclen: "length ?acc \<le> need" by simp
      have nn: "Suc b + n = nblk" using Suc.prems(3) by simp
      have suc: "word_of_nat (Suc b) = (word_of_nat b + 1 :: u32)" by simp
      show ?case
        unfolding wp_bind wp_gets sum.case scan suc [symmetric]
      proof (rule wp_mono [OF Suc.IH [OF inv1 region_ok_frame [OF fr1 Suc.prems(2)] nn dlen acclen]], goal_cases)
        case (1 r w')
        then show ?case
          using io_frame_trans [OF fr1, of w'] calm_split(2) [of w w' w1] fr1 same fits_frame [OF fr1]
          unfolding ctx same_used take_take_append up
          by (auto split: sum.splits)
      qed
    qed
  qed
qed

lemma take_less_length: "length (take n xs) < n \<longleftrightarrow> length xs < n"
  by auto

lemma wp_find_free_indices:
  assumes inv: "bc_inv w" and reg: "region_ok w start (unat nblk)"
    and lim: "unat limit \<le> unat nblk * (8 * blksz w)"
  shows "wp (find_free_indices start nblk lo limit need) (\<lambda>r w'. bc_inv w' \<and> io_frame w w' \<and>
      (\<forall>c. fits w c \<longrightarrow> bc_view w' c = bc_view w c) \<and>
      (case r of Inl e \<Rightarrow> calm w w' \<longrightarrow> e = MOFS_ENOSPC \<and> length (free_from w start (unat lo) (unat limit)) < unat need
       | Inr found \<Rightarrow> unat need \<le> length (free_from w start (unat lo) (unat limit)) \<and>
           found = map word_of_nat (take (unat need) (free_from w start (unat lo) (unat limit))))) w"
proof (cases "need = 0")
  case True
  then show ?thesis using inv by (simp add: find_free_indices_def wp_simps)
next
  case False
  let ?free = "free_from w start (unat lo) (unat limit)"
  show ?thesis
    unfolding find_free_indices_def if_not_P [OF False] wp_bind wp_gets sum.case
  proof (rule wp_with_malloc, goal_cases)
    case (1 w1)
    then show ?case
      using bc.inv_store [OF 1(1) inv] bc.view_store [OF 1(1)] by (auto simp: calm_def)
  next
    case (2 buf w1)
    have ctx: "w_ctx w1 = w_ctx w" by (rule alloc_frame_ctx [OF 2(3)])
    have fit: "fits w1 c = fits w c" for c by (rule same_store_fits [OF 2(2)])
    have used: "used_at (sp_blk w1) (bc_view w1) start i = used_at (sp_blk w) (bc_view w) start i" for i
      using bc.view_store [OF 2(2)] ctx by (simp add: used_at_def)
    have len: "length buf = blksz w1" using 2(1) ctx by simp
    have reg1: "region_ok w1 start (unat nblk)" using reg 2(2) by (simp add: region_ok_def same_store_def)
    have range: "filter (\<lambda>i. unat lo \<le> i \<and> i < unat limit \<and> \<not> used_at (sp_blk w) (bc_view w) start i) [0..<unat nblk * (8 * blksz w)] = ?free"
      unfolding free_from_def by (rule filter_upt_range [OF lim])
    have scan: "wp (scan_bitmap start lo limit (unat need) (unat nblk) (word_of_nat 0) buf []) (\<lambda>r w'. bc_inv w' \<and> io_frame w1 w' \<and>
      (\<forall>c. fits w c \<longrightarrow> bc_view w' c = bc_view w c) \<and>
      (case r of Inl _ \<Rightarrow> \<not> calm w1 w' | Inr found \<Rightarrow> found = map word_of_nat (take (unat need) ?free))) w1"
      by (rule wp_mono [OF wp_scan_bitmap [OF bc.inv_store [OF 2(2) inv] reg1 add_0 len, of "[]"]])
        (use fit bc.view_store [OF 2(2)] used range ctx in \<open>auto simp: take_map split: sum.splits\<close>)
    show ?case
      unfolding wp_bind [symmetric]
    proof (rule wp_bind_rule [OF scan [unfolded semiring_1_class.of_nat_0]], goal_cases)
      case (1 e w2)
      then show ?case
        using alloc_frame_freed [OF 2(3), of w2] alloc_frame_calm [OF 2(3), of w2]
          bc.inv_store [of w2 "freed w2"] bc.view_store [of w2 "freed w2"] by auto
    next
      case (2 found w2)
      then have found: "found = map word_of_nat (take (unat need) ?free)" by simp
      show ?case
        using 2 alloc_frame_freed [OF \<open>alloc_frame w w1\<close>, of w2]
          bc.inv_store [of w2 "freed w2"] bc.view_store [of w2 "freed w2"]
        unfolding found length_map take_less_length by (simp add: wp_simps)
    qed
  qed
qed

section \<open>Regions of a well-formed volume\<close>

lemma layout_okD:
  assumes "layout_ok sb"
  shows "mofs_validate_logical_blk_size (sb_blk_size sb) = None"
    and "1 \<le> unat (sb_inode_bitmap_start sb)"
    and "unat (sb_inode_bitmap_start sb) \<le> unat (sb_data_bitmap_start sb)"
    and "unat (sb_data_bitmap_start sb) \<le> unat (sb_inode_table_start sb)"
    and "unat (sb_inode_table_start sb) \<le> unat (sb_data_region_start sb)"
    and "unat (sb_data_region_start sb) + unat (sb_data_blk_num sb) < 2 ^ 32"
    and "unat (sb_inode_num sb) * 64 \<le>
      (unat (sb_data_region_start sb) - unat (sb_inode_table_start sb)) * unat (sb_blk_size sb)"
    and "unat (sb_inode_num sb) * 64 < 2 ^ 31"
    and "unat (sb_inode_num sb) \<le>
      (unat (sb_data_bitmap_start sb) - unat (sb_inode_bitmap_start sb)) * (8 * unat (sb_blk_size sb))"
    and "(unat (sb_data_bitmap_start sb) - unat (sb_inode_bitmap_start sb)) * (8 * unat (sb_blk_size sb)) \<le> 2 ^ 32"
    and "unat (sb_data_blk_num sb) \<le>
      (unat (sb_inode_table_start sb) - unat (sb_data_bitmap_start sb)) * (8 * unat (sb_blk_size sb))"
    and "(unat (sb_inode_table_start sb) - unat (sb_data_bitmap_start sb)) * (8 * unat (sb_blk_size sb)) \<le> 2 ^ 32"
  using assms unfolding layout_ok_def Let_def by blast+

lemma vol_okD:
  assumes "vol_ok w"
  shows "layout_ok (sp_blk w)"
    and "(unat (sb_data_region_start (sp_blk w)) + unat (sb_data_blk_num (sp_blk w))) * blksz w
      \<le> length (dv_data (w_dev w))"
  using assms by (simp_all add: vol_ok_def)

lemma vol_ok_frame: "io_frame w w' \<Longrightarrow> vol_ok w \<Longrightarrow> vol_ok w'"
  by (auto simp: vol_ok_def io_frame_def)

lemma vol_fits:
  assumes "vol_ok w" and "unat b < unat (sb_data_region_start (sp_blk w)) + unat (sb_data_blk_num (sp_blk w))"
  shows "fits w b"
  unfolding fits_def by (rule block_fits [OF assms(2) vol_okD(2) [OF assms(1)]])

lemma vol_end:
  assumes "vol_ok w" and "b \<le> unat (sb_data_region_start (sp_blk w))"
  shows "b < 2 ^ 32" and "b * blksz w \<le> length (dv_data (w_dev w))"
proof -
  show "b < 2 ^ 32" using layout_okD(6) [OF vol_okD(1) [OF assms(1)]] assms(2) by simp
  have "b * blksz w \<le> (unat (sb_data_region_start (sp_blk w)) + unat (sb_data_blk_num (sp_blk w))) * blksz w"
    using assms(2) by (intro mult_le_mono1) simp
  then show "b * blksz w \<le> length (dv_data (w_dev w))"
    using vol_okD(2) [OF assms(1)] by (rule order_trans)
qed

lemma unat_sub_le: "unat a \<le> unat b \<Longrightarrow> unat (b - a) = unat b - unat (a :: u32)"
  by (simp add: unat_sub word_le_nat_alt)

lemma bitmap_region:
  assumes "vol_ok w" and le: "unat start \<le> unat stop" and "unat stop \<le> unat (sb_data_region_start (sp_blk w))"
    and "(unat stop - unat start) * (8 * blksz w) \<le> 2 ^ 32"
  shows "region_ok w start (unat (stop - start))"
  unfolding region_ok_def unat_sub_le [OF le] le_add_diff_inverse [OF le]
  using vol_end [OF assms(1,3)] assms(4) by simp

lemma vol_regions:
  assumes "vol_ok w"
  shows "region_ok w (sb_data_bitmap_start (sp_blk w))
      (unat (sb_inode_table_start (sp_blk w) - sb_data_bitmap_start (sp_blk w)))"
    and "unat (sb_data_blk_num (sp_blk w)) \<le>
      unat (sb_inode_table_start (sp_blk w) - sb_data_bitmap_start (sp_blk w)) * (8 * blksz w)"
    and "region_ok w (sb_inode_bitmap_start (sp_blk w))
      (unat (sb_data_bitmap_start (sp_blk w) - sb_inode_bitmap_start (sp_blk w)))"
    and "unat (sb_inode_num (sp_blk w)) \<le>
      unat (sb_data_bitmap_start (sp_blk w) - sb_inode_bitmap_start (sp_blk w)) * (8 * blksz w)"
proof -
  note v = layout_okD [OF vol_okD(1) [OF assms]]
  show "region_ok w (sb_data_bitmap_start (sp_blk w))
      (unat (sb_inode_table_start (sp_blk w) - sb_data_bitmap_start (sp_blk w)))"
    by (rule bitmap_region [OF assms v(4,5,12)])
  show "region_ok w (sb_inode_bitmap_start (sp_blk w))
      (unat (sb_data_bitmap_start (sp_blk w) - sb_inode_bitmap_start (sp_blk w)))"
    by (rule bitmap_region [OF assms v(3) order_trans [OF v(4,5)] v(10)])
  show "unat (sb_data_blk_num (sp_blk w)) \<le>
      unat (sb_inode_table_start (sp_blk w) - sb_data_bitmap_start (sp_blk w)) * (8 * blksz w)"
    unfolding unat_sub_le [OF v(4)] by (rule v(11))
  show "unat (sb_inode_num (sp_blk w)) \<le>
      unat (sb_data_bitmap_start (sp_blk w) - sb_inode_bitmap_start (sp_blk w)) * (8 * blksz w)"
    unfolding unat_sub_le [OF v(3)] by (rule v(9))
qed

end
