(* ===== verification/Mofs_Disk.thy ===== *)
theory Mofs_Disk
  imports Mofs_Bitmap
begin

text \<open>
  The volume as the upper layers see it: \<open>vol w\<close> gives the current content of every block of the
  mounted volume, whichever cache holds it. \<open>runs E V m P\<close> is the contract of a routine of the
  core that works on a volume with content \<open>V\<close>: it returns, keeps the invariants, leaves the
  rest of the world alone, and the content \<open>V'\<close> after it satisfies \<open>P V' r c\<close>, where \<open>r\<close> is
  the result and \<open>c\<close> may be assumed true only if nothing failed meanwhile. \<open>E\<close> is what the
  routine may read of the world besides the volume.

  With these contracts the routines above block I/O are specified by functions on volumes, and
  their proofs do not mention devices, caches or faults any more.
\<close>

section \<open>Volumes\<close>

type_synonym disk = "u32 \<Rightarrow> byte list"

record env =
  en_sb :: mofs_superblock
  en_user :: mofs_user_ctx
  en_euid :: u32
  en_egid :: u32
  en_pid :: u32
  en_groups :: "u32 list"
  en_files :: "mofs_filehandle list"
  en_dirs :: "mofs_dirhandle list"

definition env_of :: "world \<Rightarrow> env" where
  "env_of w = \<lparr>en_sb = sp_blk w, en_user = w_user w, en_euid = os_euid (w_os w), en_egid = os_egid (w_os w),
     en_pid = os_pid (w_os w), en_groups = os_groups (w_os w), en_files = w_files w, en_dirs = w_dirs w\<rparr>"

abbreviation bsz :: "env \<Rightarrow> nat" where
  "bsz E \<equiv> unat (sb_blk_size (en_sb E))"

definition in_vol :: "mofs_superblock \<Rightarrow> u32 \<Rightarrow> bool" where
  "in_vol sb b = (unat b < unat (sb_data_region_start sb) + unat (sb_data_blk_num sb))"

definition vol :: "world \<Rightarrow> disk" where
  "vol w = (\<lambda>b. if in_vol (sp_blk w) b then bc_view w b else [])"

definition fs_ok :: "world \<Rightarrow> bool" where
  "fs_ok w = (bc_inv w \<and> vol_ok w)"

lemma fs_ok_layout: "fs_ok w \<Longrightarrow> layout_ok (sp_blk w)"
  by (simp add: fs_ok_def vol_ok_def)

lemma fs_ok_frame: "fs_ok w \<Longrightarrow> io_frame w w' \<Longrightarrow> bc_inv w' \<Longrightarrow> fs_ok w'"
  using vol_ok_frame by (auto simp: fs_ok_def)

lemma env_frame: "io_frame w w' \<Longrightarrow> env_of w' = env_of w"
  by (simp add: env_of_def io_frame_def os_frame_def)

lemma in_vol_fits: "fs_ok w \<Longrightarrow> in_vol (sp_blk w) b \<Longrightarrow> fits w b"
  by (simp add: fs_ok_def in_vol_def vol_fits)

lemma vol_length: "fs_ok w \<Longrightarrow> in_vol (sp_blk w) b \<Longrightarrow> length (vol w b) = blksz w"
  using bc.view_length [of w b] in_vol_fits [of w b] by (simp add: vol_def fs_ok_def)

lemma vol_store: "same_store w w' \<Longrightarrow> vol w' = vol w"
  using bc.view_store [of w w'] by (auto simp: vol_def same_store_def)

lemma fs_ok_store: "same_store w w' \<Longrightarrow> fs_ok w \<Longrightarrow> fs_ok w'"
  using bc.inv_store [of w w'] by (auto simp: fs_ok_def vol_ok_def same_store_def)

lemma vol_same:
  assumes "fs_ok w" and "io_frame w w'" and "\<forall>c. fits w c \<longrightarrow> bc_view w' c = bc_view w c"
  shows "vol w' = vol w"
proof
  fix c
  show "vol w' c = vol w c"
    using assms(3) in_vol_fits [OF assms(1), of c] io_frame_ctx [OF assms(2)] by (simp add: vol_def)
qed

lemma vol_update:
  assumes "fs_ok w" and "io_frame w w'" and "in_vol (sp_blk w) b"
    and "\<forall>c. fits w c \<longrightarrow> c \<noteq> b \<longrightarrow> bc_view w' c = bc_view w c"
  shows "vol w' = (vol w)(b := bc_view w' b)"
proof
  fix c
  show "vol w' c = ((vol w)(b := bc_view w' b)) c"
    using assms(3,4) in_vol_fits [OF assms(1), of c] io_frame_ctx [OF assms(2)]
    by (cases "c = b") (auto simp: vol_def)
qed

section \<open>Contracts\<close>

definition runs :: "env \<Rightarrow> disk \<Rightarrow> 'a mofs \<Rightarrow> (disk \<Rightarrow> 'a res \<Rightarrow> bool \<Rightarrow> bool) \<Rightarrow> bool" where
  "runs E V m P = (\<forall>w. fs_ok w \<and> env_of w = E \<and> vol w = V \<longrightarrow>
     wp m (\<lambda>r w'. fs_ok w' \<and> io_frame w w' \<and> P (vol w') r False \<and> (calm w w' \<longrightarrow> P (vol w') r True)) w)"

lemma runsI:
  assumes "\<And>w. fs_ok w \<Longrightarrow> env_of w = E \<Longrightarrow> vol w = V \<Longrightarrow> sp_blk w = en_sb E \<Longrightarrow>
    wp m (\<lambda>r w'. fs_ok w' \<and> io_frame w w' \<and> P (vol w') r False \<and> (calm w w' \<longrightarrow> P (vol w') r True)) w"
  shows "runs E V m P"
  using assms by (auto simp: runs_def env_of_def)

lemma runsD:
  assumes "runs E V m P" and "fs_ok w" and "env_of w = E" and "vol w = V"
  shows "wp m (\<lambda>r w'. fs_ok w' \<and> io_frame w w' \<and> P (vol w') r False \<and> (calm w w' \<longrightarrow> P (vol w') r True)) w"
  using assms by (simp add: runs_def)

text \<open>Every block of a volume has the size of a block.\<close>

definition wf_disk :: "mofs_superblock \<Rightarrow> disk \<Rightarrow> bool" where
  "wf_disk sb V = ((\<forall>b. in_vol sb b \<longrightarrow> length (V b) = unat (sb_blk_size sb)) \<and> (\<forall>b. \<not> in_vol sb b \<longrightarrow> V b = []))"

lemma wf_diskD: "wf_disk sb V \<Longrightarrow> in_vol sb b \<Longrightarrow> length (V b) = unat (sb_blk_size sb)"
  by (simp add: wf_disk_def)

lemma wf_disk_update:
  "wf_disk sb V \<Longrightarrow> in_vol sb b \<Longrightarrow> length d = unat (sb_blk_size sb) \<Longrightarrow> wf_disk sb (V(b := d))"
  by (simp add: wf_disk_def)

lemma vol_wf: "fs_ok w \<Longrightarrow> wf_disk (sp_blk w) (vol w)"
  using vol_length [of w] by (auto simp: wf_disk_def) (simp add: vol_def)

text \<open>A contract need only be shown for well-formed volumes, and gives well-formed volumes.\<close>

lemma runs_wf:
  assumes "layout_ok (en_sb E) \<Longrightarrow> wf_disk (en_sb E) V \<Longrightarrow> runs E V m P"
  shows "runs E V m P"
proof (rule runsI)
  fix w assume w: "fs_ok w" "env_of w = E" "vol w = V" "sp_blk w = en_sb E"
  have "runs E V m P" by (rule assms) (use fs_ok_layout [OF w(1)] vol_wf [OF w(1)] w in simp_all)
  then show "wp m (\<lambda>r w'. fs_ok w' \<and> io_frame w w' \<and> P (vol w') r False \<and> (calm w w' \<longrightarrow> P (vol w') r True)) w"
    using w by (intro runsD)
qed

lemma runs_keeps_wf:
  assumes "runs E V m P"
  shows "runs E V m (\<lambda>V' r c. P V' r c \<and> wf_disk (en_sb E) V')"
proof (rule runsI)
  fix w assume w: "fs_ok w" "env_of w = E" "vol w = V" "sp_blk w = en_sb E"
  show "wp m (\<lambda>r w'. fs_ok w' \<and> io_frame w w' \<and> (P (vol w') r False \<and> wf_disk (en_sb E) (vol w')) \<and>
      (calm w w' \<longrightarrow> P (vol w') r True \<and> wf_disk (en_sb E) (vol w'))) w"
  proof (rule wp_mono [OF runsD [OF assms w(1,2,3)]], goal_cases)
    case (1 r w')
    have "sp_blk w' = en_sb E" using 1 io_frame_ctx [of w w'] w(4) by simp
    then show ?case using 1 vol_wf [of w'] by simp
  qed
qed

lemma runs_mono:
  assumes "runs E V m P" and "\<And>V' r c. P V' r c \<Longrightarrow> Q V' r c"
  shows "runs E V m Q"
  using assms unfolding runs_def by (blast intro: wp_mono)

lemma runs_conj:
  assumes "runs E V m P" and "runs E V m Q"
  shows "runs E V m (\<lambda>V' r c. P V' r c \<and> Q V' r c)"
proof (rule runsI)
  fix w assume w: "fs_ok w" "env_of w = E" "vol w = V"
  show "wp m (\<lambda>r w'. fs_ok w' \<and> io_frame w w' \<and> (P (vol w') r False \<and> Q (vol w') r False) \<and>
      (calm w w' \<longrightarrow> P (vol w') r True \<and> Q (vol w') r True)) w"
    by (rule wp_mono [OF wp_conj [OF runsD [OF assms(1) w] runsD [OF assms(2) w]]]) blast
qed

lemma runs_bind:
  assumes "runs E V m P"
    and "\<And>V' e c. P V' (Inl e) c \<Longrightarrow> R V' (Inl e) c"
    and "\<And>V' x. P V' (Inr x) False \<Longrightarrow> runs E V' (f x) (\<lambda>V'' r c. P V' (Inr x) c \<longrightarrow> R V'' r c)"
  shows "runs E V (bind m f) R"
proof (rule runsI)
  fix w assume w: "fs_ok w" "env_of w = E" "vol w = V"
  show "wp (bind m f) (\<lambda>r w'. fs_ok w' \<and> io_frame w w' \<and> R (vol w') r False \<and> (calm w w' \<longrightarrow> R (vol w') r True)) w"
  proof (rule wp_bind_rule [OF runsD [OF assms(1) w]], goal_cases)
    case (1 e w')
    then show ?case using assms(2) by blast
  next
    case (2 x w1)
    have env: "env_of w1 = E" using 2 w(2) env_frame [of w w1] by simp
    have P: "P (vol w1) (Inr x) False" using 2 by blast
    show ?case
    proof (rule wp_mono [OF runsD [OF assms(3) [OF P] _ env refl]], goal_cases)
      case 1
      then show ?case using 2 by blast
    next
      case (2 r w2)
      have fr: "io_frame w w1" using \<open>fs_ok w1 \<and> _\<close> by blast
      have "calm w w2 \<longrightarrow> R (vol w2) r True"
        using 2 calm_split [of w w2 w1] fr \<open>fs_ok w1 \<and> _\<close> by blast
      then show ?case using 2 P io_frame_trans [OF fr, of w2] by blast
    qed
  qed
qed

text \<open>A first step that leaves the volume alone.\<close>

lemma runs_ret: "(\<And>c. P V (Inr x) c) \<Longrightarrow> runs E V (ret x) P"
  by (rule runsI) (simp add: wp_simps)

lemma runs_throw: "(\<And>c. P V (Inl e) c) \<Longrightarrow> runs E V (throw e) P"
  by (rule runsI) (simp add: wp_simps)

lemma runs_from_res: "(\<And>c. P V r c) \<Longrightarrow> runs E V (from_res r) P"
  by (rule runsI) (simp add: wp_simps)

lemma runs_gets_sb: "runs E V (f (en_sb E)) P \<Longrightarrow> runs E V (bind (gets sp_blk) f) P"
  by (rule runsI) (simp add: wp_simps runs_def)

lemma runs_gets:
  assumes "\<And>w. env_of w = E \<Longrightarrow> g w = x" and "runs E V (f x) P"
  shows "runs E V (bind (gets g) f) P"
  using assms by (intro runsI) (simp add: wp_simps runs_def)

lemma runs_throw_if:
  assumes "b \<Longrightarrow> (\<And>c. P V (Inl e) c)" and "\<not> b \<Longrightarrow> runs E V (f ()) P"
  shows "runs E V (bind (throw_if b e) f) P"
  using assms by (intro runsI) (auto simp: wp_simps runs_def)

lemma runs_attempt:
  "runs E V m P \<Longrightarrow> runs E V (attempt m) (\<lambda>V' r c. case r of Inl _ \<Rightarrow> False | Inr r' \<Rightarrow> P V' r' c)"
  unfolding runs_def by (auto simp: wp_simps)

lemma runs_attempt_bind:
  assumes "runs E V m P" and "\<And>V' r. P V' r False \<Longrightarrow> runs E V' (f r) (\<lambda>V'' r' c. P V' r c \<longrightarrow> R V'' r' c)"
  shows "runs E V (bind (attempt m) f) R"
  by (rule runs_bind [OF runs_attempt [OF assms(1)]]) (use assms(2) in auto)

lemma runs_any_world: "(\<And>x. runs E V (f x) P) \<Longrightarrow> runs E V (bind (gets g) f) P"
  by (rule runsI) (simp add: wp_simps runs_def)

lemma runs_if: "(b \<Longrightarrow> runs E V m P) \<Longrightarrow> (\<not> b \<Longrightarrow> runs E V n P) \<Longrightarrow> runs E V (if b then m else n) P"
  by simp

lemma runs_now: "runs E V mofs_now (\<lambda>V' r c. V' = V \<and> (c \<longrightarrow> (\<exists>t. r = Inr t)))"
proof (rule runsI)
  fix w assume w: "fs_ok w" "env_of w = E" "vol w = V"
  have st: "same_store w (w\<lparr>w_os := os_tick (w_os w)\<rparr>)"
    "same_store w (w\<lparr>w_os := (os_tick (w_os w))\<lparr>os_errno := n\<rparr>\<rparr>)" for n
    by (simp_all add: same_store_def)
  show "wp mofs_now (\<lambda>r w'. fs_ok w' \<and> io_frame w w' \<and> (vol w' = V \<and> (False \<longrightarrow> (\<exists>t. r = Inr t))) \<and>
      (calm w w' \<longrightarrow> vol w' = V \<and> (True \<longrightarrow> (\<exists>t. r = Inr t)))) w"
    using w os_ok_now [of w]
    by (auto simp: mofs_now_def set_os_errno_def wp_simps vol_store [OF st(1)] vol_store [OF st(2)]
        fs_ok_store [OF st(1)] fs_ok_store [OF st(2)] calm_def split: os_fault.splits)
qed

lemma runs_with_malloc:
  assumes "P V (Inl MOFS_ENOMEM) False"
    and "\<And>buf. length buf = n \<Longrightarrow> runs E V (body buf) P"
  shows "runs E V (with_malloc n body) P"
proof (rule runsI)
  fix w assume w: "fs_ok w" "env_of w = E" "vol w = V"
  show "wp (with_malloc n body) (\<lambda>r w'. fs_ok w' \<and> io_frame w w' \<and> P (vol w') r False \<and>
      (calm w w' \<longrightarrow> P (vol w') r True)) w"
  proof (rule wp_with_malloc, goal_cases)
    case (1 w1)
    then show ?case
      using assms(1) w vol_store [OF 1(1)] fs_ok_store [OF 1(1) w(1)] by (simp add: calm_def)
  next
    case (2 buf w1)
    have env: "env_of w1 = E"
      using 2(3) w(2) by (auto simp: alloc_frame_def io_frame_def os_frame_def env_of_def)
    show ?case
    proof (rule wp_mono [OF runsD [OF assms(2) [OF 2(1)] fs_ok_store [OF 2(2) w(1)] env]], goal_cases)
      case 1
      then show ?case using vol_store [OF 2(2)] w(3) by simp
    next
      case (2 r w2)
      then show ?case
        using fs_ok_store [of w2 "freed w2"] vol_store [of w2 "freed w2"]
          alloc_frame_freed [OF \<open>alloc_frame w w1\<close>, of w2] alloc_frame_calm [OF \<open>alloc_frame w w1\<close>, of w2]
        by auto
    qed
  qed
qed

lemma runs_core_locked:
  assumes "runs E V m P"
  shows "runs E V (core_locked m) P"
proof (rule runsI)
  fix w assume w: "fs_ok w" "env_of w = E" "vol w = V"
  have st: "same_store w (locked w)" by simp
  have env: "env_of (locked w) = E" using w(2) by (simp add: locked_def env_of_def)
  show "wp (core_locked m) (\<lambda>r w'. fs_ok w' \<and> io_frame w w' \<and> P (vol w') r False \<and> (calm w w' \<longrightarrow> P (vol w') r True)) w"
    unfolding wp_core_locked
  proof (rule wp_mono [OF runsD [OF assms fs_ok_store [OF st w(1)] env]], goal_cases)
    case 1
    then show ?case using vol_store [OF st] w(3) by simp
  next
    case (2 r w')
    then show ?case
      using fs_ok_store [of w' "unlocked w'"] vol_store [of w' "unlocked w'"] locked_frame [of w w'] locked_calm [of w w']
      by auto
  qed
qed

section \<open>Block I/O on a volume\<close>

lemma runs_read_block:
  assumes "length buf = bsz E"
  shows "runs E V (read_block buf b) (\<lambda>V' r c. V' = V \<and>
    (case r of Inl _ \<Rightarrow> in_vol (en_sb E) b \<longrightarrow> \<not> c
     | Inr d \<Rightarrow> length d = bsz E \<and> (in_vol (en_sb E) b \<longrightarrow> d = V b)))"
proof (rule runsI)
  fix w assume w: "fs_ok w" "env_of w = E" "vol w = V" "sp_blk w = en_sb E"
  have inv: "bc_inv w" and len: "length buf = blksz w" using w assms by (simp_all add: fs_ok_def)
  show "wp (read_block buf b) (\<lambda>r w'. fs_ok w' \<and> io_frame w w' \<and> (vol w' = V \<and>
      (case r of Inl _ \<Rightarrow> in_vol (en_sb E) b \<longrightarrow> \<not> False | Inr d \<Rightarrow> length d = bsz E \<and> (in_vol (en_sb E) b \<longrightarrow> d = V b))) \<and>
      (calm w w' \<longrightarrow> vol w' = V \<and>
      (case r of Inl _ \<Rightarrow> in_vol (en_sb E) b \<longrightarrow> \<not> True | Inr d \<Rightarrow> length d = bsz E \<and> (in_vol (en_sb E) b \<longrightarrow> d = V b)))) w"
  proof (rule wp_mono [OF wp_read_block [OF inv len]], elim conjE, goal_cases)
    case (1 r w')
    then show ?case
      using w fs_ok_frame [OF w(1) 1(2,1)] vol_same [OF w(1) 1(2,3)] in_vol_fits [OF w(1), of b] bc.view_length [OF inv, of b]
      by (auto simp: vol_def split: sum.splits)
  qed
qed

lemma runs_write_block:
  assumes "length src = bsz E" and b: "in_vol (en_sb E) b"
  shows "runs E V (write_block src b) (\<lambda>V' r c.
    (case r of Inl _ \<Rightarrow> \<not> c \<and> (\<exists>d. length d = bsz E \<and> torn src (V b) d \<and> V' = V(b := d)) | Inr _ \<Rightarrow> V' = V(b := src)))"
proof (rule runsI)
  fix w assume w: "fs_ok w" "env_of w = E" "vol w = V" "sp_blk w = en_sb E"
  have inv: "bc_inv w" and len: "length src = blksz w" using w assms by (simp_all add: fs_ok_def)
  have fit: "fits w b" using in_vol_fits [OF w(1)] b w(4) by simp
  show "wp (write_block src b) (\<lambda>r w'. fs_ok w' \<and> io_frame w w' \<and>
      (case r of Inl _ \<Rightarrow> \<not> False \<and> (\<exists>d. length d = bsz E \<and> torn src (V b) d \<and> vol w' = V(b := d)) | Inr _ \<Rightarrow> vol w' = V(b := src)) \<and>
      (calm w w' \<longrightarrow> (case r of Inl _ \<Rightarrow> \<not> True \<and> (\<exists>d. length d = bsz E \<and> torn src (V b) d \<and> vol w' = V(b := d)) | Inr _ \<Rightarrow> vol w' = V(b := src)))) w"
  proof (rule wp_mono [OF wp_write_block [OF inv len fit]], elim conjE, goal_cases)
    case (1 r w')
    have up: "vol w' = V(b := bc_view w' b)" using vol_update [OF w(1) 1(2) _ 1(3)] b w(3,4) by simp
    have "length (bc_view w' b) = bsz E"
      using bc.view_length [OF 1(1) fits_frame [OF 1(2) fit]] io_frame_ctx [OF 1(2)] w(4) by simp
    moreover have "bc_view w b = V b" using b w(3,4) by (auto simp: vol_def)
    ultimately show ?case
      using up fs_ok_frame [OF w(1) 1(2,1)] 1 by (auto split: sum.splits)
  qed
qed

lemma runs_modify_block:
  assumes b: "in_vol (en_sb E) b" and len: "length patch < 2 ^ 32"
  shows "runs E V (mofs_bcache_modify_block b off patch) (\<lambda>V' r c.
    (case r of Inl e \<Rightarrow> V' = V \<and> (c \<longrightarrow> e = MOFS_EINVAL)
     | Inr _ \<Rightarrow> unat off + length patch \<le> bsz E \<and> V' = V(b := overwrite (unat off) patch (V b))))"
proof (rule runsI)
  fix w assume w: "fs_ok w" "env_of w = E" "vol w = V" "sp_blk w = en_sb E"
  have inv: "bc_inv w" using w by (simp add: fs_ok_def)
  have fit: "fits w b" and Vb: "bc_view w b = V b"
    using in_vol_fits [OF w(1)] b w(3,4) by (auto simp: vol_def)
  show "wp (mofs_bcache_modify_block b off patch) (\<lambda>r w'. fs_ok w' \<and> io_frame w w' \<and>
      (case r of Inl e \<Rightarrow> vol w' = V \<and> (False \<longrightarrow> e = MOFS_EINVAL)
       | Inr _ \<Rightarrow> unat off + length patch \<le> bsz E \<and> vol w' = V(b := overwrite (unat off) patch (V b))) \<and>
      (calm w w' \<longrightarrow> (case r of Inl e \<Rightarrow> vol w' = V \<and> (True \<longrightarrow> e = MOFS_EINVAL)
       | Inr _ \<Rightarrow> unat off + length patch \<le> bsz E \<and> vol w' = V(b := overwrite (unat off) patch (V b))))) w"
  proof (rule wp_mono [OF bc_modify_law [OF inv fit len]], unfold md_post_def, elim conjE, goal_cases)
    case (1 r w')
    have up: "vol w' = V(b := bc_view w' b)" using vol_update [OF w(1) 1(2) _ 1(3)] b w(3,4) by simp
    moreover have "V(b := V b) = V" by simp
    ultimately show ?case
      using fs_ok_frame [OF w(1) 1(2,1)] 1(2,4) Vb w(4) by (auto split: sum.splits)
  qed
qed

lemma runs_invalidate:
  "runs E V (mofs_bcache_invalidate b) (\<lambda>V' r c. r = Inr () \<and>
    (if in_vol (en_sb E) b then \<exists>d. length d = bsz E \<and> V' = V(b := d) else V' = V))"
proof (rule runsI)
  fix w assume w: "fs_ok w" "env_of w = E" "vol w = V" "sp_blk w = en_sb E"
  have inv: "bc_inv w" using w by (simp add: fs_ok_def)
  have "wp (mofs_bcache_invalidate b) (\<lambda>r w'. fs_ok w' \<and> io_frame w w' \<and> r = Inr () \<and>
    (if in_vol (en_sb E) b then \<exists>d. length d = bsz E \<and> vol w' = V(b := d) else vol w' = V)) w"
  proof (rule wp_mono [OF bc_invalidate_law [OF inv]], unfold iv_post_def, elim conjE, goal_cases)
    case (1 r w')
    show ?case
    proof (cases "in_vol (en_sb E) b")
      case True
      have up: "vol w' = V(b := bc_view w' b)" using vol_update [OF w(1) 1(2) _ 1(4)] True w(3,4) by simp
      have "length (bc_view w' b) = bsz E"
        using bc.view_length [OF 1(1) fits_frame [OF 1(2)]] in_vol_fits [OF w(1)] io_frame_ctx [OF 1(2)] w(4) True by simp
      then show ?thesis using up fs_ok_frame [OF w(1) 1(2,1)] 1 True by auto
    next
      case False
      have "vol w' = V"
      proof
        fix c
        show "vol w' c = V c"
          using w(4) 1(4) False in_vol_fits [OF w(1), of c] io_frame_ctx [OF 1(2)] w(3) [symmetric]
          by (cases "c = b") (auto simp: vol_def)
      qed
      then show ?thesis using fs_ok_frame [OF w(1) 1(2,1)] 1 False by auto
    qed
  qed
  then show "wp (mofs_bcache_invalidate b) (\<lambda>r w'. fs_ok w' \<and> io_frame w w' \<and> (r = Inr () \<and>
    (if in_vol (en_sb E) b then \<exists>d. length d = bsz E \<and> vol w' = V(b := d) else vol w' = V)) \<and> (calm w w' \<longrightarrow>
    (r = Inr () \<and> (if in_vol (en_sb E) b then \<exists>d. length d = bsz E \<and> vol w' = V(b := d) else vol w' = V)))) w"
    by (rule wp_mono) simp
qed

end
