(* ===== verification/Mofs_Maps.thy ===== *)
theory Mofs_Maps
  imports Mofs_Disk
begin

text \<open>
  The allocation bitmaps as maps on volumes. \<open>mark_used\<close> is the effect of setting a bit, the
  locale \<open>free_map\<close> states what the allocators rely on, and its interpretations \<open>dm\<close> and
  \<open>im\<close> are the data bitmap and the inode bitmap.
\<close>

section \<open>Bitmaps on volumes\<close>

definition eq_off :: "(u32 \<Rightarrow> bool) \<Rightarrow> disk \<Rightarrow> disk \<Rightarrow> bool" where
  "eq_off S V V' = (\<forall>b. \<not> S b \<longrightarrow> V' b = V b)"

lemma eq_off_refl [simp]: "eq_off S V V"
  by (simp add: eq_off_def)

lemma eq_off_trans: "eq_off S V V' \<Longrightarrow> eq_off S V' V'' \<Longrightarrow> eq_off S V V''"
  by (simp add: eq_off_def)

lemma eq_off_mono: "eq_off S V V' \<Longrightarrow> (\<And>b. S b \<Longrightarrow> T b) \<Longrightarrow> eq_off T V V'"
  by (auto simp: eq_off_def)

lemma eq_off_upd: "S b \<Longrightarrow> eq_off S V (V(b := d))"
  by (simp add: eq_off_def)

definition in_blocks :: "u32 \<Rightarrow> u32 \<Rightarrow> u32 \<Rightarrow> bool" where
  "in_blocks lo hi c = (lo \<le> c \<and> c < hi)"

definition mark_used :: "mofs_superblock \<Rightarrow> u32 \<Rightarrow> nat \<Rightarrow> bool \<Rightarrow> disk \<Rightarrow> disk" where
  "mark_used sb start i u V = V(bitmap_blk sb start i :=
     put_bit (i mod (8 * unat (sb_blk_size sb)) div 8) (i mod (8 * unat (sb_blk_size sb)) mod 8) u
       (V (bitmap_blk sb start i)))"

text \<open>A bitmap of \<open>n\<close> entries in the blocks from \<open>start\<close> to \<open>stop\<close>.\<close>

definition bitmap_ok :: "mofs_superblock \<Rightarrow> u32 \<Rightarrow> u32 \<Rightarrow> nat \<Rightarrow> bool" where
  "bitmap_ok sb start stop n = (unat start \<le> unat stop \<and> unat stop \<le> unat (sb_data_region_start sb) \<and>
     n \<le> (unat stop - unat start) * (8 * unat (sb_blk_size sb)) \<and>
     (unat stop - unat start) * (8 * unat (sb_blk_size sb)) \<le> 2 ^ 32)"

lemma layout_bitmaps:
  assumes "layout_ok sb"
  shows "bitmap_ok sb (sb_data_bitmap_start sb) (sb_inode_table_start sb) (unat (sb_data_blk_num sb))"
    and "bitmap_ok sb (sb_inode_bitmap_start sb) (sb_data_bitmap_start sb) (unat (sb_inode_num sb))"
  unfolding bitmap_ok_def using layout_okD [OF assms] by auto

lemma layout_blk_size:
  assumes "layout_ok sb"
  shows "512 \<le> unat (sb_blk_size sb)" and "unat (sb_blk_size sb) \<le> 65536"
  using layout_okD(1) [OF assms]
  by (auto simp: mofs_validate_logical_blk_size_def mofs_consts word_less_nat_alt split: if_splits)

lemma bitmap_blk_in:
  assumes lay: "layout_ok sb" and ok: "bitmap_ok sb start stop n" and i: "i < n"
  shows "in_blocks start stop (bitmap_blk sb start i)" and "in_vol sb (bitmap_blk sb start i)" and "i < 2 ^ 32"
proof -
  let ?K = "8 * unat (sb_blk_size sb)"
  have "i < (unat stop - unat start) * ?K" using ok i by (simp add: bitmap_ok_def)
  then have d: "i div ?K < unat stop - unat start" by (rule less_mult_imp_div_less)
  then have "unat (bitmap_blk sb start i) = unat start + i div ?K"
    using unat_less [of stop]
    by (simp add: bitmap_blk_def unat_word_ariths unat_of_nat take_bit_nat_eq_self)
  then show "in_blocks start stop (bitmap_blk sb start i)" "in_vol sb (bitmap_blk sb start i)"
    using d ok by (auto simp: in_blocks_def in_vol_def bitmap_ok_def word_le_nat_alt word_less_nat_alt)
  show "i < 2 ^ 32" using ok i unfolding bitmap_ok_def by linarith
qed

lemma used_at_cong:
  assumes "layout_ok sb" and "bitmap_ok sb start stop n" and "i < n"
    and "\<And>b. in_blocks start stop b \<Longrightarrow> V' b = V b"
  shows "used_at sb V' start i = used_at sb V start i"
  using assms(4) bitmap_blk_in(1) [OF assms(1-3)] by (simp add: used_at_def)

lemma mark_used_wf:
  "wf_disk sb V \<Longrightarrow> wf_disk sb (mark_used sb start i u V)"
  unfolding mark_used_def
  by (cases "in_vol sb (bitmap_blk sb start i)") (auto simp: wf_disk_def put_bit_def)

lemma mark_used_off:
  assumes "layout_ok sb" and "bitmap_ok sb start stop n" and "i < n"
  shows "eq_off (in_blocks start stop) V (mark_used sb start i u V)"
  unfolding mark_used_def by (rule eq_off_upd) (rule bitmap_blk_in(1) [OF assms])

lemma used_at_mark:
  assumes lay: "layout_ok sb" and ok: "bitmap_ok sb start stop n" and wf: "wf_disk sb V" and i: "i < n" and j: "j < n"
  shows "used_at sb (mark_used sb start i u V) start j = (if j = i then u else used_at sb V start j)"
proof (rule used_at_put_bit)
  show "length (V (bitmap_blk sb start i)) = unat (sb_blk_size sb)"
    by (rule wf_diskD [OF wf bitmap_blk_in(2) [OF lay ok i]])
  show "0 < unat (sb_blk_size sb)" using layout_blk_size [OF lay] by simp
  show "i < 2 ^ 32" "j < 2 ^ 32" using bitmap_blk_in(3) [OF lay ok] i j by auto
qed (simp_all add: mark_used_def)

section \<open>Contracts of the bitmap routines\<close>

lemma runs_set_bitmap_bit:
  assumes ok: "bitmap_ok (en_sb E) start stop n" and i: "unat idx < n"
  shows "runs E V (set_bitmap_bit start idx u) (\<lambda>V' r c. case r of
      Inl _ \<Rightarrow> \<not> c \<and> (V' = V \<or> V' = mark_used (en_sb E) start (unat idx) u V)
    | Inr _ \<Rightarrow> V' = mark_used (en_sb E) start (unat idx) u V)"
proof (rule runs_wf, rule runsI)
  fix w assume lay: "layout_ok (en_sb E)" and w: "fs_ok w" "env_of w = E" "vol w = V" "sp_blk w = en_sb E"
  let ?b = "bitmap_blk (en_sb E) start (unat idx)"
  have inv: "bc_inv w" using w(1) by (simp add: fs_ok_def)
  note b = bitmap_blk_in [OF lay ok i]
  have fit: "fits w ?b" by (rule in_vol_fits [OF w(1)]) (simp add: w(4) b)
  have Vb: "bc_view w ?b = V ?b" using b(2) w(3,4) by (auto simp: vol_def)
  let ?P = "\<lambda>V' r c. case r of Inl _ \<Rightarrow> \<not> c \<and> (V' = V \<or> V' = mark_used (en_sb E) start (unat idx) u V)
    | Inr _ \<Rightarrow> V' = mark_used (en_sb E) start (unat idx) u V"
  show "wp (set_bitmap_bit start idx u) (\<lambda>r w'. fs_ok w' \<and> io_frame w w' \<and> ?P (vol w') r False \<and>
      (calm w w' \<longrightarrow> ?P (vol w') r True)) w"
  proof (rule wp_mono [OF wp_set_bitmap_bit [OF inv]], unfold w(4), elim conjE, goal_cases)
    case (1 r w')
    have up: "vol w' = V(?b := bc_view w' ?b)"
      using vol_update [OF w(1) 1(2) _ 1(3)] b(2) w(3,4) by simp
    show ?case
    proof (cases r)
      case (Inl e)
      then have "vol w' = V \<or> vol w' = mark_used (en_sb E) start (unat idx) u V"
        using 1(4) fit Vb unfolding up mark_used_def by (auto simp: fun_upd_idem)
      then show ?thesis using 1 Inl fit fs_ok_frame [OF w(1) 1(2,1)] by simp
    next
      case (Inr x)
      have "vol w' = mark_used (en_sb E) start (unat idx) u V"
        unfolding up mark_used_def using 1(4) Inr Vb by simp
      then show ?thesis using Inr 1(2) fs_ok_frame [OF w(1) 1(2,1)] by simp
    qed
  qed
qed

lemma runs_find_free_indices:
  assumes ok: "bitmap_ok (en_sb E) start stop (unat limit)"
  shows "runs E V (find_free_indices start (stop - start) lo limit need) (\<lambda>V' r c. V' = V \<and>
      (let free = filter (\<lambda>i. \<not> used_at (en_sb E) V start i) [unat lo..<unat limit] in case r of
         Inl e \<Rightarrow> c \<longrightarrow> e = MOFS_ENOSPC \<and> length free < unat need
       | Inr found \<Rightarrow> unat need \<le> length free \<and> found = map word_of_nat (take (unat need) free)))"
proof (rule runs_wf, rule runsI)
  fix w assume lay: "layout_ok (en_sb E)" and w: "fs_ok w" "env_of w = E" "vol w = V" "sp_blk w = en_sb E"
  have inv: "bc_inv w" and vok: "vol_ok w" using w(1) by (simp_all add: fs_ok_def)
  have le: "unat start \<le> unat stop" using ok by (simp add: bitmap_ok_def)
  have reg: "region_ok w start (unat (stop - start))"
    by (rule bitmap_region [OF vok le]) (use ok w(4) in \<open>simp_all add: bitmap_ok_def\<close>)
  have lim: "unat limit \<le> unat (stop - start) * (8 * blksz w)"
    using ok w(4) unat_sub_le [OF le] by (simp add: bitmap_ok_def)
  have "free_from w start (unat lo) (unat limit) = filter (\<lambda>i. \<not> used_at (en_sb E) V start i) [unat lo..<unat limit]"
    unfolding free_from_def
  proof (rule filter_cong [OF refl])
    fix i assume "i \<in> set [unat lo..<unat limit]"
    then have i: "i < unat limit" by simp
    show "(\<not> used_at (sp_blk w) (bc_view w) start i) = (\<not> used_at (en_sb E) V start i)"
      using bitmap_blk_in(2) [OF lay ok i] w(4) unfolding w(3) [symmetric] by (simp add: used_at_def vol_def)
  qed
  note free = this
  let ?free = "filter (\<lambda>i. \<not> used_at (en_sb E) V start i) [unat lo..<unat limit]"
  let ?P = "\<lambda>V' r c. V' = V \<and> (let free = ?free in case r of
         Inl e \<Rightarrow> c \<longrightarrow> e = MOFS_ENOSPC \<and> length free < unat need
       | Inr found \<Rightarrow> unat need \<le> length free \<and> found = map word_of_nat (take (unat need) free))"
  show "wp (find_free_indices start (stop - start) lo limit need) (\<lambda>r w'. fs_ok w' \<and> io_frame w w' \<and>
      ?P (vol w') r False \<and> (calm w w' \<longrightarrow> ?P (vol w') r True)) w"
  proof (rule wp_mono [OF wp_find_free_indices [OF inv reg lim]], unfold free, elim conjE, goal_cases)
    case (1 r w')
    show ?case
      using 1(2,4) fs_ok_frame [OF w(1) 1(2,1)] vol_same [OF w(1) 1(2,3)] w(3) by (cases r) (simp_all add: Let_def)
  qed
qed

section \<open>The contract of an allocation map\<close>

text \<open>What the allocators rely on: \<open>used\<close> reads the map of a volume, \<open>mark\<close> changes one entry,
  \<open>own\<close> are the blocks that hold the map. The routine \<open>setb\<close> performs \<open>mark\<close> or refuses,
  \<open>findf\<close> returns the first free entries, \<open>upd\<close> is the best-effort update of a list.\<close>

locale free_map =
  fixes used :: "mofs_superblock \<Rightarrow> disk \<Rightarrow> nat \<Rightarrow> bool"
    and mark :: "mofs_superblock \<Rightarrow> nat \<Rightarrow> bool \<Rightarrow> disk \<Rightarrow> disk"
    and lo :: nat
    and limit :: "mofs_superblock \<Rightarrow> nat"
    and own :: "mofs_superblock \<Rightarrow> u32 \<Rightarrow> bool"
    and setb :: "u32 \<Rightarrow> bool \<Rightarrow> unit mofs"
    and findf :: "u32 \<Rightarrow> u32 list mofs"
    and upd :: "u32 list \<Rightarrow> bool \<Rightarrow> unit mofs"
  assumes limit_word: "limit sb < 2 ^ 32"
    and mark_wf: "wf_disk sb V \<Longrightarrow> wf_disk sb (mark sb i u V)"
    and mark_off: "layout_ok sb \<Longrightarrow> i < limit sb \<Longrightarrow> eq_off (own sb) V (mark sb i u V)"
    and used_mark: "layout_ok sb \<Longrightarrow> wf_disk sb V \<Longrightarrow> i < limit sb \<Longrightarrow> j < limit sb \<Longrightarrow>
      used sb (mark sb i u V) j = (if j = i then u else used sb V j)"
    and used_cong: "layout_ok sb \<Longrightarrow> (\<And>b. own sb b \<Longrightarrow> V' b = V b) \<Longrightarrow> j < limit sb \<Longrightarrow>
      used sb V' j = used sb V j"
    and set_law: "runs E V (setb idx u) (\<lambda>V' r c.
        if lo \<le> unat idx \<and> unat idx < limit (en_sb E) then
          (case r of Inl _ \<Rightarrow> \<not> c \<and> (V' = V \<or> V' = mark (en_sb E) (unat idx) u V)
           | Inr _ \<Rightarrow> V' = mark (en_sb E) (unat idx) u V)
        else r = Inl MOFS_EINVAL \<and> V' = V)"
    and find_law: "runs E V (findf need) (\<lambda>V' r c. V' = V \<and>
        (let free = filter (\<lambda>i. \<not> used (en_sb E) V i) [lo..<limit (en_sb E)] in case r of
           Inl e \<Rightarrow> c \<longrightarrow> e = MOFS_ENOSPC \<and> length free < unat need
         | Inr found \<Rightarrow> unat need \<le> length free \<and> found = map word_of_nat (take (unat need) free)))"
    and upd_Nil: "upd [] u = ret ()"
    and upd_Cons: "upd (idx # idxs) u = bind (attempt (setb idx u)) (\<lambda>_. upd idxs u)"
begin

text \<open>\<open>free_set\<close> are the free entries, \<open>mark_all\<close> the update of a list of entries.\<close>

definition in_range :: "mofs_superblock \<Rightarrow> u32 \<Rightarrow> bool" where
  "in_range sb i = (lo \<le> unat i \<and> unat i < limit sb)"

fun mark_all :: "mofs_superblock \<Rightarrow> u32 list \<Rightarrow> bool \<Rightarrow> disk \<Rightarrow> disk" where
  "mark_all sb [] u V = V"
| "mark_all sb (i # is) u V = mark_all sb is u (mark sb (unat i) u V)"

lemma mark_all_wf: "wf_disk sb V \<Longrightarrow> wf_disk sb (mark_all sb idxs u V)"
  by (induction idxs arbitrary: V) (simp_all add: mark_wf)

lemma mark_all_off:
  "layout_ok sb \<Longrightarrow> (\<And>i. i \<in> set idxs \<Longrightarrow> in_range sb i) \<Longrightarrow> eq_off (own sb) V (mark_all sb idxs u V)"
proof (induction idxs arbitrary: V)
  case (Cons i idxs)
  have "eq_off (own sb) V (mark sb (unat i) u V)"
    using Cons.prems by (intro mark_off) (auto simp: in_range_def)
  moreover have "eq_off (own sb) (mark sb (unat i) u V) (mark_all sb idxs u (mark sb (unat i) u V))"
    using Cons.prems by (intro Cons.IH) auto
  ultimately show ?case unfolding mark_all.simps by (rule eq_off_trans)
qed simp

lemma used_mark_all:
  assumes "layout_ok sb" and "wf_disk sb V" and "\<And>i. i \<in> set idxs \<Longrightarrow> in_range sb i" and "j < limit sb"
  shows "used sb (mark_all sb idxs u V) j = (if j \<in> unat ` set idxs then u else used sb V j)"
  using assms(2,3)
proof (induction idxs arbitrary: V)
  case (Cons i idxs)
  have i: "unat i < limit sb" using Cons.prems(2) by (auto simp: in_range_def)
  have "used sb (mark_all sb idxs u (mark sb (unat i) u V)) j =
      (if j \<in> unat ` set idxs then u else used sb (mark sb (unat i) u V) j)"
    using Cons.prems by (intro Cons.IH) (auto simp: mark_wf)
  then show ?case unfolding mark_all.simps used_mark [OF assms(1) Cons.prems(1) i assms(4)] by simp
qed simp

lemma mark_all_snoc: "mark_all sb (idxs @ [i]) u V = mark sb (unat i) u (mark_all sb idxs u V)"
  by (induction idxs arbitrary: V) simp_all

text \<open>The entries found are distinct, in range, free and in increasing order.\<close>

lemma found_facts:
  fixes need :: u32
  defines "free sb V \<equiv> filter (\<lambda>i. \<not> used sb V i) [lo..<limit sb]"
  assumes n: "unat need \<le> length (free sb V)" and found: "found = map word_of_nat (take (unat need) (free sb V))"
  shows "length found = unat need" and "map unat found = take (unat need) (free sb V)" and "distinct found"
    and "i \<in> set found \<Longrightarrow> in_range sb i \<and> \<not> used sb V (unat i)"
proof -
  have small: "i < 2 ^ 32" if "i \<in> set (free sb V)" for i using that limit_word [of sb] by (auto simp: free_def)
  show un: "map unat found = take (unat need) (free sb V)"
    unfolding found map_map
  proof (rule map_idI)
    fix i assume "i \<in> set (take (unat need) (free sb V))"
    then have "i < 2 ^ 32" by (intro small) (rule in_set_takeD)
    then show "(unat \<circ> (word_of_nat :: nat \<Rightarrow> u32)) i = i" by (simp add: unat_of_nat take_bit_nat_eq_self)
  qed
  show "length found = unat need" using n by (simp add: found)
  have "distinct (map unat found)" unfolding un by (intro distinct_take) (simp add: free_def)
  then show "distinct found" by (simp add: distinct_map)
  show "in_range sb i \<and> \<not> used sb V (unat i)" if "i \<in> set found"
  proof -
    have "unat i \<in> set (map unat found)" using that by simp
    then show ?thesis unfolding un by (auto simp: free_def in_range_def dest!: in_set_takeD)
  qed
qed

text \<open>A refused update at least stays in the map.\<close>

lemma set_off:
  "runs E V (setb idx u) (\<lambda>V' r c.
    if lo \<le> unat idx \<and> unat idx < limit (en_sb E) then
      (case r of Inl _ \<Rightarrow> \<not> c \<and> eq_off (own (en_sb E)) V V' | Inr _ \<Rightarrow> V' = mark (en_sb E) (unat idx) u V)
    else r = Inl MOFS_EINVAL \<and> V' = V)"
proof (rule runs_wf, rule runs_mono [OF set_law], goal_cases)
  case (1 V' r c)
  then show ?case using mark_off [of "en_sb E" "unat idx" V u] by (cases r) (auto split: if_splits)
qed

lemma runs_upd:
  "runs E V (upd idxs u) (\<lambda>V' r c. r = Inr () \<and>
    ((\<forall>i\<in>set idxs. in_range (en_sb E) i) \<longrightarrow> eq_off (own (en_sb E)) V V' \<and> (c \<longrightarrow> V' = mark_all (en_sb E) idxs u V)))"
proof (induction idxs arbitrary: V)
  case Nil
  then show ?case unfolding upd_Nil by (rule runs_ret) simp
next
  case (Cons i idxs)
  show ?case
    unfolding upd_Cons
  proof (rule runs_wf, rule runs_attempt_bind [OF set_off], goal_cases)
    case (1 V1 r)
    show ?case
    proof (rule runs_mono [OF Cons.IH], goal_cases)
      case (1 V2 r2 c)
      show ?case
      proof (intro impI conjI)
        show "r2 = Inr ()" using 1 by simp
      next
        assume p: "if lo \<le> unat i \<and> unat i < limit (en_sb E)
            then case r of Inl x \<Rightarrow> \<not> c \<and> eq_off (own (en_sb E)) V V1 | Inr x \<Rightarrow> V1 = mark (en_sb E) (unat i) u V
            else r = Inl MOFS_EINVAL \<and> V1 = V" and all: "\<forall>j\<in>set (i # idxs). in_range (en_sb E) j"
        then have i: "lo \<le> unat i \<and> unat i < limit (en_sb E)" by (simp add: in_range_def)
        have off: "eq_off (own (en_sb E)) V1 V2" and cal: "c \<longrightarrow> V2 = mark_all (en_sb E) idxs u V1"
          using 1 all by simp_all
        have "eq_off (own (en_sb E)) V V1"
          using p i mark_off [OF \<open>layout_ok (en_sb E)\<close>] by (cases r) auto
        then show "eq_off (own (en_sb E)) V V2" using off by (rule eq_off_trans)
        show "c \<Longrightarrow> V2 = mark_all (en_sb E) (i # idxs) u V"
          using p i cal by (cases r) auto
      qed
    qed
  qed
qed

end

section \<open>The two maps of the volume\<close>

abbreviation data_used :: "mofs_superblock \<Rightarrow> disk \<Rightarrow> nat \<Rightarrow> bool" where
  "data_used sb V \<equiv> used_at sb V (sb_data_bitmap_start sb)"

abbreviation inode_used :: "mofs_superblock \<Rightarrow> disk \<Rightarrow> nat \<Rightarrow> bool" where
  "inode_used sb V \<equiv> used_at sb V (sb_inode_bitmap_start sb)"

abbreviation mark_data :: "mofs_superblock \<Rightarrow> nat \<Rightarrow> bool \<Rightarrow> disk \<Rightarrow> disk" where
  "mark_data sb \<equiv> mark_used sb (sb_data_bitmap_start sb)"

abbreviation mark_inode :: "mofs_superblock \<Rightarrow> nat \<Rightarrow> bool \<Rightarrow> disk \<Rightarrow> disk" where
  "mark_inode sb \<equiv> mark_used sb (sb_inode_bitmap_start sb)"

abbreviation data_bitmap_own :: "mofs_superblock \<Rightarrow> u32 \<Rightarrow> bool" where
  "data_bitmap_own sb \<equiv> in_blocks (sb_data_bitmap_start sb) (sb_inode_table_start sb)"

abbreviation inode_bitmap_own :: "mofs_superblock \<Rightarrow> u32 \<Rightarrow> bool" where
  "inode_bitmap_own sb \<equiv> in_blocks (sb_inode_bitmap_start sb) (sb_data_bitmap_start sb)"

lemma unat_u32_less: "unat (x :: u32) < 2 ^ 32"
  using unat_less [of x] by simp

interpretation dm: free_map data_used mark_data 0 "\<lambda>sb. unat (sb_data_blk_num sb)" data_bitmap_own
  set_data_bitmap_bit find_free_data_block_indices update_data_bitmap_bits
proof (unfold_locales, goal_cases)
  case (1 sb)
  then show ?case by (rule unat_u32_less)
next
  case (2 sb V i u)
  then show ?case by (rule mark_used_wf)
next
  case (3 sb i V u)
  then show ?case by (intro mark_used_off [OF 3(1) layout_bitmaps(1)])
next
  case (4 sb V i j u)
  then show ?case by (intro used_at_mark [OF 4(1) layout_bitmaps(1)])
next
  case (5 sb V' V j)
  then show ?case by (intro used_at_cong [OF 5(1) layout_bitmaps(1)])
next
  case (6 E V idx u)
  show ?case
  proof (rule runs_wf)
    assume lay: "layout_ok (en_sb E)"
    show "runs E V (set_data_bitmap_bit idx u) (\<lambda>V' r c.
        if 0 \<le> unat idx \<and> unat idx < unat (sb_data_blk_num (en_sb E)) then
          (case r of Inl _ \<Rightarrow> \<not> c \<and> (V' = V \<or> V' = mark_data (en_sb E) (unat idx) u V)
           | Inr _ \<Rightarrow> V' = mark_data (en_sb E) (unat idx) u V)
        else r = Inl MOFS_EINVAL \<and> V' = V)"
      unfolding set_data_bitmap_bit_def
    proof (intro runs_gets_sb runs_throw_if, goal_cases)
      case 1
      then show ?case by (simp add: word_le_nat_alt)
    next
      case 2
      then have i: "unat idx < unat (sb_data_blk_num (en_sb E))" by (simp add: word_le_nat_alt)
      show ?case by (rule runs_mono [OF runs_set_bitmap_bit [OF layout_bitmaps(1) [OF lay] i]]) (use i in auto)
    qed
  qed
next
  case (7 E V need)
  show ?case
    unfolding find_free_data_block_indices_def
    by (rule runs_wf, intro runs_gets_sb)
      (rule runs_find_free_indices [OF layout_bitmaps(1), where lo = 0, unfolded unsigned_0])
qed simp_all

interpretation im: free_map inode_used mark_inode 3 "\<lambda>sb. unat (sb_inode_num sb)" inode_bitmap_own
  set_inode_bitmap_bit find_free_inode_indices update_inode_bitmap_bits
proof (unfold_locales, goal_cases)
  case (1 sb)
  then show ?case by (rule unat_u32_less)
next
  case (2 sb V i u)
  then show ?case by (rule mark_used_wf)
next
  case (3 sb i V u)
  then show ?case by (intro mark_used_off [OF 3(1) layout_bitmaps(2)])
next
  case (4 sb V i j u)
  then show ?case by (intro used_at_mark [OF 4(1) layout_bitmaps(2)])
next
  case (5 sb V' V j)
  then show ?case by (intro used_at_cong [OF 5(1) layout_bitmaps(2)])
next
  case (6 E V idx u)
  show ?case
  proof (rule runs_wf)
    assume lay: "layout_ok (en_sb E)"
    show "runs E V (set_inode_bitmap_bit idx u) (\<lambda>V' r c.
        if 3 \<le> unat idx \<and> unat idx < unat (sb_inode_num (en_sb E)) then
          (case r of Inl _ \<Rightarrow> \<not> c \<and> (V' = V \<or> V' = mark_inode (en_sb E) (unat idx) u V)
           | Inr _ \<Rightarrow> V' = mark_inode (en_sb E) (unat idx) u V)
        else r = Inl MOFS_EINVAL \<and> V' = V)"
      unfolding set_inode_bitmap_bit_def
    proof (intro runs_gets_sb runs_throw_if, goal_cases)
      case 1
      then show ?case by (auto simp: word_le_nat_alt word_less_nat_alt)
    next
      case 2
      then have i: "unat idx < unat (sb_inode_num (en_sb E))" "3 \<le> unat idx"
        by (auto simp: word_le_nat_alt word_less_nat_alt)
      show ?case by (rule runs_mono [OF runs_set_bitmap_bit [OF layout_bitmaps(2) [OF lay] i(1)]]) (use i in auto)
    qed
  qed
next
  case (7 E V need)
  have 3: "unat (3 :: u32) = 3" by simp
  show ?case
    unfolding find_free_inode_indices_def
    by (rule runs_wf, intro runs_gets_sb)
      (rule runs_find_free_indices [OF layout_bitmaps(2), where lo = 3, unfolded 3])
qed simp_all

end
