(* ===== verification/Mofs_Inode.thy ===== *)
theory Mofs_Inode
  imports Mofs_Maps "HOL-Library.Signed_Division"
begin

text \<open>
  The inode table, \<open>src/core/modules/mofs_inode.c\<close>: reading and writing one inode, timestamps,
  allocation and release of inode numbers.

  \<open>inode_in sb V n\<close> is inode \<open>n\<close> of a volume with content \<open>V\<close> and \<open>put_inode\<close> replaces it.
  The locale \<open>inode_store\<close> states what the upper layers rely on: a read returns this inode and
  changes nothing, a successful write changes this inode and no other, and neither touches a
  block outside the table.
\<close>

unbundle bit_operations_syntax

section \<open>Operations\<close>

text \<open>The position of an inode: \<open>inode_num * sizeof(mofs_inode_t)\<close> is an \<open>int\<close> product, and
  division and remainder are those of C.\<close>

definition inode_byte_pos :: "int \<Rightarrow> int" where
  "inode_byte_pos inode_num = sint (word_of_int (inode_num * 64) :: 32 word)"

definition inode_blk :: "mofs_superblock \<Rightarrow> int \<Rightarrow> u32" where
  "inode_blk sb inode_num =
     word_of_int (uint (sb_inode_table_start sb) + inode_byte_pos inode_num sdiv uint (sb_blk_size sb))"

definition inode_off :: "mofs_superblock \<Rightarrow> int \<Rightarrow> nat" where
  "inode_off sb inode_num = nat (inode_byte_pos inode_num smod uint (sb_blk_size sb))"

text \<open>\<open>(inode_num < 0) || (ctx.sp_blk.inode_num <= inode_num)\<close>: the second comparison is unsigned,
  of a number that is not negative.\<close>

definition bad_inode_num :: "mofs_superblock \<Rightarrow> int \<Rightarrow> bool" where
  "bad_inode_num sb inode_num = (inode_num < 0 \<or> uint (sb_inode_num sb) \<le> inode_num)"

definition stamp_inode :: "u64 \<Rightarrow> u32 \<Rightarrow> mofs_inode \<Rightarrow> mofs_inode" where
  "stamp_inode now tmask inode =
     (let inode = (if tmask AND MOFS_INODE_TIME_ATIME \<noteq> 0 then inode\<lparr>i_atime := now\<rparr> else inode);
          inode = (if tmask AND MOFS_INODE_TIME_MTIME \<noteq> 0 then inode\<lparr>i_mtime := now\<rparr> else inode)
      in if tmask AND MOFS_INODE_TIME_CTIME \<noteq> 0 then inode\<lparr>i_ctime := now\<rparr> else inode)"

definition mofs_inode_stamp_now :: "mofs_inode \<Rightarrow> u32 \<Rightarrow> mofs_inode mofs" where
  "mofs_inode_stamp_now inode tmask =
     bind (throw_if (tmask = 0) MOFS_EINVAL) (\<lambda>_.
     bind mofs_now (\<lambda>now. ret (stamp_inode now tmask inode)))"

definition mofs_read_inode :: "int \<Rightarrow> mofs_inode mofs" where
  "mofs_read_inode inode_num =
     bind (gets sp_blk) (\<lambda>sb.
     bind (throw_if (bad_inode_num sb inode_num) MOFS_EINVAL) (\<lambda>_.
     with_malloc (unat (sb_blk_size sb)) (\<lambda>buf.
     core_locked (
       bind (read_block buf (inode_blk sb inode_num)) (\<lambda>buf.
       ret (inode_of (chunk (inode_off sb inode_num) 64 buf)))))))"

definition mofs_write_inode :: "int \<Rightarrow> mofs_inode \<Rightarrow> unit mofs" where
  "mofs_write_inode inode_num inode =
     bind (gets sp_blk) (\<lambda>sb.
     bind (throw_if (bad_inode_num sb inode_num) MOFS_EINVAL) (\<lambda>_.
     with_malloc (unat (sb_blk_size sb)) (\<lambda>blk_buf.
     let rmw = core_locked (
           bind (read_block blk_buf (inode_blk sb inode_num)) (\<lambda>blk_buf.
           write_block (overwrite (inode_off sb inode_num) (inode_bytes inode) blk_buf) (inode_blk sb inode_num)))
     in bind (gets w_mode) (\<lambda>m.
        if m \<noteq> BC_Disabled then
          bind (attempt (mofs_bcache_modify_block (inode_blk sb inode_num)
                  (word_of_nat (inode_off sb inode_num)) (inode_bytes inode))) (\<lambda>r.
          if r \<noteq> Inl MOFS_EINVAL then from_res r else rmw)
        else rmw))))"

definition mofs_inode_stamp_persist :: "int \<Rightarrow> u32 \<Rightarrow> unit mofs" where
  "mofs_inode_stamp_persist inode_num tmask =
     bind (gets sp_blk) (\<lambda>sb.
     bind (throw_if (bad_inode_num sb inode_num \<or> tmask = 0) MOFS_EINVAL) (\<lambda>_.
     with_malloc (unat (sb_blk_size sb)) (\<lambda>blk_buf.
     core_locked (
       bind (read_block blk_buf (inode_blk sb inode_num)) (\<lambda>blk_buf.
       bind (mofs_inode_stamp_now (inode_of (chunk (inode_off sb inode_num) 64 blk_buf)) tmask) (\<lambda>inode.
       write_block (overwrite (inode_off sb inode_num) (inode_bytes inode) blk_buf) (inode_blk sb inode_num)))))))"

definition allocate_inode :: "int mofs" where
  "allocate_inode =
     bind (find_free_inode_indices 1) (\<lambda>allocated_inode_idx.
     bind (attempt (set_inode_bitmap_bit (hd allocated_inode_idx) True)) (\<lambda>r. case r of
         Inl e \<Rightarrow> bind (update_inode_bitmap_bits allocated_inode_idx False) (\<lambda>_. throw e)
       | Inr _ \<Rightarrow> ret (sint (hd allocated_inode_idx))))"

definition zero_inode :: mofs_inode where
  "zero_inode = \<lparr>i_size = 0, i_links = 0, i_mode = 0, i_uid = 0, i_gid = 0, i_data_head = 0, i_nr_blocks = 0,
     i_atime = 0, i_mtime = 0, i_ctime = 0, i_reserved = (0, 0, 0, 0)\<rparr>"

definition free_inode :: "int \<Rightarrow> unit mofs" where
  "free_inode inode_num =
     bind (gets sp_blk) (\<lambda>sb.
     bind (throw_if (inode_num < 3 \<or> uint (sb_inode_num sb) \<le> inode_num) MOFS_EINVAL) (\<lambda>_.
     bind (set_inode_bitmap_bit (word_of_int inode_num) False) (\<lambda>_.
     bind (attempt (mofs_write_inode inode_num zero_inode)) (\<lambda>r. case r of
         Inl e \<Rightarrow> bind (update_inode_bitmap_bits [word_of_int inode_num] True) (\<lambda>_. throw e)
       | Inr _ \<Rightarrow> ret ()))))"

section \<open>Position of an inode\<close>

definition inode_num_ok :: "mofs_superblock \<Rightarrow> int \<Rightarrow> bool" where
  "inode_num_ok sb n = (0 \<le> n \<and> n < int (unat (sb_inode_num sb)))"

definition inode_in :: "mofs_superblock \<Rightarrow> disk \<Rightarrow> int \<Rightarrow> mofs_inode" where
  "inode_in sb V n = inode_of (chunk (inode_off sb n) 64 (V (inode_blk sb n)))"

definition put_inode :: "mofs_superblock \<Rightarrow> int \<Rightarrow> mofs_inode \<Rightarrow> disk \<Rightarrow> disk" where
  "put_inode sb n i V = V(inode_blk sb n := overwrite (inode_off sb n) (inode_bytes i) (V (inode_blk sb n)))"

abbreviation inode_table_own :: "mofs_superblock \<Rightarrow> u32 \<Rightarrow> bool" where
  "inode_table_own sb \<equiv> in_blocks (sb_inode_table_start sb) (sb_data_region_start sb)"

lemma sint_word_of_int_small: "0 \<le> m \<Longrightarrow> m < 2 ^ 31 \<Longrightarrow> sint (word_of_int m :: 32 word) = m"
  by (simp add: sint_uint uint_word_of_int take_bit_int_eq_self signed_take_bit_int_eq_self)

lemma inode_byte_pos_small: "k * 64 < 2 ^ 31 \<Longrightarrow> inode_byte_pos (int k) = int (k * 64)"
proof -
  assume "k * 64 < 2 ^ 31"
  then have "int (k * 64) < int (2 ^ 31)" by (simp only: of_nat_less_iff)
  then have "sint (word_of_int (int (k * 64)) :: 32 word) = int (k * 64)"
    by (intro sint_word_of_int_small) simp_all
  then show ?thesis by (simp only: inode_byte_pos_def of_nat_mult of_nat_numeral)
qed

lemma sdiv_smod_of_nat: "int a sdiv int b = int (a div b)" "int a smod int b = int (a mod b)"
  by (simp_all add: signed_divide_int_def signed_modulo_int_def sgn_if zdiv_int zmod_int minus_div_mult_eq_mod)

lemma bad_inode_num_iff: "bad_inode_num sb n \<longleftrightarrow> \<not> inode_num_ok sb n"
  by (auto simp: bad_inode_num_def inode_num_ok_def)

lemma inode_pos:
  assumes lay: "layout_ok sb" and n: "inode_num_ok sb n"
  shows "unat (inode_blk sb n) = unat (sb_inode_table_start sb) + nat n * 64 div unat (sb_blk_size sb)" (is ?blk)
    and "inode_off sb n = nat n * 64 mod unat (sb_blk_size sb)" (is ?off)
    and "nat n * 64 div unat (sb_blk_size sb) < unat (sb_data_region_start sb) - unat (sb_inode_table_start sb)" (is ?lt)
proof -
  let ?B = "unat (sb_blk_size sb)" and ?t = "unat (sb_inode_table_start sb)"
  obtain k where k: "n = int k" "k < unat (sb_inode_num sb)"
    using n by (metis inode_num_ok_def nonneg_int_cases of_nat_less_iff)
  have "k * 64 < 2 ^ 31"
    by (rule le_less_trans [OF _ layout_okD(8) [OF lay]]) (use k(2) in simp)
  then have pos: "inode_byte_pos (int k) = int (k * 64)" by (rule inode_byte_pos_small)
  have B: "uint (sb_blk_size sb) = int ?B" "uint (sb_inode_table_start sb) = int ?t"
    by simp_all
  have "k * 64 < unat (sb_inode_num sb) * 64" using k(2) by simp
  then have "k * 64 < (unat (sb_data_region_start sb) - ?t) * ?B" using layout_okD(7) [OF lay] by (rule less_le_trans)
  then have d: "k * 64 div ?B < unat (sb_data_region_start sb) - ?t" by (rule less_mult_imp_div_less)
  then have lt: "?t + k * 64 div ?B < 2 ^ 32"
    using layout_okD(6) [OF lay] by linarith
  show ?blk
    unfolding inode_blk_def k(1) pos B sdiv_smod_of_nat of_nat_add [symmetric] nat_int
    using lt by (simp only: of_int_of_nat_eq) (simp add: unat_word_ariths unat_of_nat take_bit_nat_eq_self)
  show ?off
    unfolding inode_off_def k(1) pos B sdiv_smod_of_nat nat_int by simp
  show ?lt using d by (simp add: k(1))
qed

lemma layout_blk_64:
  assumes "layout_ok sb"
  shows "64 dvd unat (sb_blk_size sb)"
proof -
  let ?B = "unat (sb_blk_size sb)"
  note le = layout_blk_size [OF assms]
  obtain k where k: "2 ^ k \<le> ?B" "?B < 2 ^ Suc k"
    using ex_power_ivl1 [of 2 ?B] le(1) by auto
  have "sb_blk_size sb AND (sb_blk_size sb - 1) = 0"
    using layout_okD(1) [OF assms] by (auto simp: mofs_validate_logical_blk_size_def split: if_splits)
  then have "unat (sb_blk_size sb AND (sb_blk_size sb - 1)) = 0" by simp
  moreover have "unat (sb_blk_size sb - 1) = ?B - 1"
    using le(1) unat_sub_le [of 1 "sb_blk_size sb"] by simp
  ultimately have "?B AND (?B - 1) = 0" unfolding unsigned_and_eq by simp
  then have eq: "?B = 2 ^ k" using pow2_iff_and_pred [OF k] by simp
  have "6 \<le> k"
  proof (rule ccontr)
    assume "\<not> 6 \<le> k"
    then have "(2 :: nat) ^ Suc k \<le> 2 ^ 6" by (intro power_increasing) simp_all
    then show False using k(2) le(1) by simp
  qed
  then have "(2 :: nat) ^ 6 dvd 2 ^ k" by (rule le_imp_power_dvd)
  then show "64 dvd ?B" unfolding eq by simp
qed

text \<open>An inode lies within one block of the table; different inodes do not overlap.\<close>

lemma inode_slot:
  assumes lay: "layout_ok sb" and n: "inode_num_ok sb n"
  shows "inode_off sb n + 64 \<le> unat (sb_blk_size sb)" and "inode_table_own sb (inode_blk sb n)"
    and "in_vol sb (inode_blk sb n)"
proof -
  let ?B = "unat (sb_blk_size sb)" and ?k = "nat n"
  obtain c where c: "?B = 64 * c" using layout_blk_64 [OF lay] by (elim dvdE)
  have pos: "0 < c" using c layout_blk_size [OF lay] by (cases c) auto
  have "?k * 64 mod ?B = 64 * (?k mod c)" unfolding c by (simp add: mult.commute [of _ 64])
  moreover have "?k mod c < c" using pos by simp
  ultimately show "inode_off sb n + 64 \<le> ?B" unfolding inode_pos(2) [OF lay n] c by simp
  show "inode_table_own sb (inode_blk sb n)" "in_vol sb (inode_blk sb n)"
    using inode_pos(3) [OF lay n]
    unfolding in_blocks_def in_vol_def word_le_nat_alt word_less_nat_alt inode_pos(1) [OF lay n] by linarith+
qed

lemma inode_slot_disjoint:
  assumes lay: "layout_ok sb" and n: "inode_num_ok sb n" and m: "inode_num_ok sb m" and ne: "m \<noteq> n"
    and eq: "inode_blk sb m = inode_blk sb n"
  shows "inode_off sb m + 64 \<le> inode_off sb n \<or> inode_off sb n + 64 \<le> inode_off sb m"
proof -
  let ?B = "unat (sb_blk_size sb)"
  obtain c where c: "?B = 64 * c" using layout_blk_64 [OF lay] by (elim dvdE)
  have "nat m * 64 div ?B = nat n * 64 div ?B"
    using arg_cong [OF eq, of unat] unfolding inode_pos(1) [OF lay n] inode_pos(1) [OF lay m] by simp
  then have d: "nat m div c = nat n div c" unfolding c by (simp add: mult.commute [of _ 64])
  have "nat m \<noteq> nat n" using ne n m by (auto simp: inode_num_ok_def)
  then have "nat m mod c \<noteq> nat n mod c" using d by (metis div_mult_mod_eq)
  then have "nat m mod c + 1 \<le> nat n mod c \<or> nat n mod c + 1 \<le> nat m mod c" by linarith
  then show ?thesis
    unfolding inode_pos(2) [OF lay n] inode_pos(2) [OF lay m] c
    by (simp add: mult.commute [of _ 64]) linarith
qed

section \<open>The contract of the inode table\<close>

locale inode_store =
  fixes get :: "mofs_superblock \<Rightarrow> disk \<Rightarrow> int \<Rightarrow> mofs_inode"
    and put :: "mofs_superblock \<Rightarrow> int \<Rightarrow> mofs_inode \<Rightarrow> disk \<Rightarrow> disk"
    and ok :: "mofs_superblock \<Rightarrow> int \<Rightarrow> bool"
    and own :: "mofs_superblock \<Rightarrow> u32 \<Rightarrow> bool"
    and rdi :: "int \<Rightarrow> mofs_inode mofs"
    and wri :: "int \<Rightarrow> mofs_inode \<Rightarrow> unit mofs"
  assumes put_wf: "layout_ok sb \<Longrightarrow> ok sb n \<Longrightarrow> wf_disk sb V \<Longrightarrow> wf_disk sb (put sb n i V)"
    and put_off: "layout_ok sb \<Longrightarrow> ok sb n \<Longrightarrow> eq_off (own sb) V (put sb n i V)"
    and get_put: "layout_ok sb \<Longrightarrow> ok sb n \<Longrightarrow> ok sb m \<Longrightarrow> wf_disk sb V \<Longrightarrow>
      get sb (put sb n i V) m = (if m = n then i else get sb V m)"
    and get_cong: "layout_ok sb \<Longrightarrow> ok sb n \<Longrightarrow> (\<And>b. own sb b \<Longrightarrow> V' b = V b) \<Longrightarrow> get sb V' n = get sb V n"
    and rd_law: "runs E V (rdi n) (\<lambda>V' r c. V' = V \<and>
      (if ok (en_sb E) n then case r of Inl _ \<Rightarrow> \<not> c | Inr i \<Rightarrow> i = get (en_sb E) V n else r = Inl MOFS_EINVAL))"
    and wr_law: "runs E V (wri n i) (\<lambda>V' r c. if ok (en_sb E) n
      then case r of Inl _ \<Rightarrow> \<not> c \<and> eq_off (own (en_sb E)) V V' | Inr _ \<Rightarrow> V' = put (en_sb E) n i V
      else r = Inl MOFS_EINVAL \<and> V' = V)"
begin

text \<open>Reading an inode and writing a changed one.\<close>

lemma runs_update_inode:
  "runs E V (bind (rdi n) (\<lambda>i. wri n (f i))) (\<lambda>V' r c. if ok (en_sb E) n
      then case r of Inl _ \<Rightarrow> \<not> c \<and> eq_off (own (en_sb E)) V V' | Inr _ \<Rightarrow> V' = put (en_sb E) n (f (get (en_sb E) V n)) V
      else r = Inl MOFS_EINVAL \<and> V' = V)"
proof (rule runs_bind [OF rd_law], goal_cases)
  case (1 V' e c)
  then show ?case by (auto split: if_splits)
next
  case (2 V' i)
  show ?case
    by (rule runs_mono [OF wr_law]) (use 2 in \<open>auto split: if_splits sum.splits\<close>)
qed

end

section \<open>The routines satisfy the contract\<close>

lemma runs_read_inode:
  "runs E V (mofs_read_inode n) (\<lambda>V' r c. V' = V \<and>
    (if inode_num_ok (en_sb E) n then case r of Inl _ \<Rightarrow> \<not> c | Inr i \<Rightarrow> i = inode_in (en_sb E) V n
     else r = Inl MOFS_EINVAL))"
  unfolding mofs_read_inode_def
proof (rule runs_wf, intro runs_gets_sb runs_throw_if runs_with_malloc runs_core_locked, goal_cases)
  case 1
  then show ?case by (simp add: bad_inode_num_iff)
next
  case 2
  then show ?case by (simp add: bad_inode_num_iff)
next
  case (3 buf)
  then have n: "inode_num_ok (en_sb E) n" and len: "length buf = bsz E" by (simp_all add: bad_inode_num_iff)
  show ?case
    by (rule runs_bind [OF runs_read_block [OF len]])
      (auto simp: n inode_in_def inode_slot(3) [OF 3(1) n] intro!: runs_ret)
qed

lemma inode_patch_length:
  assumes "layout_ok sb" and "inode_num_ok sb n" and "length d = unat (sb_blk_size sb)"
  shows "length (overwrite (inode_off sb n) (inode_bytes i) d) = unat (sb_blk_size sb)"
  using inode_slot(1) [OF assms(1,2)] assms(3) by simp

text \<open>A failed write of an inode has stored an inode whose encoding is a prefix of the new one followed by
  the rest of the old one.\<close>

definition torn_inode :: "mofs_inode \<Rightarrow> mofs_inode \<Rightarrow> mofs_inode \<Rightarrow> bool" where
  "torn_inode i old j = torn (inode_bytes i) (inode_bytes old) (inode_bytes j)"

lemma torn_inode_refl [simp]: "torn_inode i old old"
  by (simp add: torn_inode_def)

lemma torn_inode_list:
  assumes "torn_inode i old j"
  shows "i_data_head i = i_data_head old \<Longrightarrow> i_data_head j = i_data_head old"
    and "i_nr_blocks i = i_nr_blocks old \<Longrightarrow> i_nr_blocks j = i_nr_blocks old"
proof -
  have field: "chunk 16 4 (inode_bytes x) = put32 (i_data_head x)" "chunk 20 4 (inode_bytes x) = put32 (i_nr_blocks x)" for x
    by (simp_all add: inode_bytes_def chunk_def)
  note t = torn_chunk [OF assms [unfolded torn_inode_def]]
  show "i_data_head j = i_data_head old" if "i_data_head i = i_data_head old"
    using t [of 16 4] that get_chunk_put(2) [of 16 "inode_bytes j" "i_data_head old"] get_chunk_put(2) [of 16 "inode_bytes j" "i_data_head j"]
    by (simp add: field)
  show "i_nr_blocks j = i_nr_blocks old" if "i_nr_blocks i = i_nr_blocks old"
    using t [of 20 4] that get_chunk_put(2) [of 20 "inode_bytes j" "i_nr_blocks old"] get_chunk_put(2) [of 20 "inode_bytes j" "i_nr_blocks j"]
    by (simp add: field)
qed

lemma torn_inode_block:
  assumes lay: "layout_ok sb" and n: "inode_num_ok sb n" and len: "length (V (inode_blk sb n)) = unat (sb_blk_size sb)"
    and torn: "torn (overwrite (inode_off sb n) (inode_bytes i) (V (inode_blk sb n))) (V (inode_blk sb n)) d"
  shows "\<exists>j. torn_inode i (inode_in sb V n) j \<and> V(inode_blk sb n := d) = put_inode sb n j V"
proof -
  let ?old = "chunk (inode_off sb n) 64 (V (inode_blk sb n))"
  have fit: "inode_off sb n + length (inode_bytes i) \<le> length (V (inode_blk sb n))" using inode_slot(1) [OF lay n] len by simp
  obtain q where q: "torn (inode_bytes i) ?old q" "length q = 64" "d = overwrite (inode_off sb n) q (V (inode_blk sb n))"
    using torn_overwrite [OF torn fit] by auto
  have "inode_bytes (inode_in sb V n) = ?old" unfolding inode_in_def by (rule inode_bytes_of) (use fit in simp)
  moreover have "inode_bytes (inode_of q) = q" by (rule inode_bytes_of [OF q(2)])
  ultimately show ?thesis using q by (auto simp: torn_inode_def put_inode_def intro!: exI [of _ "inode_of q"])
qed

lemma put_inode_same:
  assumes lay: "layout_ok sb" and n: "inode_num_ok sb n" and wf: "wf_disk sb V"
  shows "put_inode sb n (inode_in sb V n) V = V"
  using inode_slot(1) [OF lay n] wf_diskD [OF wf inode_slot(3) [OF lay n]]
  by (simp add: put_inode_def inode_in_def inode_bytes_of)

lemma put_inode_torn_same:
  assumes "layout_ok sb" and "inode_num_ok sb n" and "wf_disk sb V"
  shows "\<exists>j. torn_inode i (inode_in sb V n) j \<and> V = put_inode sb n j V"
  using put_inode_same [OF assms] by (auto intro!: exI [of _ "inode_in sb V n"])

lemma runs_rmw_inode:
  assumes lay: "layout_ok (en_sb E)" and wf: "wf_disk (en_sb E) V" and n: "inode_num_ok (en_sb E) n" and len: "length buf = bsz E"
  shows "runs E V (bind (read_block buf (inode_blk (en_sb E) n)) (\<lambda>buf.
      write_block (overwrite (inode_off (en_sb E) n) (inode_bytes i) buf) (inode_blk (en_sb E) n)))
    (\<lambda>V' r c. case r of Inl _ \<Rightarrow> \<not> c \<and> (\<exists>j. torn_inode i (inode_in (en_sb E) V n) j \<and> V' = put_inode (en_sb E) n j V)
       | Inr _ \<Rightarrow> V' = put_inode (en_sb E) n i V)"
proof (rule runs_bind [OF runs_read_block [OF len]], goal_cases)
  case (1 V' e c)
  then show ?case using inode_slot(3) [OF lay n] put_inode_torn_same [OF lay n wf, of i] by simp
next
  case (2 V' d)
  then have d: "d = V (inode_blk (en_sb E) n)" "V' = V" "length d = bsz E" using inode_slot(3) [OF lay n] by auto
  show ?case
    by (rule runs_mono [OF runs_write_block [OF inode_patch_length [OF lay n d(3)] inode_slot(3) [OF lay n]]])
      (use d torn_inode_block [OF lay n, of V i] in \<open>auto simp: put_inode_def split: sum.splits\<close>)
qed

lemma runs_write_inode_torn:
  "runs E V (mofs_write_inode n i) (\<lambda>V' r c. if inode_num_ok (en_sb E) n
    then case r of Inl _ \<Rightarrow> \<not> c \<and> (\<exists>j. torn_inode i (inode_in (en_sb E) V n) j \<and> V' = put_inode (en_sb E) n j V)
      | Inr _ \<Rightarrow> V' = put_inode (en_sb E) n i V
    else r = Inl MOFS_EINVAL \<and> V' = V)"
  unfolding mofs_write_inode_def Let_def
proof (rule runs_wf, intro runs_gets_sb runs_throw_if runs_with_malloc runs_any_world runs_if, goal_cases)
  case 1
  then show ?case by (simp add: bad_inode_num_iff)
next
  case 2
  then show ?case using put_inode_torn_same [of "en_sb E" n V i] by (simp add: bad_inode_num_iff)
next
  case (3 buf m)
  then have n: "inode_num_ok (en_sb E) n" and len: "length buf = bsz E" by (simp_all add: bad_inode_num_iff)
  have off: "unat (word_of_nat (inode_off (en_sb E) n) :: u32) = inode_off (en_sb E) n"
    using inode_slot(1) [OF 3(1) n] layout_blk_size(2) [OF 3(1)]
    by (simp add: unat_of_nat take_bit_nat_eq_self)
  have small: "length (inode_bytes i) < 2 ^ 32" by simp
  show ?case
    unfolding if_P [OF n]
  proof (rule runs_attempt_bind [OF runs_modify_block [OF inode_slot(3) [OF 3(1) n] small]], goal_cases)
    case (1 V' r)
    show ?case
    proof (cases "r = Inl MOFS_EINVAL")
      case True
      then have "V' = V" using 1 by simp
      then show ?thesis
        unfolding True by (simp only: simp_thms if_False)
          (rule runs_mono [OF runs_core_locked [OF runs_rmw_inode [OF 3(1,2) n len]]], blast)
    next
      case False
      then show ?thesis
        using 1 off put_inode_torn_same [OF 3(1) n 3(2), of i]
        by (cases r) (auto simp: put_inode_def intro!: runs_from_res)
    qed
  qed
next
  case (4 buf m)
  then have n: "inode_num_ok (en_sb E) n" and len: "length buf = bsz E" by (simp_all add: bad_inode_num_iff)
  show ?case
    unfolding if_P [OF n] by (rule runs_core_locked [OF runs_rmw_inode [OF 4(1,2) n len]])
qed

lemma runs_write_inode:
  "runs E V (mofs_write_inode n i) (\<lambda>V' r c. if inode_num_ok (en_sb E) n
    then case r of Inl _ \<Rightarrow> \<not> c \<and> eq_off (inode_table_own (en_sb E)) V V' | Inr _ \<Rightarrow> V' = put_inode (en_sb E) n i V
    else r = Inl MOFS_EINVAL \<and> V' = V)"
proof (rule runs_wf, rule runs_mono [OF runs_write_inode_torn], goal_cases)
  case (1 V' r c)
  have "eq_off (inode_table_own (en_sb E)) V (put_inode (en_sb E) n j V)" if "inode_num_ok (en_sb E) n" for j
    unfolding put_inode_def by (rule eq_off_upd) (rule inode_slot(2) [OF 1(1) that])
  then show ?case using 1 by (auto split: sum.splits if_splits)
qed

interpretation it: inode_store inode_in put_inode inode_num_ok inode_table_own mofs_read_inode mofs_write_inode
proof (unfold_locales, goal_cases)
  case (1 sb n V i)
  then show ?case
    unfolding put_inode_def
    by (intro wf_disk_update inode_patch_length wf_diskD inode_slot(3))
next
  case (2 sb n V i)
  then show ?case unfolding put_inode_def by (intro eq_off_upd inode_slot(2))
next
  case (3 sb n m V i)
  have len: "inode_off sb n + length (inode_bytes i) \<le> length (V (inode_blk sb n))"
    using inode_slot(1) [OF 3(1,2)] wf_diskD [OF 3(4) inode_slot(3) [OF 3(1,2)]] by simp
  show ?case
  proof (cases "m = n")
    case True
    then show ?thesis using len chunk_overwrite_same [of "inode_off sb n" "inode_bytes i" "V (inode_blk sb n)"]
      by (simp add: inode_in_def put_inode_def)
  next
    case False
    show ?thesis
    proof (cases "inode_blk sb m = inode_blk sb n")
      case True
      have "chunk (inode_off sb m) 64 (overwrite (inode_off sb n) (inode_bytes i) (V (inode_blk sb n))) =
          chunk (inode_off sb m) 64 (V (inode_blk sb n))"
        by (rule chunk_overwrite_disjoint) (use inode_slot_disjoint [OF 3(1,2,3) False True] len inode_slot(1) [OF 3(1,3)] wf_diskD [OF 3(4) inode_slot(3) [OF 3(1,2)]] in auto)
      then show ?thesis using False True by (simp add: inode_in_def put_inode_def)
    qed (use False in \<open>simp add: inode_in_def put_inode_def\<close>)
  qed
next
  case (4 sb n V' V)
  then show ?case using inode_slot(2) [OF 4(1,2)] by (simp add: inode_in_def)
next
  case (5 E V n)
  then show ?case by (rule runs_read_inode)
next
  case (6 E V n i)
  then show ?case by (rule runs_write_inode)
qed

section \<open>Timestamps, allocation and release\<close>

lemma runs_stamp_now:
  "runs E V (mofs_inode_stamp_now i tmask) (\<lambda>V' r c. V' = V \<and>
    (if tmask = 0 then r = Inl MOFS_EINVAL
     else case r of Inl _ \<Rightarrow> \<not> c | Inr i' \<Rightarrow> \<exists>t. i' = stamp_inode t tmask i))"
  unfolding mofs_inode_stamp_now_def
  by (intro runs_throw_if runs_bind [OF runs_now] runs_ret) auto

lemma runs_stamp_persist:
  "runs E V (mofs_inode_stamp_persist n tmask) (\<lambda>V' r c. if inode_num_ok (en_sb E) n \<and> tmask \<noteq> 0
    then case r of Inl _ \<Rightarrow> \<not> c \<and> eq_off (inode_table_own (en_sb E)) V V'
      | Inr _ \<Rightarrow> \<exists>t. V' = put_inode (en_sb E) n (stamp_inode t tmask (inode_in (en_sb E) V n)) V
    else r = Inl MOFS_EINVAL \<and> V' = V)"
  unfolding mofs_inode_stamp_persist_def
proof (rule runs_wf, intro runs_gets_sb runs_throw_if runs_with_malloc runs_core_locked, goal_cases)
  case 1
  then show ?case by (auto simp: bad_inode_num_iff)
next
  case 2
  then show ?case by (simp add: bad_inode_num_iff)
next
  case (3 buf)
  then have n: "inode_num_ok (en_sb E) n" "tmask \<noteq> 0" and len: "length buf = bsz E" and lay: "layout_ok (en_sb E)"
    by (simp_all add: bad_inode_num_iff)
  note slot = inode_slot [OF lay n(1)]
  show ?case
  proof (rule runs_bind [OF runs_read_block [OF len]], goal_cases)
    case (1 V' e c)
    then show ?case using n slot(3) by simp
  next
    case (2 V' d)
    then have d: "d = V (inode_blk (en_sb E) n)" "V' = V" "length d = bsz E" using slot(3) by auto
    show ?case
      unfolding d(1,2)
    proof (rule runs_bind [OF runs_stamp_now], goal_cases)
      case (1 V' e c)
      then show ?case using n by simp
    next
      case (2 V' i')
      have len': "length (overwrite (inode_off (en_sb E) n) (inode_bytes i') (V (inode_blk (en_sb E) n))) = bsz E"
        by (rule inode_patch_length [OF lay n(1)]) (use d in simp)
      show ?case
        by (rule runs_mono [OF runs_write_block [OF len' slot(3)]])
          (use 2 n slot(2) in \<open>auto simp: put_inode_def inode_in_def eq_off_upd split: sum.splits\<close>)
    qed
  qed
qed

lemma layout_inode_nums:
  assumes "layout_ok sb" and "unat (i :: u32) < unat (sb_inode_num sb)"
  shows "nat (sint i) = unat i" and "inode_num_ok sb (sint i)" and "3 \<le> unat i \<Longrightarrow> 3 \<le> sint i"
proof -
  have "unat i * 64 < 2 ^ 31" by (rule le_less_trans [OF _ layout_okD(8) [OF assms(1)]]) (use assms(2) in simp)
  then have "unat i < 2 ^ 31" by simp
  then have "int (unat i) < 2 ^ 31" unfolding of_nat_less_iff [where 'a = int, symmetric] by simp
  then have "sint (word_of_int (int (unat i)) :: 32 word) = int (unat i)" by (intro sint_word_of_int_small) simp_all
  then have sint: "sint i = int (unat i)" by simp
  show "nat (sint i) = unat i" "3 \<le> unat i \<Longrightarrow> 3 \<le> sint i" unfolding sint by linarith+
  show "inode_num_ok sb (sint i)" unfolding sint inode_num_ok_def using assms(2) by linarith
qed

text \<open>The free inode with the lowest number is taken.\<close>

lemma runs_allocate_inode:
  "runs E V allocate_inode (\<lambda>V' r c. case r of
      Inl e \<Rightarrow> eq_off (inode_bitmap_own (en_sb E)) V V' \<and>
        (c \<longrightarrow> V' = V \<and> e = MOFS_ENOSPC \<and> (\<forall>m. 3 \<le> m \<and> m < unat (sb_inode_num (en_sb E)) \<longrightarrow> inode_used (en_sb E) V m))
    | Inr n \<Rightarrow> 3 \<le> n \<and> inode_num_ok (en_sb E) n \<and> \<not> inode_used (en_sb E) V (nat n) \<and>
        (\<forall>m. 3 \<le> m \<and> m < nat n \<longrightarrow> inode_used (en_sb E) V m) \<and> V' = mark_inode (en_sb E) (nat n) True V)"
  unfolding allocate_inode_def
proof (rule runs_wf, rule runs_bind [OF im.find_law], unfold Let_def, goal_cases)
  case (1 V' e c)
  then show ?case by (auto simp: length_0_conv filter_empty_conv)
next
  case (2 V' found)
  let ?sb = "en_sb E"
  let ?free = "filter (\<lambda>i. \<not> inode_used ?sb V i) [3..<unat (sb_inode_num ?sb)]"
  have n: "unat (1 :: u32) \<le> length ?free" and f: "found = map word_of_nat (take (unat (1 :: u32)) ?free)" and V: "V' = V"
    using 2 by auto
  have len: "length found = 1" using im.found_facts(1) [OF n f] by simp
  then obtain i where i: "found = [i]" by (auto simp: length_Suc_conv)
  have ir: "3 \<le> unat i" "unat i < unat (sb_inode_num ?sb)" "\<not> inode_used ?sb V (unat i)"
    using im.found_facts(4) [OF n f, of i] by (auto simp: i im.in_range_def)
  obtain fr where fr: "?free = unat i # fr" using im.found_facts(2) [OF n f] n by (cases ?free) (auto simp: i)
  have first: "inode_used ?sb V m" if "3 \<le> m" "m < unat i" for m
  proof (rule ccontr)
    assume "\<not> inode_used ?sb V m"
    then have "m \<in> set ?free" using that ir(2) by simp
    moreover have "sorted ?free" by (intro sorted_wrt_filter sorted_upt)
    ultimately show False using that(2) unfolding fr by auto
  qed
  note num = layout_inode_nums [OF 2(1) ir(2)]
  show ?case
    unfolding V i list.sel
  proof (rule runs_attempt_bind [OF im.set_off], goal_cases)
    case (1 V1 r)
    show ?case
    proof (cases r)
      case (Inl e)
      have off: "eq_off (inode_bitmap_own ?sb) V V1" using 1 ir Inl by simp
      show ?thesis
        unfolding Inl sum.case
        by (rule runs_bind [OF im.runs_upd])
          (use ir off in \<open>auto simp: im.in_range_def intro!: runs_throw intro: eq_off_trans\<close>)
    next
      case (Inr u)
      have "V1 = mark_inode ?sb (unat i) True V" using 1 ir Inr by simp
      then show ?thesis
        unfolding Inr sum.case using num(2) num(3) [OF ir(1)] ir(3) first
        by (intro runs_ret) (simp add: num(1))
    qed
  qed
qed

lemma runs_free_inode:
  "runs E V (free_inode n) (\<lambda>V' r c. if 3 \<le> n \<and> inode_num_ok (en_sb E) n
    then case r of
        Inl _ \<Rightarrow> \<not> c \<and> eq_off (\<lambda>b. inode_bitmap_own (en_sb E) b \<or> inode_table_own (en_sb E) b) V V'
      | Inr _ \<Rightarrow> V' = put_inode (en_sb E) n zero_inode (mark_inode (en_sb E) (nat n) False V)
    else r = Inl MOFS_EINVAL \<and> V' = V)"
  unfolding free_inode_def
proof (rule runs_wf, intro runs_gets_sb runs_throw_if, goal_cases)
  case 1
  then show ?case by (auto simp: inode_num_ok_def)
next
  case 2
  let ?sb = "en_sb E"
  let ?own = "\<lambda>b. inode_bitmap_own ?sb b \<or> inode_table_own ?sb b"
  have n: "3 \<le> n" "inode_num_ok ?sb n" using 2 by (auto simp: inode_num_ok_def)
  have lim: "3 \<le> nat n \<and> nat n < unat (sb_inode_num ?sb)" using n unfolding inode_num_ok_def by linarith
  have un: "unat (word_of_int n :: u32) = nat n"
  proof -
    have "nat n < 2 ^ 32" using lim unat_u32_less [of "sb_inode_num ?sb"] by linarith
    moreover have "word_of_int n = (word_of_nat (nat n) :: u32)" using n by simp
    ultimately show ?thesis by (simp only: unat_word_of_nat)
  qed
  have rng: "im.in_range ?sb (word_of_int n)" using lim by (simp add: im.in_range_def un)
  have sub: "eq_off ?own V1 V2" if "eq_off (inode_bitmap_own ?sb) V1 V2 \<or> eq_off (inode_table_own ?sb) V1 V2" for V1 V2
    using that by (auto elim: eq_off_mono)
  have moff: "eq_off ?own V (mark_inode ?sb (nat n) False V)" by (rule sub, rule disjI1, rule im.mark_off) (use 2 lim in auto)
  show ?case
    unfolding if_P [OF conjI [OF n]]
  proof (rule runs_bind [OF im.set_off [of E _ "word_of_int n", unfolded un if_P [OF lim]]], goal_cases)
    case (1 V' e c)
    then show ?case by (auto intro: sub)
  next
    case (2 V1 u)
    then have V1: "V1 = mark_inode ?sb (nat n) False V" by simp
    show ?case
      unfolding V1
    proof (rule runs_attempt_bind [OF runs_write_inode [of E _ n, unfolded if_P [OF n(2)]]], goal_cases)
      case (1 V2 r)
      show ?case
      proof (cases r)
        case (Inl e)
        have off: "eq_off ?own V V2" by (rule eq_off_trans [OF moff]) (use 1 Inl in \<open>auto intro: sub\<close>)
        have off': "eq_off ?own V V3" if "eq_off (inode_bitmap_own ?sb) V2 V3" for V3
          by (rule eq_off_trans [OF off]) (use that in \<open>auto intro: sub\<close>)
        show ?thesis
          unfolding Inl sum.case
          by (rule runs_bind [OF im.runs_upd])
            (use rng in \<open>auto intro!: runs_throw intro: off'\<close>)
      next
        case (Inr u)
        then show ?thesis using 1 by (auto intro!: runs_ret)
      qed
    qed
  qed
qed

end
