(* ===== verification/Mofs_List.thy ===== *)
theory Mofs_List
  imports Mofs_Inode
begin

text \<open>
  The block list of a file, \<open>src/core/modules/mofs_block.c\<close>: a chain of list nodes, blocks of the
  data region that each hold the number of the next node and an array of block numbers. The
  routines walk a chain, export it to an array, build a new chain for an array, and append blocks
  to a file or remove a range of its blocks.

  A walk over a chain is a partial function: on a cyclic chain it need not return, and
  \<open>None\<close> is the value of a walk that does not. An access outside an array, which is undefined
  in C, is treated in the same way, so the contracts show that it does not happen.
\<close>

section \<open>Arrays and buffers\<close>

definition array_get :: "'a list \<Rightarrow> u32 \<Rightarrow> 'a mofs" where
  "array_get xs i = (if unat i < length xs then ret (xs ! unat i) else diverge)"

text \<open>An allocation whose failure the code handles itself; the storage is released in any case,
  and releasing NULL does nothing.\<close>

definition free_opt :: "'a option \<Rightarrow> unit mofs" where
  "free_opt p = (case p of None \<Rightarrow> ret () | Some _ \<Rightarrow> mofs_free)"

definition with_malloc_opt :: "nat \<Rightarrow> (byte list option \<Rightarrow> 'a mofs) \<Rightarrow> 'a mofs" where
  "with_malloc_opt n body = bind (mofs_malloc n) (\<lambda>p. ensuring (body p) (free_opt p))"

section \<open>List nodes\<close>

definition list_ptrs_cap :: "mofs_superblock \<Rightarrow> u32" where
  "list_ptrs_cap sb = mofs_list_ptrs_per_node (sb_blk_size sb)"

definition list_ptr_area :: "byte list \<Rightarrow> nat \<Rightarrow> u32" where
  "list_ptr_area blk_buf i = get32 (8 + 4 * i) blk_buf"

definition abs_to_data_idx :: "mofs_superblock \<Rightarrow> u32 \<Rightarrow> u32 res" where
  "abs_to_data_idx sb abs_blk =
     (if abs_blk < sb_data_region_start sb then Inl MOFS_EIO
      else let data_idx = abs_blk - sb_data_region_start sb in
        if sb_data_blk_num sb \<le> data_idx then Inl MOFS_EIO else Inr data_idx)"

definition read_list_node :: "u32 \<Rightarrow> byte list \<Rightarrow> byte list mofs" where
  "read_list_node abs_blk blk_buf =
     bind (gets dev_fd) (\<lambda>fd.
     bind (read_continuous_blocks fd blk_buf 1 abs_blk) (\<lambda>(blk_buf, read_blk_num, fraction).
     if read_blk_num \<noteq> 1 \<or> fraction \<noteq> 0 then throw MOFS_EIO else ret blk_buf))"

definition write_list_node :: "u32 \<Rightarrow> byte list \<Rightarrow> unit mofs" where
  "write_list_node abs_blk blk_buf =
     bind (gets dev_fd) (\<lambda>fd.
     bind (write_continuous_blocks fd blk_buf 1 abs_blk) (\<lambda>(written_blk_num, fraction).
     if written_blk_num \<noteq> 1 \<or> fraction \<noteq> 0 then throw MOFS_EIO else ret ()))"

text \<open>The \<open>while\<close> loop of \<open>free_list_chain\<close>.\<close>

partial_function (option) free_chain_loop :: "mofs_superblock \<Rightarrow> byte list \<Rightarrow> u32 \<Rightarrow> unit mofs" where
  "free_chain_loop sb blk_buf node_abs w =
     (if node_abs = 0 then ret () w
      else bind (read_list_node node_abs blk_buf) (\<lambda>blk_buf.
           bind (from_res (abs_to_data_idx sb node_abs)) (\<lambda>data_idx.
           bind (set_data_bitmap_bit data_idx False) (\<lambda>_.
           bind (ignore (mofs_bcache_invalidate node_abs)) (\<lambda>_.
           free_chain_loop sb blk_buf (next_abs (list_hdr_of blk_buf)))))) w)"

definition free_list_chain :: "u32 \<Rightarrow> unit mofs" where
  "free_list_chain head_abs =
     (if head_abs = 0 then ret ()
      else bind (gets sp_blk) (\<lambda>sb.
           with_malloc (unat (sb_blk_size sb)) (\<lambda>blk_buf. free_chain_loop sb blk_buf head_abs)))"

text \<open>The two loops of \<open>export_data_block_list\<close>; \<open>out\<close> is the part of \<open>abs_out\<close> written so
  far.\<close>

fun export_ptrs :: "u32 \<Rightarrow> byte list \<Rightarrow> nat list \<Rightarrow> u32 list \<Rightarrow> u32 list res" where
  "export_ptrs nr_blocks blk_buf [] out = Inr out"
| "export_ptrs nr_blocks blk_buf (i # rest) out =
     (if unat nr_blocks \<le> length out then Inl MOFS_EIO
      else export_ptrs nr_blocks blk_buf rest (out @ [list_ptr_area blk_buf i]))"

partial_function (option) export_loop ::
  "u32 \<Rightarrow> u32 \<Rightarrow> byte list \<Rightarrow> u32 \<Rightarrow> u32 list \<Rightarrow> u32 list mofs" where
  "export_loop nr_blocks ptrs_cap blk_buf node_abs out w =
     (if node_abs = 0 then ret out w
      else bind (read_list_node node_abs blk_buf) (\<lambda>blk_buf.
           bind (throw_if (ptrs_cap < nr_ptrs (list_hdr_of blk_buf)) MOFS_EIO) (\<lambda>_.
           bind (from_res (export_ptrs nr_blocks blk_buf [0..<unat (nr_ptrs (list_hdr_of blk_buf))] out)) (\<lambda>out.
           export_loop nr_blocks ptrs_cap blk_buf (next_abs (list_hdr_of blk_buf)) out))) w)"

definition export_data_block_list :: "mofs_inode \<Rightarrow> u32 \<Rightarrow> u32 list mofs" where
  "export_data_block_list inode abs_cap =
     bind (gets sp_blk) (\<lambda>sb.
     if i_nr_blocks inode = 0 then ret []
     else bind (throw_if (i_data_head inode = 0 \<or> abs_cap < i_nr_blocks inode) MOFS_EINVAL) (\<lambda>_.
          bind (throw_if (list_ptrs_cap sb = 0) MOFS_EINVAL) (\<lambda>_.
          with_malloc (unat (sb_blk_size sb)) (\<lambda>blk_buf.
            bind (export_loop (i_nr_blocks inode) (list_ptrs_cap sb) blk_buf (i_data_head inode) []) (\<lambda>out.
            if length out \<noteq> unat (i_nr_blocks inode) then throw MOFS_EIO else ret out)))))"

definition list_nodes_for_block_count :: "mofs_superblock \<Rightarrow> u32 \<Rightarrow> u32" where
  "list_nodes_for_block_count sb nr_blocks =
     (let ptrs_cap = list_ptrs_cap sb in
      if nr_blocks = 0 then 0
      else if ptrs_cap = 0 then 0
      else (nr_blocks + ptrs_cap - 1) div ptrs_cap)"

text \<open>Marking a list of indices, undone when one of them fails: \<open>taken\<close> are those marked so far.\<close>

fun reserve_blocks :: "u32 list \<Rightarrow> u32 list \<Rightarrow> unit mofs" where
  "reserve_blocks taken [] = ret ()"
| "reserve_blocks taken (idx # rest) =
     bind (on_error (set_data_bitmap_bit idx True) (update_data_bitmap_bits taken False)) (\<lambda>_.
     reserve_blocks (taken @ [idx]) rest)"

definition list_node_image :: "nat \<Rightarrow> u32 \<Rightarrow> u32 list \<Rightarrow> byte list" where
  "list_node_image sz nxt ptrs =
     overwrite 0 (list_hdr_bytes \<lparr>next_abs = nxt, nr_ptrs = word_of_nat (length ptrs)\<rparr> @ concat (map put32 ptrs))
       (replicate sz 0)"

text \<open>The loop that fills and writes the nodes; \<open>list_node_idx\<close> are the nodes still to write,
  \<open>taken\<close> all of them.\<close>

fun write_nodes :: "mofs_superblock \<Rightarrow> u32 list \<Rightarrow> u32 list \<Rightarrow> u32 \<Rightarrow> u32 list \<Rightarrow> u32 \<Rightarrow> unit mofs" where
  "write_nodes sb taken abs_list nr_blocks [] abs_idx = ret ()"
| "write_nodes sb taken abs_list nr_blocks (idx # rest) abs_idx =
     (let nr_in_node = min (nr_blocks - abs_idx) (list_ptrs_cap sb);
          nxt = (case rest of [] \<Rightarrow> 0 | idx' # _ \<Rightarrow> sb_data_region_start sb + idx')
      in if length abs_list < unat abs_idx + unat nr_in_node then diverge
         else bind (on_error
                (write_list_node (sb_data_region_start sb + idx)
                   (list_node_image (unat (sb_blk_size sb)) nxt (chunk (unat abs_idx) (unat nr_in_node) abs_list)))
                (update_data_bitmap_bits taken False)) (\<lambda>_.
              write_nodes sb taken abs_list nr_blocks rest (abs_idx + nr_in_node)))"

text \<open>The result is the inode with its new list and the previous head of the list.\<close>

definition rebuild_data_block_list :: "mofs_inode \<Rightarrow> u32 list \<Rightarrow> u32 \<Rightarrow> (mofs_inode \<times> u32) mofs" where
  "rebuild_data_block_list inode abs_list nr_blocks =
     bind (gets sp_blk) (\<lambda>sb.
     let needed_nodes = list_nodes_for_block_count sb nr_blocks in
     if nr_blocks = 0 then ret (inode\<lparr>i_data_head := 0, i_nr_blocks := 0\<rparr>, i_data_head inode)
     else bind (throw_if (needed_nodes = 0) MOFS_EINVAL) (\<lambda>_.
          with_malloc (4 * unat needed_nodes) (\<lambda>_.
            bind (find_free_data_block_indices needed_nodes) (\<lambda>list_node_idx.
            bind (reserve_blocks [] list_node_idx) (\<lambda>_.
            with_malloc_opt (unat (sb_blk_size sb)) (\<lambda>blk_buf. case blk_buf of
                None \<Rightarrow> bind (update_data_bitmap_bits list_node_idx False) (\<lambda>_. throw MOFS_ENOMEM)
              | Some _ \<Rightarrow>
                  bind (write_nodes sb list_node_idx abs_list nr_blocks list_node_idx 0) (\<lambda>_.
                  ret (inode\<lparr>i_data_head := sb_data_region_start sb + hd list_node_idx, i_nr_blocks := nr_blocks\<rparr>,
                       i_data_head inode))))))))"

partial_function (option) resolve_loop :: "u32 \<Rightarrow> byte list \<Rightarrow> u32 \<Rightarrow> u32 \<Rightarrow> u32 mofs" where
  "resolve_loop ptrs_cap blk_buf node_abs remain w =
     (if node_abs = 0 then throw MOFS_EIO w
      else bind (read_list_node node_abs blk_buf) (\<lambda>blk_buf.
           bind (throw_if (ptrs_cap < nr_ptrs (list_hdr_of blk_buf)) MOFS_EIO) (\<lambda>_.
           if remain < nr_ptrs (list_hdr_of blk_buf) then ret (list_ptr_area blk_buf (unat remain))
           else resolve_loop ptrs_cap blk_buf (next_abs (list_hdr_of blk_buf))
                  (remain - nr_ptrs (list_hdr_of blk_buf)))) w)"

definition resolve_file_data_block :: "int \<Rightarrow> u32 \<Rightarrow> u32 mofs" where
  "resolve_file_data_block inode_num file_blk_idx =
     bind (gets sp_blk) (\<lambda>sb.
     bind (throw_if (inode_num < 0) MOFS_EINVAL) (\<lambda>_.
     bind (mofs_read_inode inode_num) (\<lambda>inode.
     bind (throw_if (i_nr_blocks inode \<le> file_blk_idx) MOFS_EINVAL) (\<lambda>_.
     bind (throw_if (i_data_head inode = 0) MOFS_EIO) (\<lambda>_.
     with_malloc (unat (sb_blk_size sb)) (\<lambda>blk_buf.
       resolve_loop (list_ptrs_cap sb) blk_buf (i_data_head inode) file_blk_idx))))))"

section \<open>Appending and removing blocks\<close>

text \<open>The step both routines end with: a new chain for the given blocks is written, the inode is
  stored with it, and the superseded chain is released.\<close>

definition replace_list :: "int \<Rightarrow> mofs_inode \<Rightarrow> u32 list \<Rightarrow> u32 \<Rightarrow> unit mofs" where
  "replace_list inode_num inode abs_list nr_blocks =
     bind (rebuild_data_block_list inode abs_list nr_blocks) (\<lambda>(inode, old_head).
     bind (on_error (mofs_write_inode inode_num inode) (free_list_chain (i_data_head inode))) (\<lambda>_.
     if old_head \<noteq> 0 then ignore (free_list_chain old_head) else ret ()))"

text \<open>\<open>flat_abs\<close> has room for \<open>new_total\<close> entries, a sum of 32 bits: when it wraps around, the
  stores run past the array.\<close>

definition allocate_data_block :: "int \<Rightarrow> u32 \<Rightarrow> unit mofs" where
  "allocate_data_block inode_num req_blk_num =
     bind (gets sp_blk) (\<lambda>sb.
     bind (throw_if (inode_num < 0) MOFS_EINVAL) (\<lambda>_.
     if req_blk_num = 0 then ret ()
     else bind (mofs_read_inode inode_num) (\<lambda>inode_buf.
          let new_total = i_nr_blocks inode_buf + req_blk_num in
          bind (throw_if (MOFS_MAX_FILE_DATA_BLOCKS < new_total) MOFS_ENOSPC) (\<lambda>_.
          with_malloc_opt (4 * unat new_total) (\<lambda>flat_abs.
          with_malloc_opt (4 * unat req_blk_num) (\<lambda>new_data_idx.
          bind (throw_if (flat_abs = None \<or> new_data_idx = None) MOFS_ENOMEM) (\<lambda>_.
          if new_total < i_nr_blocks inode_buf then diverge
          else
            bind (if 0 < i_nr_blocks inode_buf then export_data_block_list inode_buf (i_nr_blocks inode_buf)
                  else ret []) (\<lambda>flat_abs.
            bind (find_free_data_block_indices req_blk_num) (\<lambda>new_data_idx.
            bind (reserve_blocks [] new_data_idx) (\<lambda>_.
            on_error
              (replace_list inode_num inode_buf
                 (flat_abs @ map (\<lambda>idx. sb_data_region_start sb + idx) new_data_idx) new_total)
              (update_data_bitmap_bits new_data_idx False)))))))))))"

text \<open>The loops of \<open>free_data_block\<close> over the range of blocks, by their index in the range.\<close>

fun release_blocks :: "mofs_superblock \<Rightarrow> u32 list \<Rightarrow> u32 \<Rightarrow> nat list \<Rightarrow> unit mofs" where
  "release_blocks sb flat_abs start_blk_num [] = ret ()"
| "release_blocks sb flat_abs start_blk_num (i # rest) =
     bind (array_get flat_abs (start_blk_num + word_of_nat i)) (\<lambda>abs_blk.
     bind (from_res (abs_to_data_idx sb abs_blk)) (\<lambda>data_idx.
     bind (set_data_bitmap_bit data_idx False) (\<lambda>_.
     bind (ignore (mofs_bcache_invalidate abs_blk)) (\<lambda>_.
     release_blocks sb flat_abs start_blk_num rest))))"

fun restore_bits :: "mofs_superblock \<Rightarrow> u32 list \<Rightarrow> u32 \<Rightarrow> nat list \<Rightarrow> unit mofs" where
  "restore_bits sb flat_abs start_blk_num [] = ret ()"
| "restore_bits sb flat_abs start_blk_num (i # rest) =
     bind (array_get flat_abs (start_blk_num + word_of_nat i)) (\<lambda>abs_blk.
     bind (ignore (set_data_bitmap_bit (abs_blk - sb_data_region_start sb) True)) (\<lambda>_.
     restore_bits sb flat_abs start_blk_num rest))"

fun compact_list :: "u32 list \<Rightarrow> u32 \<Rightarrow> u32 \<Rightarrow> nat list \<Rightarrow> u32 list mofs" where
  "compact_list flat_abs start_blk_num free_blk_num [] = ret []"
| "compact_list flat_abs start_blk_num free_blk_num (i # rest) =
     bind (array_get flat_abs (if word_of_nat i < start_blk_num then word_of_nat i else word_of_nat i + free_blk_num))
       (\<lambda>abs_blk.
     bind (compact_list flat_abs start_blk_num free_blk_num rest) (\<lambda>compact_abs. ret (abs_blk # compact_abs)))"

definition free_data_block :: "int \<Rightarrow> u32 \<Rightarrow> u32 \<Rightarrow> unit mofs" where
  "free_data_block inode_num start_blk_num req_blk_num =
     bind (gets sp_blk) (\<lambda>sb.
     bind (throw_if (inode_num < 0) MOFS_EINVAL) (\<lambda>_.
     if req_blk_num = 0 then ret ()
     else bind (mofs_read_inode inode_num) (\<lambda>inode_buf.
          bind (throw_if (i_nr_blocks inode_buf \<le> start_blk_num) MOFS_EINVAL) (\<lambda>_.
          let nr = i_nr_blocks inode_buf;
              free_blk_num = (if nr < start_blk_num + req_blk_num then nr - start_blk_num else req_blk_num);
              remain_num = nr - free_blk_num
          in with_malloc (4 * unat nr) (\<lambda>_.
            bind (export_data_block_list inode_buf nr) (\<lambda>flat_abs.
            bind (release_blocks sb flat_abs start_blk_num [0..<unat free_blk_num]) (\<lambda>_.
            on_error
               (if 0 < remain_num then
                  with_malloc (4 * unat remain_num) (\<lambda>_.
                  bind (compact_list flat_abs start_blk_num free_blk_num [0..<unat remain_num]) (\<lambda>compact_abs.
                  replace_list inode_num inode_buf compact_abs remain_num))
                else replace_list inode_num inode_buf [] remain_num)
               (restore_bits sb flat_abs start_blk_num [0..<unat free_blk_num]))))))))"

end
