(* ===== verification/Mofs_Chain.thy ===== *)
theory Mofs_Chain
  imports Mofs_List
begin

text \<open>
  The contracts of the block-list routines. \<open>chain sb V head ns\<close> says that the list nodes
  \<open>ns\<close> of the volume \<open>V\<close> form a chain from \<open>head\<close>; \<open>file_blocks sb V i ns ds\<close> says that the
  inode \<open>i\<close> maps its logical blocks to the blocks \<open>ds\<close> with such a chain. On a chain the walks
  return, and they compute the list functions one expects.
\<close>

section \<open>More rules for contracts\<close>

lemma runs_on_error:
  assumes m: "runs E V m P"
    and ok: "\<And>V' x c. P V' (Inr x) c \<Longrightarrow> R V' (Inr x) c"
    and undo: "\<And>V' e. P V' (Inl e) False \<Longrightarrow> runs E V' u (\<lambda>V'' r c. P V' (Inl e) c \<longrightarrow> R V'' (Inl e) c)"
  shows "runs E V (on_error m u) R"
  unfolding on_error_def
proof (rule runs_attempt_bind [OF m], goal_cases)
  case (1 V' r)
  show ?case
  proof (cases r)
    case (Inl e)
    show ?thesis
      unfolding Inl sum.case
      by (rule runs_attempt_bind [OF undo]) (use 1 Inl in \<open>auto intro!: runs_throw\<close>)
  next
    case (Inr x)
    then show ?thesis using ok by (auto intro!: runs_ret)
  qed
qed

lemma runs_ignore:
  assumes "runs E V m P" and "\<And>V' r c. P V' r c \<Longrightarrow> R V' (Inr ()) c"
  shows "runs E V (ignore m) R"
  unfolding ignore_def by (rule runs_attempt_bind [OF assms(1)]) (use assms(2) in \<open>auto intro!: runs_ret\<close>)

lemma wp_mofs_malloc:
  assumes fail: "\<And>w1. same_store w w1 \<Longrightarrow> io_frame w w1 \<Longrightarrow> \<not> os_ok w \<Longrightarrow> Q (Inr None) w1"
    and ok: "\<And>buf w1. length buf = n \<Longrightarrow> same_store w w1 \<Longrightarrow> alloc_frame w w1 \<Longrightarrow> Q (Inr (Some buf)) w1"
  shows "wp (mofs_malloc n) Q w"
proof -
  let ?tick = "w\<lparr>w_os := (os_tick (w_os w))\<lparr>os_errno := 12\<rparr>\<rparr>"
  have bad: "Q (Inr None) ?tick" if "os_fault (w_os w) (os_calls (w_os w)) \<noteq> NoFault"
    using that os_ok_now [of w] by (intro fail) (auto simp: same_store_def failed_alloc)
  have good: "Q (Inr (Some (map (os_junk (w_os w) (os_calls (w_os w))) [0..<n])))
      (w\<lparr>w_os := (w_os w)\<lparr>os_calls := Suc (os_calls (w_os w)), os_live := os_live (w_os w) + 1\<rparr>\<rparr>)"
    by (rule ok) (simp_all add: same_store_def alloc_frame_def io_frame_def os_frame_def fd_ok_def)
  show ?thesis
    using good bad by (simp add: mofs_malloc_def set_os_errno_def wp_simps split: os_fault.splits)
qed

lemma runs_with_malloc_opt:
  assumes fail: "runs E V (body None) (\<lambda>V' r c. P V' r False)"
    and ok: "\<And>buf. length buf = n \<Longrightarrow> runs E V (body (Some buf)) P"
  shows "runs E V (with_malloc_opt n body) P"
proof (rule runsI)
  fix w assume w: "fs_ok w" "env_of w = E" "vol w = V"
  show "wp (with_malloc_opt n body) (\<lambda>r w'. fs_ok w' \<and> io_frame w w' \<and> P (vol w') r False \<and>
      (calm w w' \<longrightarrow> P (vol w') r True)) w"
    unfolding with_malloc_opt_def wp_bind wp_ensuring
  proof (rule wp_mofs_malloc, goal_cases)
    case (1 w1)
    have "wp (body None) (\<lambda>r w'. fs_ok w' \<and> io_frame w1 w' \<and> P (vol w') r False \<and> (calm w1 w' \<longrightarrow> P (vol w') r False)) w1"
      by (rule runsD [OF fail fs_ok_store [OF 1(1) w(1)]]) (use w 1 env_frame [OF 1(2)] vol_store [OF 1(1)] in simp_all)
    then show ?case
      unfolding sum.case free_opt_def option.case wp_ret
      by (rule wp_mono) (use 1 io_frame_trans [OF 1(2)] in \<open>auto simp: calm_def\<close>)
  next
    case (2 buf w1)
    have env: "env_of w1 = E"
      using 2(3) w(2) by (auto simp: alloc_frame_def io_frame_def os_frame_def env_of_def)
    have "wp (body (Some buf)) (\<lambda>r w'. fs_ok w' \<and> io_frame w1 w' \<and> P (vol w') r False \<and> (calm w1 w' \<longrightarrow> P (vol w') r True)) w1"
      by (rule runsD [OF ok [OF 2(1)] fs_ok_store [OF 2(2) w(1)] env]) (use vol_store [OF 2(2)] w(3) in simp)
    then show ?case
      unfolding sum.case free_opt_def option.case wp_mofs_free
    proof (rule wp_mono, goal_cases)
      case (1 r w2)
      then show ?case
        using fs_ok_store [of w2 "freed w2"] vol_store [of w2 "freed w2"]
          alloc_frame_freed [OF \<open>alloc_frame w w1\<close>, of w2] alloc_frame_calm [OF \<open>alloc_frame w w1\<close>, of w2]
        by auto
    qed
  qed
qed

lemma runs_array_get: "unat i < length xs \<Longrightarrow> (\<And>c. P V (Inr (xs ! unat i)) c) \<Longrightarrow> runs E V (array_get xs i) P"
  by (simp add: array_get_def runs_ret)

lemma runs_pure_bind:
  assumes "\<And>x. r = Inr x \<Longrightarrow> runs E V (f x) R" and "\<And>e c. r = Inl e \<Longrightarrow> R V (Inl e) c"
  shows "runs E V (bind (from_res r) f) R"
  by (rule runs_bind [where P = "\<lambda>V' r' c. V' = V \<and> r' = r"])
    (use assms in \<open>auto intro!: runs_from_res\<close>)

section \<open>Chains\<close>

text \<open>Blocks of the data region and their index in the bitmap.\<close>

definition data_blk :: "mofs_superblock \<Rightarrow> u32 \<Rightarrow> bool" where
  "data_blk sb b = (unat (sb_data_region_start sb) \<le> unat b \<and>
     unat b < unat (sb_data_region_start sb) + unat (sb_data_blk_num sb))"

definition data_idx :: "mofs_superblock \<Rightarrow> u32 \<Rightarrow> nat" where
  "data_idx sb b = unat b - unat (sb_data_region_start sb)"

definition node_ptrs :: "disk \<Rightarrow> u32 \<Rightarrow> u32 list" where
  "node_ptrs V n = map (list_ptr_area (V n)) [0..<unat (nr_ptrs (list_hdr_of (V n)))]"

fun chain :: "mofs_superblock \<Rightarrow> disk \<Rightarrow> u32 \<Rightarrow> u32 list \<Rightarrow> bool" where
  "chain sb V head [] = (head = 0)"
| "chain sb V head (n # ns) =
     (head = n \<and> n \<noteq> 0 \<and> data_blk sb n \<and> nr_ptrs (list_hdr_of (V n)) \<le> list_ptrs_cap sb \<and>
      chain sb V (next_abs (list_hdr_of (V n))) ns)"

definition chain_ptrs :: "disk \<Rightarrow> u32 list \<Rightarrow> u32 list" where
  "chain_ptrs V ns = concat (map (node_ptrs V) ns)"

definition file_blocks :: "mofs_superblock \<Rightarrow> disk \<Rightarrow> mofs_inode \<Rightarrow> u32 list \<Rightarrow> u32 list \<Rightarrow> bool" where
  "file_blocks sb V i ns ds =
     (chain sb V (i_data_head i) ns \<and> distinct ns \<and> chain_ptrs V ns = ds \<and> length ds = unat (i_nr_blocks i))"

lemma chain_cong:
  "(\<And>n. n \<in> set ns \<Longrightarrow> V' n = V n) \<Longrightarrow> chain sb V' head ns = chain sb V head ns"
  by (induction ns arbitrary: head) simp_all

lemma chain_ptrs_cong:
  "(\<And>n. n \<in> set ns \<Longrightarrow> V' n = V n) \<Longrightarrow> chain_ptrs V' ns = chain_ptrs V ns"
  by (simp add: chain_ptrs_def node_ptrs_def cong: map_cong)

lemma chain_data_blk: "chain sb V head ns \<Longrightarrow> n \<in> set ns \<Longrightarrow> data_blk sb n"
  by (induction ns arbitrary: head) auto

lemma chain_head_0: "chain sb V head ns \<Longrightarrow> head = 0 \<longleftrightarrow> ns = []"
  by (cases ns) auto

lemma data_blk_vol: "data_blk sb b \<Longrightarrow> in_vol sb b"
  by (simp add: data_blk_def in_vol_def)

lemma data_blk_regions:
  assumes "layout_ok sb" and "data_blk sb b"
  shows "\<not> data_bitmap_own sb b" "\<not> inode_bitmap_own sb b" "\<not> inode_table_own sb b" "b \<noteq> 0"
proof -
  note l = layout_okD [OF assms(1)]
  have "unat (sb_data_region_start sb) \<le> unat b" using assms(2) by (simp add: data_blk_def)
  then have le: "unat (sb_inode_table_start sb) \<le> unat b" "unat (sb_data_bitmap_start sb) \<le> unat b"
    "unat (sb_data_region_start sb) \<le> unat b" "0 < unat b"
    using l(2-5) by linarith+
  show "\<not> data_bitmap_own sb b" "\<not> inode_bitmap_own sb b" "\<not> inode_table_own sb b"
    using le by (auto simp: in_blocks_def word_less_nat_alt)
  show "b \<noteq> 0" using le(4) by auto
qed

lemma abs_to_data_idx_ok:
  assumes "data_blk sb b"
  shows "abs_to_data_idx sb b = Inr (b - sb_data_region_start sb)" "unat (b - sb_data_region_start sb) = data_idx sb b"
    and "data_idx sb b < unat (sb_data_blk_num sb)"
proof -
  have b: "unat (sb_data_region_start sb) \<le> unat b" "unat b < unat (sb_data_region_start sb) + unat (sb_data_blk_num sb)"
    using assms by (simp_all add: data_blk_def)
  show un: "unat (b - sb_data_region_start sb) = data_idx sb b"
    unfolding data_idx_def using b(1) by (intro unat_sub_le) (simp add: word_le_nat_alt)
  show "data_idx sb b < unat (sb_data_blk_num sb)" using b by (simp add: data_idx_def)
  then show "abs_to_data_idx sb b = Inr (b - sb_data_region_start sb)"
    using b un by (simp add: abs_to_data_idx_def Let_def word_less_nat_alt word_le_nat_alt)
qed

lemma data_idx_inj: "data_blk sb a \<Longrightarrow> data_blk sb b \<Longrightarrow> data_idx sb a = data_idx sb b \<longleftrightarrow> a = b"
  by (auto simp: data_blk_def data_idx_def word_unat_eq_iff)

text \<open>Marking bits of the data bitmap and changing data blocks.\<close>

lemma data_used_update: "layout_ok sb \<Longrightarrow> data_blk sb b \<Longrightarrow> i < unat (sb_data_blk_num sb) \<Longrightarrow>
    data_used sb (V(b := d)) i = data_used sb V i"
  using data_blk_regions(1) by (intro dm.used_cong) auto

section \<open>Walks\<close>

lemma read_list_node_block: "read_list_node b buf = read_block buf b"
  by (simp add: read_list_node_def read_block_def)

lemma write_list_node_block: "write_list_node b buf = write_block buf b"
  by (simp add: write_list_node_def write_block_def)

lemma free_chain_loop_unfold:
  "free_chain_loop sb buf n =
     (if n = 0 then ret ()
      else bind (read_list_node n buf) (\<lambda>buf.
           bind (from_res (abs_to_data_idx sb n)) (\<lambda>data_idx.
           bind (set_data_bitmap_bit data_idx False) (\<lambda>_.
           bind (ignore (mofs_bcache_invalidate n)) (\<lambda>_.
           free_chain_loop sb buf (next_abs (list_hdr_of buf)))))))"
  by (rule ext) (subst free_chain_loop.simps, simp)

text \<open>The blocks of a set were released: their bits are clear, and no other bit of the data bitmap
  changed.\<close>

definition released :: "mofs_superblock \<Rightarrow> disk \<Rightarrow> disk \<Rightarrow> u32 set \<Rightarrow> bool" where
  "released sb V V' F = (\<forall>i<unat (sb_data_blk_num sb). data_used sb V' i = (data_used sb V i \<and> i \<notin> data_idx sb ` F))"

lemma released_none [simp]: "released sb V V {}"
  by (simp add: released_def)

lemma released_one:
  assumes "layout_ok sb" and "wf_disk sb V" and "data_blk sb n"
  shows "released sb V (mark_data sb (data_idx sb n) False V) {n}"
  using dm.used_mark [OF assms(1,2) abs_to_data_idx_ok(3) [OF assms(3)]] by (simp add: released_def)

lemma released_trans: "released sb V V' F \<Longrightarrow> released sb V' V'' F' \<Longrightarrow> released sb V V'' (F \<union> F')"
  by (auto simp: released_def image_Un)

lemma released_update:
  assumes "layout_ok sb" and "data_blk sb n" and "released sb V V' F"
  shows "released sb V (V'(n := d)) F"
  using assms data_used_update [OF assms(1,2)] by (simp add: released_def)

lemma runs_free_chain_loop:
  assumes "length buf = bsz E" and "chain (en_sb E) V head ns" and "distinct ns"
  shows "runs E V (free_chain_loop (en_sb E) buf head) (\<lambda>V' r c.
      eq_off (\<lambda>b. data_bitmap_own (en_sb E) b \<or> b \<in> set ns) V V' \<and>
      (\<exists>F. released (en_sb E) V V' F \<and> F \<subseteq> set ns \<and> (case r of Inl _ \<Rightarrow> \<not> c | Inr _ \<Rightarrow> F = set ns)))"
  using assms
proof (induction ns arbitrary: V head buf)
  case Nil
  then show ?case by (subst free_chain_loop_unfold) (simp add: runs_ret)
next
  case (Cons n ns)
  let ?sb = "en_sb E"
  have n: "head = n" "n \<noteq> 0" "data_blk ?sb n" and ch: "chain ?sb V (next_abs (list_hdr_of (V n))) ns" and new: "n \<notin> set ns"
    and dist: "distinct ns"
    using Cons.prems by auto
  note idx = abs_to_data_idx_ok [OF n(3)]
  have lim: "0 \<le> data_idx ?sb n \<and> data_idx ?sb n < unat (sb_data_blk_num ?sb)" using idx by simp
  show ?case
    unfolding n(1)
  proof (subst free_chain_loop_unfold, unfold if_not_P [OF n(2)] read_list_node_block,
      rule runs_wf, rule runs_bind [OF runs_read_block [OF Cons.prems(1)]], goal_cases)
    case (1 V' e c)
    then show ?case using data_blk_vol [OF n(3)] by (auto intro!: exI [of _ "{}"])
  next
    case (2 V' d)
    note lay = 2(1) and wf = 2(2)
    have d: "d = V n" "V' = V" "length d = bsz E" using 2 data_blk_vol [OF n(3)] by auto
    show ?case
      unfolding d(1,2) idx(1)
    proof (rule runs_pure_bind, rule runs_bind [OF dm.set_law [of E _ _ False]], goal_cases)
      case (1 x V' e c)
      then have "\<not> c" "V' = V \<or> V' = mark_data ?sb (data_idx ?sb n) False V" using lim idx(2) by auto
      moreover have "eq_off (data_bitmap_own ?sb) V (mark_data ?sb (data_idx ?sb n) False V)"
        by (rule dm.mark_off [OF lay]) (use lim in auto)
      ultimately show ?case
        using released_one [OF lay wf n(3)]
        by (auto elim: eq_off_mono intro: exI [of _ "{}"] exI [of _ "{n}"])
    next
      case (2 x V1 u)
      then have V1: "V1 = mark_data ?sb (data_idx ?sb n) False V" using lim idx(2) by auto
      show ?case
      proof (rule runs_bind [OF runs_ignore [OF runs_invalidate, where R = "\<lambda>V' r c. r = Inr () \<and> (\<exists>d. V' = V1(n := d))"]], goal_cases)
        case (1 V' r c)
        then show ?case using data_blk_vol [OF n(3)] by auto
      next
        case (2 V' e c)
        then show ?case by simp
      next
        case (3 V2 u)
        then obtain d' where V2: "V2 = V1(n := d')" by auto
        have V1off: "eq_off (data_bitmap_own ?sb) V V1" unfolding V1 by (rule dm.mark_off [OF lay]) (use lim in auto)
        have off: "eq_off (\<lambda>b. data_bitmap_own ?sb b \<or> b \<in> set (n # ns)) V V2"
          using V1off by (auto simp: V2 eq_off_def)
        have same: "V2 m = V m" if "m \<in> set ns" for m
          using that new off chain_data_blk [OF ch that] data_blk_regions(1) [OF lay] V1off by (auto simp: V2 eq_off_def)
        have ch2: "chain ?sb V2 (next_abs (list_hdr_of (V n))) ns" using ch chain_cong [OF same] by simp
        show ?case
        proof (rule runs_mono [OF Cons.IH [OF _ ch2 dist]], goal_cases)
          case 1
          then show ?case using d by simp
        next
          case (2 V3 r c)
          have "eq_off (\<lambda>b. data_bitmap_own ?sb b \<or> b \<in> set (n # ns)) V2 V3"
            using 2 by (auto elim!: eq_off_mono)
          then have "eq_off (\<lambda>b. data_bitmap_own ?sb b \<or> b \<in> set (n # ns)) V V3" by (rule eq_off_trans [OF off])
          moreover have "released ?sb V V2 {n}"
            unfolding V2 V1 by (rule released_update [OF lay n(3) released_one [OF lay wf n(3)]])
          moreover obtain F where "released ?sb V2 V3 F" "F \<subseteq> set ns" "case r of Inl _ \<Rightarrow> \<not> c | Inr _ \<Rightarrow> F = set ns"
            using 2 by blast
          ultimately show ?case
            using released_trans [of ?sb V V2 "{n}" V3 F] by (auto split: sum.splits intro!: exI [of _ "insert n F"])
        qed
      qed
    qed auto
  qed
qed

lemma layout_ptrs_cap:
  assumes "layout_ok sb"
  shows "unat (list_ptrs_cap sb) = (unat (sb_blk_size sb) - 8) div 4" and "0 < list_ptrs_cap sb"
    and "126 \<le> unat (list_ptrs_cap sb)"
proof -
  note b = layout_blk_size [OF assms]
  have sub: "unat (sb_blk_size sb - 8) = unat (sb_blk_size sb) - 8" using b unat_sub_le [of 8 "sb_blk_size sb"] by simp
  have "\<not> sb_blk_size sb \<le> 8" using b by (simp add: word_le_nat_alt)
  then show cap: "unat (list_ptrs_cap sb) = (unat (sb_blk_size sb) - 8) div 4"
    by (simp add: list_ptrs_cap_def mofs_list_ptrs_per_node_def unat_div sub)
  have "504 div 4 \<le> (unat (sb_blk_size sb) - 8) div 4" using b by (intro div_le_mono) simp
  then show "126 \<le> unat (list_ptrs_cap sb)" by (simp add: cap)
  then show "0 < list_ptrs_cap sb" by (auto simp: word_less_nat_alt)
qed

lemma runs_free_list_chain:
  assumes "chain (en_sb E) V head ns" and "distinct ns"
  shows "runs E V (free_list_chain head) (\<lambda>V' r c.
      eq_off (\<lambda>b. data_bitmap_own (en_sb E) b \<or> b \<in> set ns) V V' \<and>
      (\<exists>F. released (en_sb E) V V' F \<and> F \<subseteq> set ns \<and> (case r of Inl _ \<Rightarrow> \<not> c | Inr _ \<Rightarrow> F = set ns)))"
  unfolding free_list_chain_def
proof (rule runs_if, goal_cases)
  case 1
  then show ?case using chain_head_0 [OF assms(1)] by (simp add: runs_ret)
next
  case 2
  then show ?case by (intro runs_gets_sb runs_with_malloc runs_free_chain_loop assms) (auto intro!: exI [of _ "{}"])
qed

lemma export_ptrs_eq:
  "length out + length xs \<le> unat nr \<Longrightarrow> export_ptrs nr buf xs out = Inr (out @ map (list_ptr_area buf) xs)"
  by (induction xs arbitrary: out) simp_all

lemma export_loop_unfold:
  "export_loop nr cap buf n out =
     (if n = 0 then ret out
      else bind (read_list_node n buf) (\<lambda>buf.
           bind (throw_if (cap < nr_ptrs (list_hdr_of buf)) MOFS_EIO) (\<lambda>_.
           bind (from_res (export_ptrs nr buf [0..<unat (nr_ptrs (list_hdr_of buf))] out)) (\<lambda>out.
           export_loop nr cap buf (next_abs (list_hdr_of buf)) out))))"
  by (rule ext) (subst export_loop.simps, simp)

lemma runs_export_loop:
  assumes "length buf = bsz E" and "chain (en_sb E) V head ns" and "length out + length (chain_ptrs V ns) \<le> unat nr"
  shows "runs E V (export_loop nr (list_ptrs_cap (en_sb E)) buf head out) (\<lambda>V' r c. V' = V \<and>
      (case r of Inl _ \<Rightarrow> \<not> c | Inr res \<Rightarrow> res = out @ chain_ptrs V ns))"
  using assms
proof (induction ns arbitrary: head buf out)
  case Nil
  then show ?case by (subst export_loop_unfold) (simp add: runs_ret chain_ptrs_def)
next
  case (Cons n ns)
  let ?sb = "en_sb E"
  have n: "head = n" "n \<noteq> 0" "data_blk ?sb n" "nr_ptrs (list_hdr_of (V n)) \<le> list_ptrs_cap ?sb"
    and ch: "chain ?sb V (next_abs (list_hdr_of (V n))) ns"
    using Cons.prems by auto
  have ptrs: "chain_ptrs V (n # ns) = node_ptrs V n @ chain_ptrs V ns" by (simp add: chain_ptrs_def)
  have len: "length out + length (node_ptrs V n) \<le> unat nr"
    "length (out @ node_ptrs V n) + length (chain_ptrs V ns) \<le> unat nr"
    using Cons.prems(3) unfolding ptrs by simp_all
  have exp: "export_ptrs nr (V n) [0..<unat (nr_ptrs (list_hdr_of (V n)))] out = Inr (out @ node_ptrs V n)"
    unfolding node_ptrs_def by (rule export_ptrs_eq) (use len(1) in \<open>simp add: node_ptrs_def\<close>)
  show ?case
    unfolding n(1)
  proof (subst export_loop_unfold, unfold if_not_P [OF n(2)] read_list_node_block,
      rule runs_bind [OF runs_read_block [OF Cons.prems(1)]], goal_cases)
    case (1 V' e c)
    then show ?case using data_blk_vol [OF n(3)] by simp
  next
    case (2 V' d)
    have d: "d = V n" "V' = V" "length d = bsz E" using 2 data_blk_vol [OF n(3)] by auto
    show ?case
      unfolding d(1,2)
    proof (intro runs_throw_if runs_pure_bind, goal_cases)
      case (1 c)
      then show ?case using n(4) by simp
    next
      case (2 x)
      then have x: "x = out @ node_ptrs V n" using exp by simp
      show ?case
        unfolding x by (rule runs_mono [OF Cons.IH [OF _ ch len(2)]]) (use d in \<open>auto simp: ptrs split: sum.splits\<close>)
    next
      case (3 e c)
      then show ?case using exp by simp
    qed
  qed
qed

lemma runs_export:
  assumes "file_blocks (en_sb E) V i ns ds" and "i_nr_blocks i \<le> cap"
  shows "runs E V (export_data_block_list i cap) (\<lambda>V' r c. V' = V \<and> (case r of Inl _ \<Rightarrow> \<not> c | Inr res \<Rightarrow> res = ds))"
proof (rule runs_wf)
  assume lay: "layout_ok (en_sb E)"
  have fb: "chain (en_sb E) V (i_data_head i) ns" "chain_ptrs V ns = ds" "length ds = unat (i_nr_blocks i)"
    using assms(1) by (simp_all add: file_blocks_def)
  show ?thesis
    unfolding export_data_block_list_def
  proof (intro runs_gets_sb runs_if runs_throw_if runs_with_malloc, goal_cases)
    case 1
    then show ?case using fb by (intro runs_ret) simp
  next
    case (2 c)
    have "ns \<noteq> []" using 2(1) fb(2,3) by (auto simp: chain_ptrs_def unat_eq_zero)
    then show ?case using 2 chain_head_0 [OF fb(1)] assms(2) by auto
  next
    case (3 c)
    then show ?case using layout_ptrs_cap(2) [OF lay] by auto
  next
    case 4
    then show ?case by simp
  next
    case (5 buf)
    have "length [] + length (chain_ptrs V ns) \<le> unat (i_nr_blocks i)" using fb by simp
    from runs_export_loop [OF 5(4) fb(1) this] show ?case
      by (rule runs_bind) (use fb in \<open>auto intro!: runs_ret\<close>)
  qed
qed

lemma resolve_loop_unfold:
  "resolve_loop cap buf n remain =
     (if n = 0 then throw MOFS_EIO
      else bind (read_list_node n buf) (\<lambda>buf.
           bind (throw_if (cap < nr_ptrs (list_hdr_of buf)) MOFS_EIO) (\<lambda>_.
           if remain < nr_ptrs (list_hdr_of buf) then ret (list_ptr_area buf (unat remain))
           else resolve_loop cap buf (next_abs (list_hdr_of buf)) (remain - nr_ptrs (list_hdr_of buf)))))"
  by (rule ext) (subst resolve_loop.simps, simp)

lemma runs_resolve_loop:
  assumes "length buf = bsz E" and "chain (en_sb E) V head ns" and "unat remain < length (chain_ptrs V ns)"
  shows "runs E V (resolve_loop (list_ptrs_cap (en_sb E)) buf head remain) (\<lambda>V' r c. V' = V \<and>
      (case r of Inl _ \<Rightarrow> \<not> c | Inr b \<Rightarrow> b = chain_ptrs V ns ! unat remain))"
  using assms
proof (induction ns arbitrary: head buf remain)
  case Nil
  then show ?case by (simp add: chain_ptrs_def)
next
  case (Cons n ns)
  let ?sb = "en_sb E"
  have n: "head = n" "n \<noteq> 0" "data_blk ?sb n" "nr_ptrs (list_hdr_of (V n)) \<le> list_ptrs_cap ?sb"
    and ch: "chain ?sb V (next_abs (list_hdr_of (V n))) ns"
    using Cons.prems by auto
  have ptrs: "chain_ptrs V (n # ns) = node_ptrs V n @ chain_ptrs V ns" by (simp add: chain_ptrs_def)
  have len: "length (node_ptrs V n) = unat (nr_ptrs (list_hdr_of (V n)))" by (simp add: node_ptrs_def)
  show ?case
    unfolding n(1)
  proof (subst resolve_loop_unfold, unfold if_not_P [OF n(2)] read_list_node_block,
      rule runs_bind [OF runs_read_block [OF Cons.prems(1)]], goal_cases)
    case (1 V' e c)
    then show ?case using data_blk_vol [OF n(3)] by simp
  next
    case (2 V' d)
    have d: "d = V n" "V' = V" "length d = bsz E" using 2 data_blk_vol [OF n(3)] by auto
    show ?case
      unfolding d(1,2)
    proof (intro runs_throw_if runs_if, goal_cases)
      case (1 c)
      then show ?case using n(4) by simp
    next
      case 2
      then have "unat remain < unat (nr_ptrs (list_hdr_of (V n)))" by (simp add: word_less_nat_alt)
      then show ?case by (intro runs_ret) (simp add: ptrs nth_append len node_ptrs_def)
    next
      case 3
      then have le: "nr_ptrs (list_hdr_of (V n)) \<le> remain" by simp
      then have sub: "unat (remain - nr_ptrs (list_hdr_of (V n))) = unat remain - length (node_ptrs V n)"
        by (simp add: len unat_sub_le word_le_nat_alt)
      have lt: "unat (remain - nr_ptrs (list_hdr_of (V n))) < length (chain_ptrs V ns)"
        using Cons.prems(3) le unfolding ptrs sub by (simp add: len word_le_nat_alt)
      show ?case
        by (rule runs_mono [OF Cons.IH [OF _ ch lt]]) (use d le in \<open>auto simp: ptrs nth_append len sub word_le_nat_alt split: sum.splits\<close>)
    qed
  qed
qed

lemma runs_resolve:
  assumes n: "inode_num_ok (en_sb E) n" and fb: "file_blocks (en_sb E) V (inode_in (en_sb E) V n) ns ds"
  shows "runs E V (resolve_file_data_block n k) (\<lambda>V' r c. V' = V \<and>
      (if unat k < length ds then case r of Inl _ \<Rightarrow> \<not> c | Inr b \<Rightarrow> b = ds ! unat k
       else case r of Inl e \<Rightarrow> c \<longrightarrow> e = MOFS_EINVAL | Inr _ \<Rightarrow> False))"
proof -
  let ?i = "inode_in (en_sb E) V n"
  have fb': "chain (en_sb E) V (i_data_head ?i) ns" "chain_ptrs V ns = ds" "length ds = unat (i_nr_blocks ?i)"
    using fb by (simp_all add: file_blocks_def)
  show ?thesis
    unfolding resolve_file_data_block_def
  proof (intro runs_gets_sb runs_throw_if, goal_cases)
    case (1 c)
    then show ?case using n by (simp add: inode_num_ok_def)
  next
    case 2
    show ?case
    proof (rule runs_bind [OF runs_read_inode], goal_cases)
      case (1 V' e c)
      then show ?case using n by (auto split: if_splits)
    next
      case (2 V' i)
      then have V': "V' = V" "i = ?i" using n by simp_all
      show ?case
        unfolding V'
      proof (intro runs_throw_if runs_with_malloc, goal_cases)
        case (1 c)
        then show ?case using fb' by (simp add: word_le_nat_alt)
      next
        case (2 c)
        then have "ns = []" using chain_head_0 [OF fb'(1)] by simp
        then show ?case using 2 fb' by (simp add: chain_ptrs_def word_le_nat_alt)
      next
        case 3
        then show ?case using fb' n by (auto simp: word_le_nat_alt)
      next
        case (4 buf)
        then have k: "unat k < length (chain_ptrs V ns)" using fb' by (simp add: word_le_nat_alt)
        show ?case by (rule runs_mono [OF runs_resolve_loop [OF 4(3) fb'(1) k]]) (use k fb' in auto)
      qed
    qed
  qed
qed

section \<open>Building a chain\<close>

abbreviation abs_of :: "mofs_superblock \<Rightarrow> u32 \<Rightarrow> u32" where
  "abs_of sb i \<equiv> sb_data_region_start sb + i"

text \<open>A block of the data region that is free in a volume.\<close>

definition fresh :: "mofs_superblock \<Rightarrow> disk \<Rightarrow> u32 \<Rightarrow> bool" where
  "fresh sb V b = (data_blk sb b \<and> \<not> data_used sb V (data_idx sb b))"

lemma abs_of_ok:
  assumes "layout_ok sb" and "unat i < unat (sb_data_blk_num sb)"
  shows "unat (abs_of sb i) = unat (sb_data_region_start sb) + unat i" and "data_blk sb (abs_of sb i)"
    and "data_idx sb (abs_of sb i) = unat i" and "abs_of sb i \<noteq> 0"
proof -
  have "unat (sb_data_region_start sb) + unat i < 2 ^ 32" using layout_okD(6) [OF assms(1)] assms(2) by linarith
  then show un: "unat (abs_of sb i) = unat (sb_data_region_start sb) + unat i"
    by (simp add: unat_word_ariths(1))
  show blk: "data_blk sb (abs_of sb i)" and "data_idx sb (abs_of sb i) = unat i"
    using assms(2) unfolding data_blk_def data_idx_def un by simp_all
  show "abs_of sb i \<noteq> 0" by (rule data_blk_regions(4) [OF assms(1) blk])
qed

lemma runs_reserve_blocks:
  assumes "\<And>i. i \<in> set taken \<union> set idxs \<Longrightarrow> unat i < unat (sb_data_blk_num (en_sb E))"
  shows "runs E V (reserve_blocks taken idxs) (\<lambda>V' r c. case r of
      Inl _ \<Rightarrow> \<not> c \<and> eq_off (data_bitmap_own (en_sb E)) V V'
    | Inr _ \<Rightarrow> V' = dm.mark_all (en_sb E) idxs True V)"
  using assms
proof (induction idxs arbitrary: V taken)
  case Nil
  then show ?case by (simp add: runs_ret)
next
  case (Cons i idxs)
  let ?sb = "en_sb E"
  have i: "0 \<le> unat i \<and> unat i < unat (sb_data_blk_num ?sb)" using Cons.prems by simp
  have tk: "\<forall>j\<in>set taken. dm.in_range ?sb j" using Cons.prems by (simp add: dm.in_range_def)
  show ?case
    unfolding reserve_blocks.simps
  proof (rule runs_wf, rule runs_bind [OF runs_on_error [OF dm.set_off [of E _ i True, unfolded if_P [OF i]],
        where R = "\<lambda>V' r c. case r of Inl _ \<Rightarrow> \<not> c \<and> eq_off (data_bitmap_own ?sb) V V' | Inr _ \<Rightarrow> V' = mark_data ?sb (unat i) True V"]],
      goal_cases)
    case (1 V' x c)
    then show ?case by simp
  next
    case (2 V' e)
    show ?case
      by (rule runs_mono [OF dm.runs_upd]) (use 2 tk in \<open>auto intro: eq_off_trans\<close>)
  next
    case (3 V' e c)
    then show ?case by simp
  next
    case (4 V1 u)
    then have V1: "V1 = mark_data ?sb (unat i) True V" by simp
    have pre: "unat j < unat (sb_data_blk_num ?sb)" if "j \<in> set (taken @ [i]) \<union> set idxs" for j
      using that Cons.prems by auto
    have off: "eq_off (data_bitmap_own ?sb) V V1" unfolding V1 by (rule dm.mark_off [OF 4(1)]) (use i in auto)
    show ?case
      by (rule runs_mono [OF Cons.IH [OF pre]]) (use V1 off in \<open>auto intro: eq_off_trans split: sum.splits\<close>)
  qed
qed

text \<open>The image of a node holds what was put in.\<close>

lemma concat_put32:
  "length (concat (map put32 ps)) = 4 * length ps"
  by (induction ps) simp_all

lemma chunk_concat_put32: "i < length ps \<Longrightarrow> chunk (4 * i) 4 (concat (map put32 ps) @ r) = put32 (ps ! i)"
proof (induction ps arbitrary: i)
  case (Cons p ps)
  then show ?case
  proof (cases i)
    case 0
    then show ?thesis by (simp add: chunk_def)
  next
    case (Suc k)
    have "chunk (4 * Suc k) 4 (put32 p @ concat (map put32 ps) @ r) = chunk (4 * k) 4 (concat (map put32 ps) @ r)"
      by (simp add: chunk_def)
    then show ?thesis using Suc Cons by simp
  qed
qed simp

lemma list_node_image_facts:
  assumes "8 + 4 * length ps \<le> sz" and "length ps < 2 ^ 32"
  shows "length (list_node_image sz nxt ps) = sz" and "next_abs (list_hdr_of (list_node_image sz nxt ps)) = nxt"
    and "unat (nr_ptrs (list_hdr_of (list_node_image sz nxt ps))) = length ps"
    and "map (list_ptr_area (list_node_image sz nxt ps)) [0..<length ps] = ps"
proof -
  let ?h = "\<lparr>next_abs = nxt, nr_ptrs = word_of_nat (length ps)\<rparr>"
  let ?img = "list_node_image sz nxt ps"
  have img: "?img = list_hdr_bytes ?h @ concat (map put32 ps) @ drop (8 + 4 * length ps) (replicate sz 0)"
    by (simp add: list_node_image_def overwrite_def concat_put32)
  show "length ?img = sz" using assms(1) by (simp add: img concat_put32)
  show "next_abs (list_hdr_of ?img) = nxt" "unat (nr_ptrs (list_hdr_of ?img)) = length ps"
    using assms(2) by (simp_all add: img unat_word_of_nat)
  show "map (list_ptr_area ?img) [0..<length ps] = ps"
  proof (rule nth_equalityI)
    fix i assume "i < length (map (list_ptr_area ?img) [0..<length ps])"
    then have i: "i < length ps" by simp
    have "chunk (8 + 4 * i) 4 ?img = put32 (ps ! i)"
      using chunk_concat_put32 [OF i, of "drop (8 + 4 * length ps) (replicate sz 0)"] by (simp add: img chunk_def)
    then have "list_ptr_area ?img i = ps ! i" unfolding list_ptr_area_def by (rule get_chunk_put(2))
    then show "map (list_ptr_area ?img) [0..<length ps] ! i = ps ! i" using i by simp
  qed simp
qed

lemma unat_min: "unat (min a b) = min (unat a) (unat (b :: u32))"
  by (simp add: min_def word_le_nat_alt)

definition node_head :: "mofs_superblock \<Rightarrow> u32 list \<Rightarrow> u32" where
  "node_head sb idxs = (case idxs of [] \<Rightarrow> 0 | i # _ \<Rightarrow> abs_of sb i)"

text \<open>Writing the nodes for the pointers from position \<open>abs_idx\<close> on: the number of nodes is the one
  that the pointers left need.\<close>

lemma runs_write_nodes:
  fixes E :: env and abs_list :: "u32 list"
  defines "own \<equiv> \<lambda>idxs b. b \<in> abs_of (en_sb E) ` set idxs"
  assumes "layout_ok (en_sb E)" and "length abs_list = unat nr" and "unat k \<le> unat nr"
    and "unat nr - unat k \<le> unat (list_ptrs_cap (en_sb E)) * length idxs"
    and "idxs \<noteq> [] \<Longrightarrow> unat (list_ptrs_cap (en_sb E)) * (length idxs - 1) < unat nr - unat k"
    and "\<And>i. i \<in> set taken \<union> set idxs \<Longrightarrow> unat i < unat (sb_data_blk_num (en_sb E))" and "distinct idxs"
  shows "runs E V (write_nodes (en_sb E) taken abs_list nr idxs k) (\<lambda>V' r c. case r of
      Inl _ \<Rightarrow> \<not> c \<and> eq_off (\<lambda>b. data_bitmap_own (en_sb E) b \<or> own idxs b) V V'
    | Inr _ \<Rightarrow> eq_off (own idxs) V V' \<and> chain (en_sb E) V' (node_head (en_sb E) idxs) (map (abs_of (en_sb E)) idxs) \<and>
        chain_ptrs V' (map (abs_of (en_sb E)) idxs) = drop (unat k) abs_list)"
  using assms(4-)
proof (induction idxs arbitrary: V k)
  case Nil
  have "unat nr - unat k \<le> 0" using Nil(2) by simp
  then have "drop (unat k) abs_list = []" using assms(3) by simp
  then show ?case by (simp add: runs_ret chain_ptrs_def node_head_def)
next
  case (Cons i idxs)
  let ?sb = "en_sb E"
  let ?cap = "unat (list_ptrs_cap ?sb)"
  let ?m = "min (nr - k) (list_ptrs_cap ?sb)"
  let ?b = "abs_of ?sb i"
  let ?own = "own (i # idxs)"
  let ?ps = "chunk (unat k) (unat ?m) abs_list"
  let ?nxt = "node_head ?sb idxs"
  let ?img = "list_node_image (bsz E) ?nxt ?ps"
  note lay = assms(2)
  have i: "unat i < unat (sb_data_blk_num ?sb)" using Cons.prems(4) [of i] by simp
  note b = abs_of_ok [OF lay i]
  have sub: "unat (nr - k) = unat nr - unat k" using Cons.prems(1) by (rule unat_sub_le)
  have m: "unat ?m = min (unat nr - unat k) ?cap" by (simp add: unat_min sub)
  have fit: "unat k + unat ?m \<le> length abs_list" using Cons.prems(1) assms(3) m by linarith
  have lps: "length ?ps = unat ?m" using fit by simp
  have "?cap * 4 \<le> bsz E - 8" using layout_ptrs_cap(1) [OF lay] by simp
  then have capB: "8 + 4 * ?cap \<le> bsz E" using layout_blk_size(1) [OF lay] by linarith
  have img8: "8 + 4 * length ?ps \<le> bsz E" using capB m unfolding lps by linarith
  have ps32: "length ?ps < 2 ^ 32" unfolding lps by (rule unat_u32_less)
  note img = list_node_image_facts [OF img8 ps32]
  have m_cap: "nr_ptrs (list_hdr_of ?img) \<le> list_ptrs_cap ?sb"
    using m unfolding word_le_nat_alt img(3) lps by simp
  have step: "unat (k + ?m) = unat k + unat ?m"
  proof -
    have "unat k + unat ?m < 2 ^ 32" using fit assms(3) unat_u32_less [of nr] by linarith
    then show ?thesis by (simp add: unat_word_ariths(1))
  qed
  have lens: "unat nr - unat (k + ?m) \<le> ?cap * length idxs"
    "idxs \<noteq> [] \<Longrightarrow> ?cap * (length idxs - 1) < unat nr - unat (k + ?m)"
  proof -
    have tot: "unat nr - unat k \<le> ?cap + ?cap * length idxs" "?cap * length idxs < unat nr - unat k"
      using Cons.prems(2,3) by simp_all
    then show "unat nr - unat (k + ?m) \<le> ?cap * length idxs" unfolding step m by linarith
    assume "idxs \<noteq> []"
    then obtain l where l: "length idxs = Suc l" by (cases idxs) auto
    then have "?cap < unat nr - unat k" using tot(2) by simp
    then have "unat ?m = ?cap" unfolding m by simp
    then show "?cap * (length idxs - 1) < unat nr - unat (k + ?m)"
      using tot(2) unfolding step l by simp
  qed
  have nxt: "(case idxs of [] \<Rightarrow> 0 | idx' # _ \<Rightarrow> sb_data_region_start ?sb + idx') = ?nxt" by (simp add: node_head_def)
  have len: "length ?img = bsz E" by (rule img(1))
  have ownb: "?own ?b" by (simp add: own_def)
  have tk: "\<forall>j\<in>set taken. dm.in_range ?sb j" using Cons.prems(4) by (simp add: dm.in_range_def)
  have notin: "?b \<notin> abs_of ?sb ` set idxs" using Cons.prems(5) by auto
  have wr: "runs E V (on_error (write_list_node ?b ?img) (update_data_bitmap_bits taken False))
    (\<lambda>V' r c. case r of Inl _ \<Rightarrow> \<not> c \<and> eq_off (\<lambda>b. data_bitmap_own ?sb b \<or> ?own b) V V' | Inr _ \<Rightarrow> V' = V(?b := ?img))"
    unfolding write_list_node_block
  proof (rule runs_on_error [OF runs_write_block [OF len data_blk_vol [OF b(2)]]], goal_cases)
    case (1 V' x c)
    then show ?case by simp
  next
    case (2 V' e)
    then have off: "eq_off (\<lambda>b. data_bitmap_own ?sb b \<or> ?own b) V V'" using ownb by (auto simp: eq_off_def)
    show ?case
      by (rule runs_mono [OF dm.runs_upd]) (use tk off in \<open>auto simp: eq_off_def\<close>)
  qed
  show ?case
    unfolding write_nodes.simps Let_def nxt
  proof (rule runs_if, goal_cases)
    case 1
    then show ?case using fit by simp
  next
    case 2
    show ?case
    proof (rule runs_bind [OF wr], goal_cases)
      case (1 V' e c)
      then show ?case by simp
    next
      case (2 V1 u)
      then have V1: "V1 = V(?b := ?img)" by simp
      have kn: "unat (k + ?m) \<le> unat nr" using fit unfolding step assms(3) .
      show ?case
      proof (rule runs_mono [OF Cons.IH [OF kn lens]], goal_cases)
        case (4 V2 r c)
        show ?case
        proof (intro impI, cases r)
          case (Inl e)
          then show "case r of Inl _ \<Rightarrow> \<not> c \<and> eq_off (\<lambda>b. data_bitmap_own ?sb b \<or> ?own b) V V2
              | Inr _ \<Rightarrow> eq_off ?own V V2 \<and> chain ?sb V2 (node_head ?sb (i # idxs)) (map (abs_of ?sb) (i # idxs)) \<and>
                 chain_ptrs V2 (map (abs_of ?sb) (i # idxs)) = drop (unat k) abs_list"
            using 4 V1 by (auto simp: eq_off_def own_def)
        next
          case (Inr u)
          have off: "eq_off (own idxs) V1 V2" and ch: "chain ?sb V2 ?nxt (map (abs_of ?sb) idxs)"
            and ptr: "chain_ptrs V2 (map (abs_of ?sb) idxs) = drop (unat (k + ?m)) abs_list" using 4 Inr by auto
          have V2b: "V2 ?b = ?img" using off notin by (simp add: eq_off_def own_def V1)
          have "node_ptrs V2 ?b = ?ps" unfolding node_ptrs_def V2b img(3) by (rule img(4))
          moreover have "?ps @ drop (unat (k + ?m)) abs_list = drop (unat k) abs_list"
            using append_take_drop_id [of "unat ?m" "drop (unat k) abs_list"] unfolding step chunk_def by (simp add: add.commute)
          ultimately have "chain_ptrs V2 (map (abs_of ?sb) (i # idxs)) = drop (unat k) abs_list"
            using ptr by (simp add: chain_ptrs_def)
          moreover have "chain ?sb V2 (node_head ?sb (i # idxs)) (map (abs_of ?sb) (i # idxs))"
            using b ch m_cap by (simp add: V2b img(2) node_head_def)
          moreover have "eq_off ?own V V2" using off by (auto simp: eq_off_def own_def V1)
          ultimately show "case r of Inl _ \<Rightarrow> \<not> c \<and> eq_off (\<lambda>b. data_bitmap_own ?sb b \<or> ?own b) V V2
              | Inr _ \<Rightarrow> eq_off ?own V V2 \<and> chain ?sb V2 (node_head ?sb (i # idxs)) (map (abs_of ?sb) (i # idxs)) \<and>
                 chain_ptrs V2 (map (abs_of ?sb) (i # idxs)) = drop (unat k) abs_list"
            using Inr by simp
        qed
      qed (use Cons.prems in auto)
    qed
  qed
qed

end
