(* ===== verification/Mofs_Alloc.thy ===== *)
theory Mofs_Alloc
  imports Mofs_Chain
begin

text \<open>
  Contracts of the routines that change the block list of a file: a new chain is built in free
  blocks, the inode is switched to it, and the superseded chain is released. When nothing fails
  the data bitmap changes by exactly the blocks that the file gains and loses, and a refusal for
  lack of space leaves it as it was.
\<close>

section \<open>Number of nodes\<close>

lemma ceil_div:
  fixes n c :: nat
  assumes "0 < n" and "0 < c"
  shows "n \<le> c * ((n + c - 1) div c)" and "c * ((n + c - 1) div c - 1) < n" and "0 < (n + c - 1) div c"
proof -
  obtain q r where qr: "n + c - 1 = q * c + r" "r < c" "q = (n + c - 1) div c"
    using assms(2) by (metis div_mult_mod_eq mod_less_divisor)
  show "0 < (n + c - 1) div c" using assms by (intro div_greater_zero_iff [THEN iffD2]) simp
  show "n \<le> c * ((n + c - 1) div c)" using qr assms by (simp flip: qr(3) add: mult.commute)
  have "c * (q - 1) = q * c - c" by (simp add: diff_mult_distrib2 mult.commute)
  then show "c * ((n + c - 1) div c - 1) < n" using qr assms by (simp flip: qr(3))
qed

lemma nodes_needed:
  assumes "layout_ok sb" and "0 < nr" and "unat nr \<le> 1024"
  shows "unat (list_nodes_for_block_count sb nr) = (unat nr + unat (list_ptrs_cap sb) - 1) div unat (list_ptrs_cap sb)"
proof -
  have cap: "0 < list_ptrs_cap sb" "unat (list_ptrs_cap sb) \<le> 65536"
    using layout_ptrs_cap(1,2) [OF assms(1)] layout_blk_size(2) [OF assms(1)] by simp_all
  have sum: "unat (nr + list_ptrs_cap sb) = unat nr + unat (list_ptrs_cap sb)"
    using cap(2) assms(3) by (simp add: unat_word_ariths(1))
  have "unat (nr + list_ptrs_cap sb - 1) = unat nr + unat (list_ptrs_cap sb) - 1"
    using unat_sub_le [of 1 "nr + list_ptrs_cap sb"] cap(1) sum by (simp add: word_less_nat_alt)
  then show ?thesis
    using assms(2) cap(1) by (auto simp: list_nodes_for_block_count_def Let_def unat_div)
qed

section \<open>A new chain\<close>

text \<open>A chain for the blocks \<open>ds\<close> was added in blocks that were free.\<close>

definition added_chain :: "mofs_superblock \<Rightarrow> disk \<Rightarrow> disk \<Rightarrow> mofs_inode \<Rightarrow> u32 list \<Rightarrow> u32 list \<Rightarrow> bool" where
  "added_chain sb V V' i ns ds = (file_blocks sb V' i ns ds \<and> (\<forall>n\<in>set ns. fresh sb V n) \<and>
     eq_off (\<lambda>b. data_bitmap_own sb b \<or> b \<in> set ns) V V' \<and>
     (\<forall>k<unat (sb_data_blk_num sb). data_used sb V' k = (data_used sb V k \<or> k \<in> data_idx sb ` set ns)))"

lemma fresh_blocks:
  fixes need :: u32
  assumes lay: "layout_ok sb"
    and "unat need \<le> length (filter (\<lambda>i. \<not> data_used sb V i) [0..<unat (sb_data_blk_num sb)])"
    and "idxs = map word_of_nat (take (unat need) (filter (\<lambda>i. \<not> data_used sb V i) [0..<unat (sb_data_blk_num sb)]))"
  shows "length idxs = unat need" and "distinct (map (abs_of sb) idxs)" and "\<And>i. i \<in> set idxs \<Longrightarrow> unat i < unat (sb_data_blk_num sb)"
    and "\<And>n. n \<in> set (map (abs_of sb) idxs) \<Longrightarrow> fresh sb V n" and "data_idx sb ` set (map (abs_of sb) idxs) = unat ` set idxs"
    and "distinct idxs"
proof -
  note f = dm.found_facts [OF assms(2,3)]
  show lim: "unat i < unat (sb_data_blk_num sb)" if "i \<in> set idxs" for i
    using f(4) [OF that] by (simp add: dm.in_range_def)
  show "length idxs = unat need" "distinct idxs" by (rule f)+
  have "inj_on (abs_of sb) (set idxs)" by (auto simp: inj_on_def)
  then show "distinct (map (abs_of sb) idxs)" using f(3) by (simp add: distinct_map)
  show "fresh sb V n" if n: "n \<in> set (map (abs_of sb) idxs)" for n
  proof -
    obtain i where i: "i \<in> set idxs" "n = abs_of sb i" using n by auto
    show ?thesis
      using f(4) [OF i(1)] abs_of_ok(2,3) [OF lay lim [OF i(1)]] by (simp add: fresh_def i(2))
  qed
  show "data_idx sb ` set (map (abs_of sb) idxs) = unat ` set idxs"
    unfolding set_map image_image by (rule image_cong [OF refl]) (rule abs_of_ok(3) [OF lay lim])
qed

text \<open>Marking the blocks found.\<close>

lemma data_used_mark_all:
  assumes "layout_ok sb" and "wf_disk sb V" and "\<And>i. i \<in> set idxs \<Longrightarrow> unat i < unat (sb_data_blk_num sb)"
    and "k < unat (sb_data_blk_num sb)"
  shows "data_used sb (dm.mark_all sb idxs u V) k = (if k \<in> unat ` set idxs then u else data_used sb V k)"
  by (rule dm.used_mark_all) (use assms in \<open>auto simp: dm.in_range_def\<close>)

lemma data_mark_all_off:
  assumes "layout_ok sb" and "\<And>i. i \<in> set idxs \<Longrightarrow> unat i < unat (sb_data_blk_num sb)"
  shows "eq_off (data_bitmap_own sb) V (dm.mark_all sb idxs u V)"
  by (rule dm.mark_all_off) (use assms in \<open>auto simp: dm.in_range_def\<close>)

lemma data_used_off:
  assumes "layout_ok sb" and "eq_off S V V'" and "\<And>b. S b \<Longrightarrow> \<not> data_bitmap_own sb b" and "k < unat (sb_data_blk_num sb)"
  shows "data_used sb V' k = data_used sb V k"
  by (rule dm.used_cong) (use assms in \<open>auto simp: eq_off_def\<close>)

lemma nodes_added:
  fixes need :: u32
  assumes lay: "layout_ok sb" and wf: "wf_disk sb V"
    and fnd: "unat need \<le> length (filter (\<lambda>i. \<not> data_used sb V i) [0..<unat (sb_data_blk_num sb)])"
      "idxs = map word_of_nat (take (unat need) (filter (\<lambda>i. \<not> data_used sb V i) [0..<unat (sb_data_blk_num sb)]))"
    and off: "eq_off (\<lambda>b. b \<in> set (map (abs_of sb) idxs)) (dm.mark_all sb idxs True V) V'"
    and ch: "chain sb V' (i_data_head i) (map (abs_of sb) idxs)" "chain_ptrs V' (map (abs_of sb) idxs) = ds"
      "length ds = unat (i_nr_blocks i)"
  shows "added_chain sb V V' i (map (abs_of sb) idxs) ds"
proof -
  let ?ns = "map (abs_of sb) idxs"
  let ?V2 = "dm.mark_all sb idxs True V"
  note fr = fresh_blocks [OF lay fnd]
  have "eq_off (data_bitmap_own sb) V ?V2" by (rule data_mark_all_off [OF lay fr(3)])
  then have "eq_off (\<lambda>b. data_bitmap_own sb b \<or> b \<in> set ?ns) V V'" using off by (auto simp: eq_off_def)
  moreover have "data_used sb V' k = (data_used sb V k \<or> k \<in> data_idx sb ` set ?ns)"
    if k: "k < unat (sb_data_blk_num sb)" for k
  proof -
    have "data_used sb V' k = data_used sb ?V2 k"
      by (rule data_used_off [OF lay off _ k]) (use fr(4) data_blk_regions(1) [OF lay] in \<open>auto simp: fresh_def\<close>)
    then show ?thesis using data_used_mark_all [OF lay wf fr(3) k, of idxs True] unfolding fr(5) by simp
  qed
  ultimately show ?thesis using ch fr(2,4) by (simp add: added_chain_def file_blocks_def)
qed

lemma runs_rebuild:
  fixes E :: env
  defines "sb \<equiv> en_sb E"
  assumes len: "length ds = unat nr" and max: "unat nr \<le> 1024"
  shows "runs E V (rebuild_data_block_list i ds nr) (\<lambda>V' r c.
    eq_off (\<lambda>b. data_bitmap_own sb b \<or> fresh sb V b) V V' \<and>
    (case r of Inl e \<Rightarrow> c \<longrightarrow> e = MOFS_ENOSPC \<and> V' = V
     | Inr (i', old) \<Rightarrow> old = i_data_head i \<and>
         (\<exists>h ns. i' = i\<lparr>i_data_head := h, i_nr_blocks := nr\<rparr> \<and> added_chain sb V V' i' ns ds)))"
  (is "runs E V _ ?P")
proof (rule runs_wf)
  assume "layout_ok (en_sb E)" and "wf_disk (en_sb E) V"
  then have lay: "layout_ok sb" and wf: "wf_disk sb V" by (simp_all add: sb_def)
  let ?need = "list_nodes_for_block_count sb nr"
  let ?cap = "unat (list_ptrs_cap sb)"
  show ?thesis
    unfolding rebuild_data_block_list_def
  proof (intro runs_gets_sb, fold sb_def, unfold Let_def, intro runs_if runs_throw_if runs_with_malloc, goal_cases)
    case 1
    then have "ds = []" using len by simp
    then show ?case
      using 1 by (intro runs_ret) (auto simp: added_chain_def file_blocks_def chain_ptrs_def intro!: exI [of _ "0 :: u32"] exI [of _ "[]"])
  next
    case (2 c)
    then have nr: "0 < nr" "0 < unat nr" by (simp_all add: word_neq_0_conv unat_gt_0)
    have "0 < unat ?need"
      unfolding nodes_needed [OF lay nr(1) max] by (rule ceil_div(3) [OF nr(2)]) (use layout_ptrs_cap(3) [OF lay] in simp)
    then show ?case using 2 by simp
  next
    case 3
    then show ?case by simp
  next
    case (4 buf)
    then have nr: "0 < nr" by (simp add: word_neq_0_conv)
    have capp: "0 < ?cap" using layout_ptrs_cap(3) [OF lay] by simp
    note nn = nodes_needed [OF lay nr max]
    have "0 < unat nr" using nr by (simp add: word_less_nat_alt)
    note cd = ceil_div [OF this capp, folded nn]
    show ?case
    proof (rule runs_bind [OF dm.find_law], unfold Let_def, goal_cases)
      case (1 V' e c)
      then show ?case by (simp add: sb_def)
    next
      case (2 V1 idxs)
      then have V1: "V1 = V" and fnd: "unat ?need \<le> length (filter (\<lambda>i. \<not> data_used sb V i) [0..<unat (sb_data_blk_num sb)])"
        "idxs = map word_of_nat (take (unat ?need) (filter (\<lambda>i. \<not> data_used sb V i) [0..<unat (sb_data_blk_num sb)]))"
        by (simp_all add: sb_def)
      note fr = fresh_blocks [OF lay fnd]
      let ?V2 = "dm.mark_all sb idxs True V"
      have off2: "eq_off (data_bitmap_own sb) V ?V2" by (rule data_mark_all_off [OF lay fr(3)])
      show ?case
        unfolding V1
      proof (rule runs_bind [OF runs_reserve_blocks], fold sb_def, goal_cases)
        case (1 i)
        then show ?case using fr(3) by simp
      next
        case (2 V' e c)
        then show ?case by (auto elim: eq_off_mono)
      next
        case (3 V2 u)
        then have V2: "V2 = ?V2" by simp
        show ?case
          unfolding V2
        proof (rule runs_with_malloc_opt, goal_cases)
          case 1
          show ?case
            unfolding option.case
            by (rule runs_bind [OF dm.runs_upd])
              (use off2 fr(3) in \<open>auto simp: dm.in_range_def sb_def intro!: runs_throw intro: eq_off_mono eq_off_trans\<close>)
        next
          case (2 blk)
          have ne: "idxs \<noteq> []" using fr(1) cd(3) by auto
          show ?case
            unfolding option.case
          proof (rule runs_bind [OF runs_write_nodes [OF \<open>layout_ok (en_sb E)\<close> len, folded sb_def]], goal_cases)
            case (6 V3 e c)
            have "eq_off (\<lambda>b. data_bitmap_own sb b \<or> fresh sb V b) ?V2 V3"
              using 6 fr(4) by (auto elim!: eq_off_mono)
            moreover have "eq_off (\<lambda>b. data_bitmap_own sb b \<or> fresh sb V b) V ?V2" using off2 by (auto elim!: eq_off_mono)
            ultimately show ?case using 6 by (auto intro: eq_off_trans)
          next
            case (7 V3 u)
            let ?i = "i\<lparr>i_data_head := abs_of sb (hd idxs), i_nr_blocks := nr\<rparr>"
            have "node_head sb idxs = abs_of sb (hd idxs)" using ne by (cases idxs) (simp_all add: node_head_def)
            then have ac: "added_chain sb V V3 ?i (map (abs_of sb) idxs) ds"
              using 7 len by (intro nodes_added [OF lay wf fnd]) simp_all
            then have "eq_off (\<lambda>b. data_bitmap_own sb b \<or> fresh sb V b) V V3"
              by (auto simp: added_chain_def elim: eq_off_mono)
            then show ?case using ac by (intro runs_ret) auto
          qed (use cd fr in simp_all)
        qed
      qed
    qed
  qed
qed

section \<open>Switching a file to a new list\<close>

text \<open>Inode \<open>n\<close> was changed to \<open>i\<close>, which maps the blocks \<open>ds\<close> with the new nodes \<open>ns\<close> instead
  of the nodes \<open>olds\<close>; no other inode changed. \<open>F\<close> are the nodes of the old list that have
  been released: all of them, unless the device failed.\<close>

definition relinked ::
  "mofs_superblock \<Rightarrow> disk \<Rightarrow> disk \<Rightarrow> int \<Rightarrow> mofs_inode \<Rightarrow> u32 set \<Rightarrow> u32 list \<Rightarrow> u32 list \<Rightarrow> u32 list \<Rightarrow> bool" where
  "relinked sb V V' n i F olds ns ds = (F \<subseteq> set olds \<and> inode_in sb V' n = i \<and> file_blocks sb V' i ns ds \<and>
     (\<forall>m. inode_num_ok sb m \<longrightarrow> m \<noteq> n \<longrightarrow> inode_in sb V' m = inode_in sb V m) \<and> (\<forall>x\<in>set ns. fresh sb V x) \<and>
     eq_off (\<lambda>b. data_bitmap_own sb b \<or> inode_table_own sb b \<or> b \<in> set ns \<or> b \<in> set olds) V V' \<and>
     (\<forall>k<unat (sb_data_blk_num sb). data_used sb V' k =
        ((data_used sb V k \<or> k \<in> data_idx sb ` set ns) \<and> k \<notin> data_idx sb ` F)))"

text \<open>Nodes in use: the chain of a file, its blocks marked in the bitmap.\<close>

definition used_chain :: "mofs_superblock \<Rightarrow> disk \<Rightarrow> u32 \<Rightarrow> u32 list \<Rightarrow> bool" where
  "used_chain sb V h ns = (chain sb V h ns \<and> distinct ns \<and> (\<forall>n\<in>set ns. data_used sb V (data_idx sb n)))"

lemma table_not_bitmap:
  assumes "layout_ok sb" and "inode_table_own sb b"
  shows "\<not> data_bitmap_own sb b" "\<not> inode_bitmap_own sb b" "\<not> data_blk sb b"
  using layout_okD(2-5) [OF assms(1)] assms(2)
  by (auto simp: in_blocks_def data_blk_def word_le_nat_alt word_less_nat_alt)

lemma inode_in_off:
  assumes "layout_ok sb" and "inode_num_ok sb m" and "eq_off S V V'" and "\<And>b. S b \<Longrightarrow> \<not> inode_table_own sb b"
  shows "inode_in sb V' m = inode_in sb V m"
  by (rule it.get_cong [OF assms(1,2)]) (use assms(3,4) in \<open>auto simp: eq_off_def\<close>)

lemma chain_off:
  assumes "eq_off S V V'" and "\<And>b. b \<in> set ns \<Longrightarrow> \<not> S b"
  shows "chain sb V' h ns = chain sb V h ns" and "chain_ptrs V' ns = chain_ptrs V ns"
  using assms by (auto simp: eq_off_def intro!: chain_cong chain_ptrs_cong)

lemma file_blocks_off:
  "eq_off S V V' \<Longrightarrow> (\<And>b. b \<in> set ns \<Longrightarrow> \<not> S b) \<Longrightarrow> file_blocks sb V' i ns ds = file_blocks sb V i ns ds"
  using chain_off [of S V V' ns] by (simp add: file_blocks_def)

text \<open>The new chain, the inode and the released chain are different blocks.\<close>

lemma relinkedI:
  assumes lay: "layout_ok sb" and wf: "wf_disk sb V1" and n: "inode_num_ok sb n"
    and olds: "used_chain sb V h olds" and new: "added_chain sb V V1 i ns ds"
    and off: "eq_off (\<lambda>b. data_bitmap_own sb b \<or> b \<in> set olds) (put_inode sb n i V1) V'"
    and used: "released sb (put_inode sb n i V1) V' F" and F: "F \<subseteq> set olds"
  shows "relinked sb V V' n i F olds ns ds"
proof -
  let ?V2 = "put_inode sb n i V1"
  have new': "file_blocks sb V1 i ns ds" "\<And>x. x \<in> set ns \<Longrightarrow> fresh sb V x"
    "eq_off (\<lambda>b. data_bitmap_own sb b \<or> b \<in> set ns) V V1"
    "\<And>k. k < unat (sb_data_blk_num sb) \<Longrightarrow> data_used sb V1 k = (data_used sb V k \<or> k \<in> data_idx sb ` set ns)"
    using new by (auto simp: added_chain_def)
  have ns_blk: "data_blk sb x" if "x \<in> set ns" for x using new'(2) [OF that] by (simp add: fresh_def)
  have olds': "data_blk sb x" "\<not> fresh sb V x" if "x \<in> set olds" for x
    using olds that chain_data_blk by (auto simp: used_chain_def fresh_def)
  have put: "eq_off (inode_table_own sb) V1 ?V2" by (rule it.put_off [OF lay n])
  have tab: "\<not> inode_table_own sb b" if "data_bitmap_own sb b \<or> b \<in> set olds \<or> b \<in> set ns" for b
    using that olds'(1) [of b] ns_blk [of b] table_not_bitmap [OF lay, of b] by auto
  have ino: "inode_in sb V' m = inode_in sb ?V2 m" if "inode_num_ok sb m" for m
    by (rule inode_in_off [OF lay that off]) (use tab in auto)
  have ino1: "inode_in sb V1 m = inode_in sb V m" if "inode_num_ok sb m" for m
    by (rule inode_in_off [OF lay that new'(3)]) (use tab in auto)
  have "inode_in sb V' n = i" using ino [OF n] it.get_put [OF lay n n wf] by simp
  moreover have "inode_in sb V' m = inode_in sb V m" if "inode_num_ok sb m" "m \<noteq> n" for m
    using ino [OF that(1)] ino1 [OF that(1)] it.get_put [OF lay n that(1) wf] that(2) by simp
  moreover have "file_blocks sb V' i ns ds"
  proof -
    have "file_blocks sb ?V2 i ns ds" using new'(1) file_blocks_off [OF put] tab by auto
    moreover have "\<not> (data_bitmap_own sb b \<or> b \<in> set olds)" if "b \<in> set ns" for b
      using that new'(2) olds'(2) data_blk_regions(1) [OF lay ns_blk [OF that]] by auto
    ultimately show ?thesis using file_blocks_off [OF off] by auto
  qed
  moreover have "eq_off (\<lambda>b. data_bitmap_own sb b \<or> inode_table_own sb b \<or> b \<in> set ns \<or> b \<in> set olds) V V'"
    using new'(3) put off by (simp add: eq_off_def)
  moreover have "data_used sb V' k = ((data_used sb V k \<or> k \<in> data_idx sb ` set ns) \<and> k \<notin> data_idx sb ` F)"
    if k: "k < unat (sb_data_blk_num sb)" for k
    using used k new'(4) [OF k] data_used_off [OF lay put table_not_bitmap(1) [OF lay] k] by (simp add: released_def)
  ultimately show ?thesis using new'(2) F by (simp add: relinked_def)
qed

lemma runs_replace_list:
  fixes E :: env
  defines "sb \<equiv> en_sb E"
  assumes n: "inode_num_ok sb n" and len: "length ds = unat nr" and max: "unat nr \<le> 1024"
    and olds: "used_chain sb V (i_data_head i) olds"
  shows "runs E V (replace_list n i ds nr) (\<lambda>V' r c.
    eq_off (\<lambda>b. data_bitmap_own sb b \<or> inode_table_own sb b \<or> fresh sb V b \<or> b \<in> set olds) V V' \<and>
    (case r of Inl e \<Rightarrow> c \<longrightarrow> e = MOFS_ENOSPC \<and> V' = V
     | Inr _ \<Rightarrow> \<exists>h ns F. (c \<longrightarrow> F = set olds) \<and> relinked sb V V' n (i\<lparr>i_data_head := h, i_nr_blocks := nr\<rparr>) F olds ns ds))"
    (is "runs E V _ (\<lambda>V' r c. eq_off ?S V V' \<and> ?R V' r c)")
  unfolding replace_list_def
proof (rule runs_wf, rule runs_bind [OF runs_keeps_wf [OF runs_rebuild [OF len max]]], fold sb_def, goal_cases)
  case (1 V' e c)
  then show ?case by (auto elim: eq_off_mono)
next
  case (2 V1 p)
  note lay = 2(1)
  obtain i' h ns where p: "p = (i', i_data_head i)" and i': "i' = i\<lparr>i_data_head := h, i_nr_blocks := nr\<rparr>"
    and new: "added_chain sb V V1 i' ns ds" and off1: "eq_off (\<lambda>b. data_bitmap_own sb b \<or> fresh sb V b) V V1" and wf1: "wf_disk sb V1"
    using 2(3) by (auto split: prod.splits)
  have fb: "chain sb V1 (i_data_head i') ns" "distinct ns" and frs: "\<And>x. x \<in> set ns \<Longrightarrow> fresh sb V x"
    using new by (auto simp: added_chain_def file_blocks_def)
  have off1': "eq_off ?S V V1" using off1 by (rule eq_off_mono) blast
  let ?V2 = "put_inode sb n i' V1"
  have put: "eq_off (inode_table_own sb) V1 ?V2" by (rule it.put_off [OF lay n])
  have wri: "runs E V1 (on_error (mofs_write_inode n i') (free_list_chain (i_data_head i')))
    (\<lambda>V' r c. case r of Inl _ \<Rightarrow> \<not> c \<and> eq_off ?S V1 V' | Inr _ \<Rightarrow> V' = ?V2)"
  proof (rule runs_on_error [OF runs_write_inode], fold sb_def, unfold if_P [OF n], goal_cases)
    case (1 V' x c)
    then show ?case by simp
  next
    case (2 V' e)
    then have off: "eq_off (inode_table_own sb) V1 V'" by simp
    have tab: "\<not> inode_table_own sb x" if "x \<in> set ns" for x
      using frs [OF that] table_not_bitmap [OF lay, of x] by (auto simp: fresh_def)
    have ch: "chain (en_sb E) V' (i_data_head i') ns" using fb(1) chain_off(1) [OF off tab] by (simp add: sb_def)
    show ?case
    proof (rule runs_mono [OF runs_free_list_chain [OF ch fb(2)]], fold sb_def, goal_cases)
      case (1 V'' r c)
      then have "eq_off ?S V' V''" using frs by (auto elim!: eq_off_mono)
      moreover have "eq_off ?S V1 V'" using off by (rule eq_off_mono) blast
      ultimately show ?case by (auto intro: eq_off_trans)
    qed
  qed
  have olds2: "chain sb ?V2 (i_data_head i) olds" "distinct olds"
  proof -
    have o: "chain sb V (i_data_head i) olds" "\<And>x. x \<in> set olds \<Longrightarrow> data_used sb V (data_idx sb x)"
      using olds by (auto simp: used_chain_def)
    have "\<not> (data_bitmap_own sb x \<or> fresh sb V x)" "\<not> inode_table_own sb x" if "x \<in> set olds" for x
      using o(2) [OF that] data_blk_regions [OF lay chain_data_blk [OF o(1) that]] by (auto simp: fresh_def)
    then show "chain sb ?V2 (i_data_head i) olds" using o(1) chain_off(1) [OF off1] chain_off(1) [OF put] by simp
    show "distinct olds" using olds by (simp add: used_chain_def)
  qed
  show ?case
    unfolding p prod.case
  proof (rule runs_bind [OF wri], goal_cases)
    case (1 V' e c)
    then show ?case using off1' by (auto intro: eq_off_trans)
  next
    case (2 V2 u)
    then have V2: "V2 = ?V2" by simp
    have off2: "eq_off ?S V ?V2" using put by (intro eq_off_trans [OF off1']) (auto elim: eq_off_mono)
    show ?case
      unfolding V2
    proof (rule runs_if, goal_cases)
      case 1
      show ?case
      proof (rule runs_ignore [OF runs_free_list_chain [OF olds2 [unfolded sb_def], folded sb_def]], goal_cases)
        case (1 V' r c)
        have "eq_off ?S ?V2 V'" using 1 by (auto elim: eq_off_mono)
        moreover obtain F where "released sb ?V2 V' F" "F \<subseteq> set olds" "c \<longrightarrow> F = set olds"
          using 1 by (cases r) auto
        moreover from this have "relinked sb V V' n i' F olds ns ds"
          using 1 by (intro relinkedI [OF lay wf1 n olds new]) auto
        ultimately show ?case using eq_off_trans [OF off2] i' by auto
      qed
    next
      case 2
      then have "olds = []" using chain_head_0 [OF olds2(1)] by simp
      then have "relinked sb V ?V2 n i' (set olds) olds ns ds"
        by (intro relinkedI [OF lay wf1 n olds new]) simp_all
      then show ?case using off2 i' by (intro runs_ret) auto
    qed
  qed
qed

section \<open>Appending blocks\<close>

text \<open>The general effect on the list of a file: it gains and loses data blocks, and its nodes are
  replaced; a lost block may serve as a node at once.\<close>

definition remapped :: "mofs_superblock \<Rightarrow> disk \<Rightarrow> disk \<Rightarrow> int \<Rightarrow> mofs_inode \<Rightarrow> u32 set \<Rightarrow> u32 list \<Rightarrow> u32 list \<Rightarrow>
    u32 list \<Rightarrow> u32 list \<Rightarrow> u32 list \<Rightarrow> bool" where
  "remapped sb V V' n i F olds ns ds gained lost = (F \<subseteq> set olds \<and> inode_in sb V' n = i \<and> file_blocks sb V' i ns ds \<and>
     (\<forall>m. inode_num_ok sb m \<longrightarrow> m \<noteq> n \<longrightarrow> inode_in sb V' m = inode_in sb V m) \<and>
     (\<forall>x\<in>set ns. fresh sb V x \<or> x \<in> set lost) \<and> (\<forall>x\<in>set gained. fresh sb V x) \<and> set ns \<inter> set gained = {} \<and>
     eq_off (\<lambda>b. data_bitmap_own sb b \<or> inode_table_own sb b \<or> b \<in> set ns \<or> b \<in> set olds \<or> b \<in> set lost) V V' \<and>
     (\<forall>k<unat (sb_data_blk_num sb). data_used sb V' k =
        ((data_used sb V k \<and> k \<notin> data_idx sb ` set lost \<or> k \<in> data_idx sb ` set ns \<or> k \<in> data_idx sb ` set gained) \<and>
         k \<notin> data_idx sb ` F)))"

text \<open>The first free blocks of the data region.\<close>

definition first_free :: "mofs_superblock \<Rightarrow> disk \<Rightarrow> nat \<Rightarrow> u32 list" where
  "first_free sb V k =
     map (\<lambda>i. abs_of sb (word_of_nat i)) (take k (filter (\<lambda>i. \<not> data_used sb V i) [0..<unat (sb_data_blk_num sb)]))"

lemma remapped_grow:
  fixes need :: u32
  assumes lay: "layout_ok sb" and wf: "wf_disk sb V"
    and fnd: "unat need \<le> length (filter (\<lambda>i. \<not> data_used sb V i) [0..<unat (sb_data_blk_num sb)])"
      "idxs = map word_of_nat (take (unat need) (filter (\<lambda>i. \<not> data_used sb V i) [0..<unat (sb_data_blk_num sb)]))"
    and rel: "relinked sb (dm.mark_all sb idxs True V) V' n i F olds ns ds"
  shows "remapped sb V V' n i F olds ns ds (map (abs_of sb) idxs) []"
proof -
  let ?V1 = "dm.mark_all sb idxs True V"
  note fr = fresh_blocks [OF lay fnd]
  have off1: "eq_off (data_bitmap_own sb) V ?V1" by (rule data_mark_all_off [OF lay fr(3)])
  have used1: "data_used sb ?V1 k = (data_used sb V k \<or> k \<in> data_idx sb ` set (map (abs_of sb) idxs))"
    if "k < unat (sb_data_blk_num sb)" for k
    using data_used_mark_all [OF lay wf fr(3) that, of idxs True] unfolding fr(5) by simp
  have fresh1: "fresh sb V x" "x \<notin> set (map (abs_of sb) idxs)" if "fresh sb ?V1 x" for x
    using that used1 [of "data_idx sb x"] abs_to_data_idx_ok(3) [of sb x] by (auto simp: fresh_def)
  have ino: "inode_in sb ?V1 m = inode_in sb V m" if "inode_num_ok sb m" for m
    by (rule inode_in_off [OF lay that off1]) (use table_not_bitmap(1) [OF lay] in auto)
  have "eq_off (\<lambda>b. data_bitmap_own sb b \<or> inode_table_own sb b \<or> b \<in> set ns \<or> b \<in> set olds) V V'"
    using off1 rel by (simp add: relinked_def eq_off_def)
  moreover have "set ns \<inter> set (map (abs_of sb) idxs) = {}" "\<forall>x\<in>set ns. fresh sb V x"
    using rel fresh1 unfolding relinked_def by blast+
  ultimately show ?thesis
    using rel fr(4) ino used1 by (auto simp: relinked_def remapped_def)
qed

lemma runs_append_blocks:
  fixes E :: env
  defines "sb \<equiv> en_sb E"
  assumes n: "inode_num_ok sb n" and used: "used_chain sb V (i_data_head i) ns"
    and len: "length ds + unat req = unat tot" and max: "unat tot \<le> 1024"
  shows "runs E V (bind (find_free_data_block_indices req) (\<lambda>new_data_idx.
      bind (reserve_blocks [] new_data_idx) (\<lambda>_.
      on_error (replace_list n i (ds @ map (abs_of sb) new_data_idx) tot) (update_data_bitmap_bits new_data_idx False))))
    (\<lambda>V' r c. eq_off (\<lambda>b. data_bitmap_own sb b \<or> inode_table_own sb b \<or> fresh sb V b \<or> b \<in> set ns) V V' \<and>
    (case r of Inl e \<Rightarrow> c \<longrightarrow> e = MOFS_ENOSPC \<and> eq_off (data_bitmap_own sb) V V' \<and>
         (\<forall>k<unat (sb_data_blk_num sb). data_used sb V' k = data_used sb V k)
     | Inr _ \<Rightarrow> length (first_free sb V (unat req)) = unat req \<and>
         (\<exists>h ns' F. (c \<longrightarrow> F = set ns) \<and> remapped sb V V' n (i\<lparr>i_data_head := h, i_nr_blocks := tot\<rparr>)
            F ns ns' (ds @ first_free sb V (unat req)) (first_free sb V (unat req)) [])))"
    (is "runs E V _ (\<lambda>V' r c. eq_off ?S V V' \<and> ?R V' r c)")
proof (rule runs_wf, rule runs_bind [OF dm.find_law], fold sb_def, unfold Let_def, goal_cases)
  case (1 V' e c)
  then show ?case by simp
next
  case (2 V1 idxs)
  note lay = 2(1) and wf = 2(2)
  let ?free = "filter (\<lambda>i. \<not> data_used sb V i) [0..<unat (sb_data_blk_num sb)]"
  have V1: "V1 = V" and fnd: "unat req \<le> length ?free" "idxs = map word_of_nat (take (unat req) ?free)"
    using 2 by simp_all
  note fr = fresh_blocks [OF lay fnd]
  have ff: "map (abs_of sb) idxs = first_free sb V (unat req)" by (simp add: first_free_def fnd(2))
  have ffl: "length (first_free sb V (unat req)) = unat req" unfolding ff [symmetric] using fr(1) by simp
  let ?V1 = "dm.mark_all sb idxs True V"
  have off1: "eq_off (data_bitmap_own sb) V ?V1" by (rule data_mark_all_off [OF lay fr(3)])
  have used1: "data_used sb ?V1 k = (k \<in> unat ` set idxs \<or> data_used sb V k)" if "k < unat (sb_data_blk_num sb)" for k
    using data_used_mark_all [OF lay wf fr(3) that, of idxs True] by simp
  have off1': "eq_off ?S V ?V1" using off1 by (rule eq_off_mono) blast
  have S1: "eq_off ?S V' V''"
    if "eq_off (\<lambda>b. data_bitmap_own sb b \<or> inode_table_own sb b \<or> fresh sb ?V1 b \<or> b \<in> set ns) V' V''" for V' V''
    using that
  proof (rule eq_off_mono)
    show "?S b" if "data_bitmap_own sb b \<or> inode_table_own sb b \<or> fresh sb ?V1 b \<or> b \<in> set ns" for b
      using that used1 [OF abs_to_data_idx_ok(3)] by (auto simp: fresh_def)
  qed
  have uc: "used_chain (en_sb E) ?V1 (i_data_head i) ns"
  proof -
    have ch: "chain sb V (i_data_head i) ns" using used by (simp add: used_chain_def)
    have nb: "\<not> data_bitmap_own sb b" "data_idx sb b < unat (sb_data_blk_num sb)" if "b \<in> set ns" for b
      using data_blk_regions(1) [OF lay] abs_to_data_idx_ok(3) chain_data_blk [OF ch that] by auto
    show ?thesis
      unfolding sb_def [symmetric]
      using used chain_off(1) [OF off1 nb(1)] used1 [OF nb(2)] by (auto simp: used_chain_def)
  qed
  have dl: "length (ds @ map (abs_of sb) idxs) = unat tot" using fr(1) len by simp
  show ?case
    unfolding V1
  proof (rule runs_bind [OF runs_reserve_blocks], fold sb_def, goal_cases)
    case (1 i)
    then show ?case using fr(3) by simp
  next
    case (2 V' e c)
    then show ?case by (auto elim: eq_off_mono)
  next
    case (3 V' u)
    then have V': "V' = ?V1" by simp
    show ?case
      unfolding V'
    proof (rule runs_on_error [OF runs_keeps_wf [OF runs_replace_list [OF n [unfolded sb_def] dl max uc]]], fold sb_def, goal_cases)
      case (1 V2 x c)
      then have "eq_off ?S V V2" using S1 by (blast intro: eq_off_trans [OF off1'])
      moreover have "\<exists>h ns' F. (c \<longrightarrow> F = set ns) \<and> remapped sb V V2 n (i\<lparr>i_data_head := h, i_nr_blocks := tot\<rparr>) F ns ns'
          (ds @ map (abs_of sb) idxs) (map (abs_of sb) idxs) []"
        using 1 by (auto intro: remapped_grow [OF lay wf fnd])
      ultimately show ?case using ffl unfolding ff by simp
    next
      case (2 V2 e)
      then have off2: "eq_off ?S V V2" and wf2: "wf_disk sb V2" using S1 by (auto intro: eq_off_trans [OF off1'])
      show ?case
      proof (rule runs_mono [OF dm.runs_upd], fold sb_def, goal_cases)
        case (1 V3 r c)
        then have off3: "eq_off (data_bitmap_own sb) V2 V3" "c \<longrightarrow> V3 = dm.mark_all sb idxs False V2"
          using fr(3) by (auto simp: dm.in_range_def)
        have "eq_off ?S V V3" using off3(1) by (intro eq_off_trans [OF off2]) (auto elim: eq_off_mono)
        moreover have "data_used sb V3 k = data_used sb V k" if "c" "V2 = ?V1" "k < unat (sb_data_blk_num sb)" for k
          using data_used_mark_all [OF lay wf2 fr(3) that(3), of idxs False] dm.found_facts(4) [OF fnd] off3(2) that used1
          by auto
        moreover have "eq_off (data_bitmap_own sb) V V3" if "V2 = ?V1"
          using off1 off3(1) that by (blast intro: eq_off_trans)
        ultimately show ?case by simp
      qed
    qed
  qed
qed

lemma runs_allocate_data_block:
  fixes E :: env
  defines "sb \<equiv> en_sb E"
  assumes n: "inode_num_ok sb n" and fb: "file_blocks sb V (inode_in sb V n) ns ds"
    and used: "used_chain sb V (i_data_head (inode_in sb V n)) ns" and small: "length ds + unat req < 2 ^ 32"
  shows "runs E V (allocate_data_block n req) (\<lambda>V' r c.
    eq_off (\<lambda>b. data_bitmap_own sb b \<or> inode_table_own sb b \<or> fresh sb V b \<or> b \<in> set ns) V V' \<and>
    (case r of Inl e \<Rightarrow> c \<longrightarrow> e = MOFS_ENOSPC \<and> eq_off (data_bitmap_own sb) V V' \<and>
         (\<forall>k<unat (sb_data_blk_num sb). data_used sb V' k = data_used sb V k)
     | Inr _ \<Rightarrow> if req = 0 then V' = V else length ds + unat req \<le> 1024 \<and> length (first_free sb V (unat req)) = unat req \<and>
         (\<exists>h ns' F. (c \<longrightarrow> F = set ns) \<and> remapped sb V V' n ((inode_in sb V n)\<lparr>i_data_head := h, i_nr_blocks := i_nr_blocks (inode_in sb V n) + req\<rparr>)
            F ns ns' (ds @ first_free sb V (unat req)) (first_free sb V (unat req)) [])))"
    (is "runs E V _ (\<lambda>V' r c. eq_off ?S V V' \<and> ?R V' r c)")
proof (rule runs_wf)
  assume "layout_ok (en_sb E)" and "wf_disk (en_sb E) V"
  then have lay: "layout_ok sb" and wf: "wf_disk sb V" by (simp_all add: sb_def)
  let ?i = "inode_in sb V n"
  let ?tot = "i_nr_blocks ?i + req"
  have len: "length ds = unat (i_nr_blocks ?i)" using fb by (simp add: file_blocks_def)
  have tot: "unat ?tot = length ds + unat req" using small by (simp add: len unat_word_ariths(1))
  show ?thesis
    unfolding allocate_data_block_def
  proof (intro runs_gets_sb, fold sb_def, intro runs_throw_if runs_if, goal_cases)
    case (1 c)
    then show ?case using n by (simp add: inode_num_ok_def)
  next
    case 2
    then show ?case by (intro runs_ret) simp
  next
    case 3
    then have ne: "req \<noteq> 0" by simp
    show ?case
    proof (rule runs_bind [OF runs_read_inode], fold sb_def, unfold if_P [OF n], goal_cases)
      case (1 V' e c)
      then show ?case by simp
    next
      case (2 V1 i)
      then have V1: "V1 = V" "i = ?i" by simp_all
      show ?case
        unfolding V1 Let_def
      proof (intro runs_throw_if runs_with_malloc_opt, goal_cases)
        case (9 buf1 buf2)
        have max: "unat ?tot \<le> 1024" using 9(1) by (simp add: mofs_consts word_less_nat_alt)
        have nowrap: "\<not> ?tot < i_nr_blocks ?i" unfolding word_less_nat_alt tot len by simp
        have "runs E V (if 0 < i_nr_blocks ?i then export_data_block_list ?i (i_nr_blocks ?i) else ret [])
          (\<lambda>V' r c. V' = V \<and> (case r of Inl _ \<Rightarrow> \<not> c | Inr res \<Rightarrow> res = ds))"
        proof (rule runs_if)
          show "runs E V (export_data_block_list ?i (i_nr_blocks ?i)) (\<lambda>V' r c. V' = V \<and> (case r of Inl _ \<Rightarrow> \<not> c | Inr res \<Rightarrow> res = ds))"
            using runs_export [OF fb [unfolded sb_def]] by (simp add: sb_def)
        qed (use len in \<open>auto simp: word_less_nat_alt intro!: runs_ret\<close>)
        then show ?case
          unfolding if_not_P [OF nowrap]
        proof (rule runs_bind, goal_cases)
          case (1 V' e c)
          then show ?case by simp
        next
          case (2 V1 flat)
          then have V1: "V1 = V" "flat = ds" by simp_all
          show ?case
            unfolding V1
            using tot max ne
            by (intro runs_mono [OF runs_append_blocks [OF n [unfolded sb_def] used [unfolded sb_def], folded sb_def]]) (auto split: sum.splits)
        qed
      qed simp_all
    qed
  qed
qed

section \<open>Removing blocks\<close>

lemma bind_ret: "bind (ret x) f = f x"
  by (rule ext) (simp add: bind_def ret_def)

lemma from_res_Inr: "from_res (Inr x) = ret x"
  by (simp add: from_res_def ret_def)

text \<open>Releasing one block: its bit is cleared, and its cached copy is dropped.\<close>

lemma runs_release_step:
  fixes E :: env
  defines "sb \<equiv> en_sb E"
  assumes b: "data_blk sb b"
    and err: "\<And>V' e. eq_off (data_bitmap_own sb) V V' \<Longrightarrow> P V' (Inl e) False"
    and ok: "\<And>V'. eq_off (\<lambda>x. data_bitmap_own sb x \<or> x = b) V V' \<Longrightarrow>
      (\<And>k. k < unat (sb_data_blk_num sb) \<Longrightarrow> data_used sb V' k = (data_used sb V k \<and> k \<noteq> data_idx sb b)) \<Longrightarrow> runs E V' m P"
  shows "runs E V (bind (set_data_bitmap_bit (b - sb_data_region_start sb) False) (\<lambda>_.
      bind (ignore (mofs_bcache_invalidate b)) (\<lambda>_. m))) P"
proof (rule runs_wf, rule runs_bind [OF dm.set_off [of E _ _ False]], fold sb_def, goal_cases)
  note idx = abs_to_data_idx_ok [OF b]
  case (1 V' e c)
  then show ?case using idx(2,3) err by (auto split: if_splits)
next
  note idx = abs_to_data_idx_ok [OF b]
  case (2 V1 u)
  note lay = 2(1) and wf = 2(2)
  have V1: "V1 = mark_data sb (data_idx sb b) False V" using 2(3) idx(2,3) by (simp split: if_splits)
  have off1: "eq_off (data_bitmap_own sb) V V1" unfolding V1 by (rule dm.mark_off [OF lay idx(3)])
  show ?case
  proof (rule runs_bind [OF runs_ignore [OF runs_invalidate, where R = "\<lambda>V' r c. r = Inr () \<and> (\<exists>d. V' = V1(b := d))"]], goal_cases)
    case (1 V' r c)
    then show ?case using data_blk_vol [OF b] by (auto simp: sb_def)
  next
    case (2 V' e c)
    then show ?case by simp
  next
    case (3 V2 u)
    then obtain d where V2: "V2 = V1(b := d)" by auto
    have "eq_off (\<lambda>x. data_bitmap_own sb x \<or> x = b) V V2" using off1 by (auto simp: V2 eq_off_def)
    moreover have "data_used sb V2 k = (data_used sb V k \<and> k \<noteq> data_idx sb b)" if "k < unat (sb_data_blk_num sb)" for k
      unfolding V2 data_used_update [OF lay b that] V1 using dm.used_mark [OF lay wf idx(3) that] by simp
    ultimately show ?case by (intro runs_mono [OF ok]) auto
  qed
qed

lemma runs_release_blocks:
  fixes E :: env
  defines "sb \<equiv> en_sb E"
  assumes "\<And>i. i \<in> set is \<Longrightarrow> unat start + i < length flat \<and> data_blk sb (flat ! (unat start + i))" and "length flat < 2 ^ 32"
  shows "runs E V (release_blocks sb flat start is) (\<lambda>V' r c.
    eq_off (\<lambda>b. data_bitmap_own sb b \<or> b \<in> set (map (\<lambda>i. flat ! (unat start + i)) is)) V V' \<and>
    (case r of Inl _ \<Rightarrow> \<not> c | Inr _ \<Rightarrow> \<forall>k<unat (sb_data_blk_num sb). data_used sb V' k =
       (data_used sb V k \<and> k \<notin> data_idx sb ` set (map (\<lambda>i. flat ! (unat start + i)) is))))"
  using assms(2)
proof (induction "is" arbitrary: V)
  case Nil
  then show ?case by (simp add: runs_ret)
next
  case (Cons i rest)
  let ?b = "flat ! (unat start + i)"
  have i: "unat start + i < length flat" "data_blk sb ?b" using Cons.prems [of i] by auto
  have un: "unat (start + word_of_nat i) = unat start + i"
    using i(1) assms(3) by (simp add: unat_word_ariths(1) unat_word_of_nat)
  have IH: "runs E V' (release_blocks sb flat start rest) (\<lambda>V'' r c.
    eq_off (\<lambda>b. data_bitmap_own sb b \<or> b \<in> set (map (\<lambda>i. flat ! (unat start + i)) rest)) V' V'' \<and>
    (case r of Inl _ \<Rightarrow> \<not> c | Inr _ \<Rightarrow> \<forall>k<unat (sb_data_blk_num sb). data_used sb V'' k =
       (data_used sb V' k \<and> k \<notin> data_idx sb ` set (map (\<lambda>i. flat ! (unat start + i)) rest))))" for V'
    using Cons.prems by (intro Cons.IH) auto
  show ?case
    unfolding release_blocks.simps array_get_def un if_P [OF i(1)]
      bind_ret abs_to_data_idx_ok(1) [OF i(2)] from_res_Inr
  proof (unfold sb_def, rule runs_release_step [OF i(2) [unfolded sb_def]], fold sb_def, goal_cases)
    case (1 V' e)
    then show ?case by (auto elim: eq_off_mono)
  next
    case (2 V')
    show ?case
    proof (rule runs_mono [OF IH], goal_cases)
      case (1 V'' r c)
      have "eq_off (\<lambda>b. data_bitmap_own sb b \<or> b \<in> set (map (\<lambda>i. flat ! (unat start + i)) (i # rest))) V V''"
        using 1 2(1) by (simp add: eq_off_def)
      then show ?case using 1 2(2) by (auto split: sum.splits)
    qed
  qed
qed

lemma runs_restore_bits:
  fixes E :: env
  defines "sb \<equiv> en_sb E"
  assumes "\<And>i. i \<in> set is \<Longrightarrow> unat start + i < length flat \<and> data_blk sb (flat ! (unat start + i))" and "length flat < 2 ^ 32"
  shows "runs E V (restore_bits sb flat start is) (\<lambda>V' r c. r = Inr () \<and> eq_off (data_bitmap_own sb) V V' \<and>
    (c \<longrightarrow> (\<forall>k<unat (sb_data_blk_num sb). data_used sb V' k =
       (data_used sb V k \<or> k \<in> data_idx sb ` set (map (\<lambda>i. flat ! (unat start + i)) is)))))"
  using assms(2)
proof (induction "is" arbitrary: V)
  case Nil
  then show ?case by (simp add: runs_ret)
next
  case (Cons i rest)
  let ?b = "flat ! (unat start + i)"
  let ?Q = "\<lambda>V V'. \<forall>k<unat (sb_data_blk_num sb). data_used sb V' k = (data_used sb V k \<or> k = data_idx sb ?b)"
  have i: "unat start + i < length flat" "data_blk sb ?b" using Cons.prems [of i] by auto
  note idx = abs_to_data_idx_ok [OF i(2)]
  have un: "unat (start + word_of_nat i) = unat start + i"
    using i(1) assms(3) by (simp add: unat_word_ariths(1) unat_word_of_nat)
  have step: "runs E V (ignore (set_data_bitmap_bit (?b - sb_data_region_start sb) True))
    (\<lambda>V' r c. r = Inr () \<and> eq_off (data_bitmap_own sb) V V' \<and> (c \<longrightarrow> ?Q V V'))"
  proof (rule runs_wf, rule runs_ignore [OF dm.set_off], fold sb_def, goal_cases)
    case (1 V' r c)
    then have "case r of Inl _ \<Rightarrow> \<not> c \<and> eq_off (data_bitmap_own sb) V V' | Inr _ \<Rightarrow> V' = mark_data sb (data_idx sb ?b) True V"
      using idx(2,3) by (auto split: sum.splits)
    then show ?case using dm.mark_off [OF 1(1) idx(3)] dm.used_mark [OF 1(1,2) idx(3)] by (auto split: sum.splits)
  qed
  have IH: "runs E V' (restore_bits sb flat start rest) (\<lambda>V'' r c. r = Inr () \<and> eq_off (data_bitmap_own sb) V' V'' \<and>
    (c \<longrightarrow> (\<forall>k<unat (sb_data_blk_num sb). data_used sb V'' k =
       (data_used sb V' k \<or> k \<in> data_idx sb ` set (map (\<lambda>i. flat ! (unat start + i)) rest)))))" for V'
    using Cons.prems by (intro Cons.IH) auto
  show ?case
    unfolding restore_bits.simps array_get_def un if_P [OF i(1)] bind_ret
  proof (rule runs_bind [OF step], goal_cases)
    case (1 V' e c)
    then show ?case by simp
  next
    case (2 V' u)
    show ?case by (rule runs_mono [OF IH]) (use 2 in \<open>auto intro: eq_off_trans\<close>)
  qed
qed

lemma compact_list_eq:
  assumes "\<And>i. i \<in> set is \<Longrightarrow> i + unat f < length flat" and "length flat < 2 ^ 32"
  shows "compact_list flat s f is = ret (map (\<lambda>i. flat ! (if i < unat s then i else i + unat f)) is)"
  using assms(1)
proof (induction "is")
  case (Cons i rest)
  have i: "i + unat f < length flat" using Cons.prems by simp
  then have un: "unat (word_of_nat i :: u32) = i" "unat (word_of_nat i + f :: u32) = i + unat f"
    using assms(2) by (simp_all add: unat_word_ariths(1) unat_word_of_nat)
  have "array_get flat (if word_of_nat i < s then word_of_nat i else word_of_nat i + f) =
      ret (flat ! (if i < unat s then i else i + unat f))"
    using i by (simp add: array_get_def word_less_nat_alt un)
  then show ?case using Cons by (simp add: bind_ret)
qed simp

lemma map_cut:
  assumes "s + f \<le> length xs"
  shows "map (\<lambda>i. xs ! (if i < s then i else i + f)) [0..<length xs - f] = take s xs @ drop (s + f) xs"
  by (rule nth_equalityI) (use assms in \<open>auto simp: nth_append min_def add.commute\<close>)

lemma map_chunk: "s + f \<le> length xs \<Longrightarrow> map (\<lambda>i. xs ! (s + i)) [0..<f] = chunk s f xs"
  by (rule nth_equalityI) (auto simp: chunk_def)


text \<open>The blocks of a file: nodes and data blocks, all different, in the data region and marked.\<close>

definition owned :: "mofs_superblock \<Rightarrow> disk \<Rightarrow> int \<Rightarrow> u32 list \<Rightarrow> u32 list \<Rightarrow> bool" where
  "owned sb V n ns ds = (file_blocks sb V (inode_in sb V n) ns ds \<and> distinct (ns @ ds) \<and>
     (\<forall>x\<in>set (ns @ ds). data_blk sb x \<and> data_used sb V (data_idx sb x)))"

lemma owned_chain: "owned sb V n ns ds \<Longrightarrow> used_chain sb V (i_data_head (inode_in sb V n)) ns"
  by (simp add: owned_def file_blocks_def used_chain_def)

lemma remapped_shrink:
  assumes lay: "layout_ok sb" and own: "owned sb V n olds ds" and lost: "set lost \<subseteq> set ds"
    and off1: "eq_off (\<lambda>b. data_bitmap_own sb b \<or> b \<in> set lost) V V1"
    and used1: "\<And>k. k < unat (sb_data_blk_num sb) \<Longrightarrow> data_used sb V1 k = (data_used sb V k \<and> k \<notin> data_idx sb ` set lost)"
  shows "used_chain sb V1 (i_data_head (inode_in sb V n)) olds"
    and "relinked sb V1 V' n i F olds ns ds' \<Longrightarrow> remapped sb V V' n i F olds ns ds' [] lost"
proof -
  have blk: "data_blk sb x" "data_used sb V (data_idx sb x)" if "x \<in> set olds \<or> x \<in> set lost" for x
    using that own lost by (auto simp: owned_def)
  have dj: "x \<notin> set lost" if "x \<in> set olds" for x using that own lost by (auto simp: owned_def)
  have nb: "\<not> (data_bitmap_own sb x \<or> x \<in> set lost)" if "x \<in> set olds" for x
    using data_blk_regions(1) [OF lay] blk(1) dj that by blast
  have ui: "data_used sb V1 (data_idx sb x) = (data_used sb V (data_idx sb x) \<and> x \<notin> set lost)" if "data_blk sb x" for x
    using used1 [OF abs_to_data_idx_ok(3) [OF that]] data_idx_inj [OF that] blk(1) by (auto simp: image_iff)
  show "used_chain sb V1 (i_data_head (inode_in sb V n)) olds"
    using owned_chain [OF own] chain_off(1) [OF off1 nb] ui blk dj by (simp add: used_chain_def)
  assume rel: "relinked sb V1 V' n i F olds ns ds'"
  have ino: "inode_in sb V1 m = inode_in sb V m" if "inode_num_ok sb m" for m
    by (rule inode_in_off [OF lay that off1]) (use table_not_bitmap [OF lay] blk(1) in auto)
  have fr: "fresh sb V x \<or> x \<in> set lost" if "fresh sb V1 x" for x
    using that ui by (auto simp: fresh_def)
  have "eq_off (\<lambda>b. data_bitmap_own sb b \<or> inode_table_own sb b \<or> b \<in> set ns \<or> b \<in> set olds \<or> b \<in> set lost) V V'"
    using off1 rel by (simp add: relinked_def eq_off_def)
  then show "remapped sb V V' n i F olds ns ds' [] lost"
    using rel ino fr used1 by (auto simp: relinked_def remapped_def)
qed

text \<open>The part after the blocks are released: the list without them, or the bits restored.\<close>

lemma runs_shrink_list:
  fixes E :: env
  defines "sb \<equiv> en_sb E"
  assumes n: "inode_num_ok sb n" and own: "owned sb V n olds ds" and max: "length ds \<le> 1024"
    and f: "unat s + unat f \<le> length ds" and m: "unat m = length ds - unat f"
    and lost: "lost = chunk (unat s) (unat f) ds" and i: "i = inode_in sb V n"
    and off1: "eq_off (\<lambda>b. data_bitmap_own sb b \<or> b \<in> set lost) V V1"
    and used1: "\<And>k. k < unat (sb_data_blk_num sb) \<Longrightarrow> data_used sb V1 k = (data_used sb V k \<and> k \<notin> data_idx sb ` set lost)"
  shows "runs E V1 (on_error
       (if 0 < m then with_malloc (4 * unat m) (\<lambda>_.
          bind (compact_list ds s f [0..<unat m]) (\<lambda>compact_abs. replace_list n i compact_abs m))
        else replace_list n i [] m)
       (restore_bits sb ds s [0..<unat f])) (\<lambda>V' r c.
    eq_off (\<lambda>b. data_bitmap_own sb b \<or> inode_table_own sb b \<or> fresh sb V b \<or> b \<in> set olds \<or> b \<in> set lost) V V' \<and>
    (case r of Inl e \<Rightarrow> c \<longrightarrow> e = MOFS_ENOSPC \<and> eq_off (\<lambda>b. data_bitmap_own sb b \<or> b \<in> set lost) V V' \<and>
         (\<forall>k<unat (sb_data_blk_num sb). data_used sb V' k = data_used sb V k)
     | Inr _ \<Rightarrow> \<exists>h ns F. (c \<longrightarrow> F = set olds) \<and> remapped sb V V' n (i\<lparr>i_data_head := h, i_nr_blocks := m\<rparr>) F olds ns
         (take (unat s) ds @ drop (unat s + unat f) ds) [] lost))"
    (is "runs E V1 _ (\<lambda>V' r c. eq_off ?S V V' \<and> ?R V' r c)")
proof (rule runs_wf)
  assume "layout_ok (en_sb E)" then have lay: "layout_ok sb" by (simp add: sb_def)
  let ?keep = "take (unat s) ds @ drop (unat s + unat f) ds"
  have keep: "length ?keep = unat m" using f m by simp
  have mx: "unat m \<le> 1024" using m max by simp
  have sub: "set lost \<subseteq> set ds" unfolding lost chunk_def by (meson set_drop_subset set_take_subset subset_trans)
  have blk: "data_blk sb x" "data_used sb V (data_idx sb x)" if "x \<in> set lost" for x using that own sub by (auto simp: owned_def)
  note sh = remapped_shrink [OF lay own sub off1 used1]
  have S1: "eq_off ?S V' V''"
    if "eq_off (\<lambda>b. data_bitmap_own sb b \<or> inode_table_own sb b \<or> fresh sb V1 b \<or> b \<in> set olds) V' V''" for V' V''
    using that
  proof (rule eq_off_mono)
    fix b assume b: "data_bitmap_own sb b \<or> inode_table_own sb b \<or> fresh sb V1 b \<or> b \<in> set olds"
    have "data_idx sb b \<in> data_idx sb ` set lost \<longleftrightarrow> b \<in> set lost" if "data_blk sb b"
      using data_idx_inj [OF that] blk(1) by (auto simp: image_iff)
    then show "?S b" using b used1 [OF abs_to_data_idx_ok(3), of b] by (auto simp: fresh_def)
  qed
  have off1': "eq_off ?S V V1" using off1 by (rule eq_off_mono) blast
  have rep: "runs E V1 (replace_list n i ?keep m) (\<lambda>V' r c. eq_off ?S V1 V' \<and>
     (case r of Inl e \<Rightarrow> c \<longrightarrow> e = MOFS_ENOSPC \<and> V' = V1
      | Inr _ \<Rightarrow> \<exists>h ns F. (c \<longrightarrow> F = set olds) \<and> relinked sb V1 V' n (i\<lparr>i_data_head := h, i_nr_blocks := m\<rparr>) F olds ns ?keep))"
    by (rule runs_mono [OF runs_replace_list [OF n [unfolded sb_def] keep mx sh(1) [unfolded sb_def, folded i [unfolded sb_def]], folded sb_def]])
      (use S1 in \<open>auto split: sum.splits\<close>)
  have body: "runs E V1 (if 0 < m then with_malloc (4 * unat m) (\<lambda>_.
          bind (compact_list ds s f [0..<unat m]) (\<lambda>compact_abs. replace_list n i compact_abs m))
        else replace_list n i [] m) (\<lambda>V' r c. eq_off ?S V1 V' \<and>
     (case r of Inl e \<Rightarrow> c \<longrightarrow> e = MOFS_ENOSPC \<and> V' = V1
      | Inr _ \<Rightarrow> \<exists>h ns F. (c \<longrightarrow> F = set olds) \<and> relinked sb V1 V' n (i\<lparr>i_data_head := h, i_nr_blocks := m\<rparr>) F olds ns ?keep))"
  proof (intro runs_if runs_with_malloc, goal_cases)
    case (2 buf)
    have "compact_list ds s f [0..<unat m] = ret ?keep"
      unfolding map_cut [OF f, symmetric] m [symmetric] by (rule compact_list_eq) (use m f max in auto)
    then show ?case using rep by (simp add: bind_ret)
  next
    case 3
    then have "unat m = 0" by (simp add: word_less_nat_alt)
    then have "?keep = []" using keep by (metis length_0_conv)
    then show ?case using rep by (simp only:)
  qed simp
  have fl: "unat s + j < length ds" "data_blk sb (ds ! (unat s + j))" if "j < unat f" for j
    using that f own by (auto simp: owned_def)
  have ml: "map (\<lambda>j. ds ! (unat s + j)) [0..<unat f] = lost" unfolding lost by (rule map_chunk [OF f])
  show ?thesis
  proof (rule runs_on_error [OF body], goal_cases)
    case (1 V' x c)
    then show ?case using eq_off_trans [OF off1'] by (auto intro: sh(2))
  next
    case (2 V2 e)
    then have off2: "eq_off ?S V V2" using eq_off_trans [OF off1'] by blast
    have l32: "length ds < 2 ^ 32" using max by simp
    show ?case
    proof (rule runs_mono [OF runs_restore_bits [where E = E, OF _ l32, folded sb_def]], goal_cases)
      case (1 j)
      then show ?case using fl by simp
    next
      case (2 V3 r c)
      have b: "eq_off (data_bitmap_own sb) V2 V3" using 2 by simp
      have "eq_off ?S V V3" by (rule eq_off_trans [OF off2]) (use b in \<open>auto elim: eq_off_mono\<close>)
      moreover have "eq_off (\<lambda>b. data_bitmap_own sb b \<or> b \<in> set lost) V V3" if "V2 = V1"
        using off1 b that by (auto simp: eq_off_def)
      moreover have "data_used sb V3 k = data_used sb V k" if "V2 = V1" "c" "k < unat (sb_data_blk_num sb)" for k
        using 2 that used1 [OF that(3)] blk(2) unfolding ml by auto
      ultimately show ?case by simp
    qed
  qed
qed


lemma runs_free_data_block:
  fixes E :: env
  defines "sb \<equiv> en_sb E"
  assumes n: "inode_num_ok sb n" and own: "owned sb V n olds ds" and max: "length ds \<le> 1024"
    and small: "unat start + unat req < 2 ^ 32"
    and f: "f = min (unat req) (length ds - unat start)" and lost: "lost = chunk (unat start) f ds"
  shows "runs E V (free_data_block n start req) (\<lambda>V' r c.
    if req = 0 then r = Inr () \<and> V' = V
    else if length ds \<le> unat start then V' = V \<and> (case r of Inl e \<Rightarrow> c \<longrightarrow> e = MOFS_EINVAL | Inr _ \<Rightarrow> False)
    else eq_off (\<lambda>b. data_bitmap_own sb b \<or> inode_table_own sb b \<or> fresh sb V b \<or> b \<in> set olds \<or> b \<in> set lost) V V' \<and>
    (case r of Inl e \<Rightarrow> c \<longrightarrow> e = MOFS_ENOSPC \<and> eq_off (\<lambda>b. data_bitmap_own sb b \<or> b \<in> set lost) V V' \<and>
         (\<forall>k<unat (sb_data_blk_num sb). data_used sb V' k = data_used sb V k)
     | Inr _ \<Rightarrow> \<exists>h ns F. (c \<longrightarrow> F = set olds) \<and> remapped sb V V' n
         ((inode_in sb V n)\<lparr>i_data_head := h, i_nr_blocks := word_of_nat (length ds - f)\<rparr>) F olds ns
         (take (unat start) ds @ drop (unat start + f) ds) [] lost))"
proof -
  let ?i = "inode_in sb V n"
  let ?nr = "i_nr_blocks ?i"
  let ?f = "if ?nr < start + req then ?nr - start else req"
  have fb: "file_blocks sb V ?i olds ds" using own by (simp add: owned_def)
  then have len: "length ds = unat ?nr" by (simp add: file_blocks_def)
  have sum: "unat (start + req) = unat start + unat req" using small by (simp add: unat_word_ariths(1))
  have uf: "unat ?f = f" if "unat start < length ds"
  proof (cases "?nr < start + req")
    case True
    then have "length ds < unat start + unat req" by (simp add: word_less_nat_alt sum len)
    moreover have "unat (?nr - start) = length ds - unat start" using that len unat_sub_le [of start ?nr] by simp
    ultimately show ?thesis using True f by simp
  next
    case False
    then have "unat start + unat req \<le> length ds" by (simp add: word_less_nat_alt sum len)
    then show ?thesis using False f by simp
  qed
  show ?thesis
    unfolding free_data_block_def
  proof (rule runs_wf, intro runs_gets_sb, fold sb_def, intro runs_throw_if runs_if, goal_cases)
    case (1 c)
    then show ?case using n by (simp add: inode_num_ok_def)
  next
    case 2
    then show ?case by (intro runs_ret) simp
  next
    case 3
    note lay = 3(1) and ne = 3(4)
    show ?case
    proof (rule runs_bind [OF runs_read_inode], fold sb_def, unfold if_P [OF n] if_not_P [OF ne], goal_cases)
      case (1 V' e c)
      then show ?case by (auto simp: eq_off_def)
    next
      case (2 V1 i)
      then have V1: "V1 = V" "i = ?i" by simp_all
      show ?case
        unfolding V1 Let_def
      proof (intro runs_throw_if runs_with_malloc, goal_cases)
        case (1 c)
        then show ?case using len by (simp add: word_le_nat_alt)
      next
        case 2
        then show ?case using len by (simp add: word_le_nat_alt)
      next
        case (3 buf)
        then have lt: "unat start < length ds" using len by (simp add: word_le_nat_alt)
        then have nle: "\<not> length ds \<le> unat start" by simp
        have m: "unat (?nr - ?f) = length ds - unat ?f" unfolding len by (rule unat_sub_le) (use uf [OF lt] f len in simp)
        have fl: "unat start + unat ?f \<le> length ds" unfolding uf [OF lt] using f lt by simp
        show ?case
          unfolding if_not_P [OF nle]
        proof (rule runs_bind [OF runs_export [OF fb [unfolded sb_def] order.refl, folded sb_def]], goal_cases)
          case (1 V' e c)
          then show ?case by simp
        next
          case (2 V1 flat)
          then have V1: "V1 = V" "flat = ds" by simp_all
          have blk: "unat start + j < length ds \<and> data_blk sb (ds ! (unat start + j))" if "j \<in> set [0..<unat ?f]" for j
            using that fl own by (auto simp: owned_def)
          have l32: "length ds < 2 ^ 32" using max by simp
          have lost': "lost = chunk (unat start) (unat ?f) ds" unfolding uf [OF lt] by (rule lost)
          have ml: "map (\<lambda>j. ds ! (unat start + j)) [0..<unat ?f] = lost" unfolding lost' by (rule map_chunk [OF fl])
          have mw: "word_of_nat (length ds - f) = ?nr - ?f" unfolding uf [OF lt, symmetric] m [symmetric] by simp
          show ?case
            unfolding V1
          proof (rule runs_bind [OF runs_release_blocks [OF blk [unfolded sb_def] l32, folded sb_def]], unfold ml, goal_cases)
            case (2 V' e c)
            then show ?case by (auto elim: eq_off_mono)
          next
            case (3 V2 u)
            then have V2: "eq_off (\<lambda>b. data_bitmap_own sb b \<or> b \<in> set lost) V V2"
              "\<And>k. k < unat (sb_data_blk_num sb) \<Longrightarrow> data_used sb V2 k = (data_used sb V k \<and> k \<notin> data_idx sb ` set lost)"
              by simp_all
            show ?case
              unfolding mw unfolding uf [OF lt, symmetric]
              by (rule runs_mono [OF runs_shrink_list [OF n [unfolded sb_def] own [unfolded sb_def] max fl m lost' _ V2 [unfolded sb_def], folded sb_def]])
                (rule refl, assumption, intro impI, assumption)
          qed simp_all
        qed
      qed
    qed
  qed
qed

end
