(* ===== verification/Mofs_Fs.thy ===== *)
theory Mofs_Fs
  imports Mofs_Alloc
begin

text \<open>
  The invariant of the block allocation of a whole volume. \<open>fs_inv sb V L N D\<close> says that every
  inode of the set \<open>L\<close> has a chain of list nodes \<open>N n\<close> that maps its blocks to \<open>D n\<close>, that no
  block is used twice, and that the data bitmap marks exactly the blocks in use: no block is
  shared, and none is lost. Appending blocks to a file and removing blocks keep it. When the
  device fails in between, a block may stay marked that no list names; \<open>fs_safe\<close>, the part of the
  invariant without exactness, holds also then.
\<close>

section \<open>The invariant\<close>

abbreviation blk_used :: "mofs_superblock \<Rightarrow> disk \<Rightarrow> u32 \<Rightarrow> bool" where
  "blk_used sb V x \<equiv> data_used sb V (data_idx sb x)"

definition fs_safe :: "mofs_superblock \<Rightarrow> disk \<Rightarrow> int set \<Rightarrow> (int \<Rightarrow> u32 list) \<Rightarrow> (int \<Rightarrow> u32 list) \<Rightarrow> bool" where
  "fs_safe sb V L N D = (
     (\<forall>n\<in>L. inode_num_ok sb n \<and> owned sb V n (N n) (D n) \<and> length (D n) \<le> 1024) \<and>
     (\<forall>m\<in>L. \<forall>n\<in>L. \<forall>x. x \<in> set (N m @ D m) \<and> x \<in> set (N n @ D n) \<longrightarrow> m = n))"

definition fs_inv :: "mofs_superblock \<Rightarrow> disk \<Rightarrow> int set \<Rightarrow> (int \<Rightarrow> u32 list) \<Rightarrow> (int \<Rightarrow> u32 list) \<Rightarrow> bool" where
  "fs_inv sb V L N D = (fs_safe sb V L N D \<and>
     (\<forall>x. data_blk sb x \<longrightarrow> blk_used sb V x = (\<exists>n\<in>L. x \<in> set (N n @ D n))))"

lemma fs_inv_safe: "fs_inv sb V L N D \<Longrightarrow> fs_safe sb V L N D"
  by (simp add: fs_inv_def)

lemma fs_safeD:
  assumes "fs_safe sb V L N D" and "n \<in> L"
  shows "inode_num_ok sb n" "owned sb V n (N n) (D n)" "length (D n) \<le> 1024"
    and "x \<in> set (N n) \<or> x \<in> set (D n) \<Longrightarrow> data_blk sb x \<and> blk_used sb V x"
    and "m \<in> L \<Longrightarrow> m \<noteq> n \<Longrightarrow> x \<in> set (N m) \<or> x \<in> set (D m) \<Longrightarrow> x \<notin> set (N n) \<and> x \<notin> set (D n)"
proof -
  show "inode_num_ok sb n" "owned sb V n (N n) (D n)" "length (D n) \<le> 1024" using assms by (simp_all add: fs_safe_def)
  then show "x \<in> set (N n) \<or> x \<in> set (D n) \<Longrightarrow> data_blk sb x \<and> blk_used sb V x" by (simp add: owned_def)
  have "\<forall>m\<in>L. \<forall>n\<in>L. \<forall>x. x \<in> set (N m @ D m) \<and> x \<in> set (N n @ D n) \<longrightarrow> m = n" using assms(1) unfolding fs_safe_def by (elim conjE)
  then show "m \<in> L \<Longrightarrow> m \<noteq> n \<Longrightarrow> x \<in> set (N m) \<or> x \<in> set (D m) \<Longrightarrow> x \<notin> set (N n) \<and> x \<notin> set (D n)"
    using assms(2) by (metis Un_iff set_append)
qed

lemmas fs_invD = fs_safeD [OF fs_inv_safe]

lemma data_idx_image:
  assumes "data_blk sb x" and "\<And>y. y \<in> A \<Longrightarrow> data_blk sb y"
  shows "data_idx sb x \<in> data_idx sb ` A \<longleftrightarrow> x \<in> A"
  using data_idx_inj [OF assms(1)] assms(2) by (auto simp: image_iff)

text \<open>A volume that differs in free blocks and in blocks that belong to nobody's list only, and has
  the same marks.\<close>

lemma owned_off:
  assumes lay: "layout_ok sb" and n: "inode_num_ok sb n" and own: "owned sb V n ns ds"
    and ino: "inode_in sb V' n = inode_in sb V n"
    and nodes: "\<And>x. x \<in> set ns \<Longrightarrow> V' x = V x"
    and used: "\<And>x. x \<in> set ns \<or> x \<in> set ds \<Longrightarrow> blk_used sb V' x"
  shows "owned sb V' n ns ds"
proof -
  have "eq_off (\<lambda>b. b \<notin> set ns) V V'" using nodes by (simp add: eq_off_def)
  then have "file_blocks sb V' (inode_in sb V n) ns ds" using own file_blocks_off [of "\<lambda>b. b \<notin> set ns" V V' ns] by (simp add: owned_def)
  then show ?thesis using own ino used by (auto simp: owned_def)
qed

lemma fs_inv_same_marks:
  assumes lay: "layout_ok sb" and inv: "fs_inv sb V L N D"
    and off: "eq_off (\<lambda>b. data_bitmap_own sb b \<or> b \<in> A) V V'" and A: "\<And>x. x \<in> A \<Longrightarrow> data_blk sb x"
    and nodes: "\<And>x n. x \<in> A \<Longrightarrow> n \<in> L \<Longrightarrow> x \<notin> set (N n)"
    and used: "\<forall>k<unat (sb_data_blk_num sb). data_used sb V' k = data_used sb V k"
  shows "fs_inv sb V' L N D" and "\<And>n. n \<in> L \<Longrightarrow> inode_in sb V' n = inode_in sb V n"
proof -
  have u: "blk_used sb V' x = blk_used sb V x" if "data_blk sb x" for x using used abs_to_data_idx_ok(3) [OF that] by blast
  show ino: "inode_in sb V' n = inode_in sb V n" if "n \<in> L" for n
    by (rule inode_in_off [OF lay fs_invD(1) [OF inv that] off]) (use A table_not_bitmap [OF lay] in blast)
  have "owned sb V' n (N n) (D n)" if "n \<in> L" for n
  proof (rule owned_off [OF lay fs_invD(1,2) [OF inv that] ino [OF that]])
    fix x
    show "V' x = V x" if x: "x \<in> set (N n)"
      using off nodes [OF _ \<open>n \<in> L\<close>] x fs_invD(4) [OF inv \<open>n \<in> L\<close>, of x] data_blk_regions(1) [OF lay, of x]
      by (auto simp: eq_off_def)
    show "blk_used sb V' x" if "x \<in> set (N n) \<or> x \<in> set (D n)"
      using fs_invD(4) [OF inv \<open>n \<in> L\<close> that] u by blast
  qed
  then show "fs_inv sb V' L N D" using inv u by (simp add: fs_inv_def fs_safe_def)
qed


text \<open>The general step: the blocks of one file change as \<open>remapped\<close> says.\<close>

lemma remapped_blk:
  assumes "remapped sb V V' n i F olds ns ds gained lost" and x: "data_blk sb x"
    and "\<And>y. y \<in> set olds \<union> set lost \<Longrightarrow> data_blk sb y"
  shows "blk_used sb V' x = ((blk_used sb V x \<and> x \<notin> set lost \<or> x \<in> set ns \<or> x \<in> set gained) \<and> x \<notin> F)"
proof -
  have F: "F \<subseteq> set olds" using assms(1) by (simp add: remapped_def)
  have "data_blk sb y" if "y \<in> set ns \<or> y \<in> set gained" for y
    using assms(1,3) that by (auto simp: remapped_def fresh_def)
  then show ?thesis
    using assms(1,3) F abs_to_data_idx_ok(3) [OF x] data_idx_image [OF x, of F]
    by (simp add: remapped_def data_idx_image [OF x] subset_iff)
qed

lemma fs_safe_remapped:
  assumes lay: "layout_ok sb" and inv: "fs_safe sb V L N D" and n: "n \<in> L"
    and rem: "remapped sb V V' n i F (N n) ns ds gained lost" and lost: "set lost \<subseteq> set (D n)"
    and ds: "set ds = set (D n) - set lost \<union> set gained" "distinct ds" "length ds \<le> 1024"
  shows "fs_safe sb V' L (N(n := ns)) (D(n := ds))"
    and "\<And>m. m \<in> L \<Longrightarrow> m \<noteq> n \<Longrightarrow> inode_in sb V' m = inode_in sb V m \<and> map V' (D m) = map V (D m)"
    and "\<And>x. x \<in> set ds \<Longrightarrow> V' x = V x"
    and "fs_inv sb V L N D \<Longrightarrow> F = set (N n) \<Longrightarrow> fs_inv sb V' L (N(n := ns)) (D(n := ds))"
proof -
  have F: "F \<subseteq> set (N n)" using rem by (simp add: remapped_def)
  note own = fs_safeD(4) [OF inv]
  have fr: "x \<in> set ns \<Longrightarrow> fresh sb V x \<or> x \<in> set lost" "x \<in> set gained \<Longrightarrow> fresh sb V x"
    "x \<in> set ns \<Longrightarrow> x \<notin> set gained" for x
    using rem by (auto simp: remapped_def)
  have off: "V' b = V b" if "\<not> (data_bitmap_own sb b \<or> inode_table_own sb b \<or> b \<in> set ns \<or> b \<in> set (N n) \<or> b \<in> set lost)" for b
    using rem that unfolding remapped_def eq_off_def by blast
  have blk: "data_blk sb y" if "y \<in> set (N n) \<union> set lost" for y using own [OF n, of y] lost that by blast
  note used' = remapped_blk [OF rem _ blk]
  have same: "V' x = V x" if "data_blk sb x" "\<not> fresh sb V x" "x \<notin> set (N n)" "x \<notin> set lost" for x
    using off [of x] fr(1) [of x] that data_blk_regions(1,3) [OF lay that(1)] by blast
  have ino: "inode_in sb V' m = inode_in sb V m" if "m \<in> L" "m \<noteq> n" for m
    using rem fs_safeD(1) [OF inv that(1)] that(2) by (simp add: remapped_def)
  have other: "x \<notin> set (N n) \<and> x \<notin> set (D n) \<and> x \<notin> set ns \<and> x \<notin> set gained \<and> x \<notin> set lost \<and> \<not> fresh sb V x \<and> data_blk sb x"
    if "m \<in> L" "m \<noteq> n" "x \<in> set (N m) \<or> x \<in> set (D m)" for m x
    using fs_safeD(5) [OF inv n that] own [OF that(1,3)] fr [of x] lost by (auto simp: fresh_def)
  have keep: "x \<notin> set (N n) \<and> x \<notin> set ns \<and> \<not> fresh sb V x \<and> data_blk sb x \<and> blk_used sb V x"
    if "x \<in> set (D n)" "x \<notin> set lost" for x
    using own [OF n, of x] fs_safeD(2) [OF inv n] fr(1) [of x] that by (auto simp: owned_def fresh_def)
  have "V' x = V x" if "x \<in> set gained" for x
    using off [of x] fr(2) [OF that] fr(3) [of x] that data_blk_regions(1,3) [OF lay, of x] own [OF n, of x] lost
    by (auto simp: fresh_def)
  then show "V' x = V x" if "x \<in> set ds" for x using same keep [of x] that ds(1) by blast
  have own_other: "owned sb V' m (N m) (D m)" if m: "m \<in> L" "m \<noteq> n" for m
  proof (rule owned_off [OF lay fs_safeD(1,2) [OF inv m(1)] ino [OF m]])
    show "V' x = V x" if "x \<in> set (N m)" for x using same other [OF m, of x] that by blast
    show "blk_used sb V' x" if "x \<in> set (N m) \<or> x \<in> set (D m)" for x
      using used' other [OF m that] own [OF m(1) that] F by blast
  qed
  show "inode_in sb V' m = inode_in sb V m \<and> map V' (D m) = map V (D m)" if m: "m \<in> L" "m \<noteq> n" for m
    using ino [OF m] same other [OF m] by auto
  have new: "data_blk sb x \<and> blk_used sb V' x" if "x \<in> set ns \<or> x \<in> set ds" for x
  proof -
    have "data_blk sb x" "x \<notin> set (N n)"
      using that ds(1) fr [of x] keep [of x] blk [of x] own [OF n, of x] lost fs_safeD(2) [OF inv n] by (auto simp: fresh_def owned_def)
    then show ?thesis using that used' [of x] ds(1) keep [of x] F by blast
  qed
  have "set ns \<inter> set ds = {}" using ds(1) keep fr(3) by blast
  moreover have "file_blocks sb V' (inode_in sb V' n) ns ds" "distinct ns" using rem by (simp_all add: remapped_def file_blocks_def)
  ultimately have own_n: "owned sb V' n ns ds" using ds(2) new by (auto simp: owned_def)
  have sep: "x \<notin> set ns \<and> x \<notin> set ds" if "m \<in> L" "m \<noteq> n" "x \<in> set (N m) \<or> x \<in> set (D m)" for m x
    using other [OF that] ds(1) by blast
  show safe: "fs_safe sb V' L (N(n := ns)) (D(n := ds))"
    unfolding fs_safe_def set_append Un_iff
  proof (intro conjI ballI allI impI)
    fix m assume m: "m \<in> L"
    show "inode_num_ok sb m" by (rule fs_safeD(1) [OF inv m])
    show "owned sb V' m ((N(n := ns)) m) ((D(n := ds)) m)" using own_n own_other [OF m] by simp
    show "length ((D(n := ds)) m) \<le> 1024" using ds(3) fs_safeD(3) [OF inv m] by simp
    fix k x assume k: "k \<in> L" and "(x \<in> set ((N(n := ns)) m) \<or> x \<in> set ((D(n := ds)) m)) \<and> (x \<in> set ((N(n := ns)) k) \<or> x \<in> set ((D(n := ds)) k))"
    then show "m = k"
      using sep [OF m, of x] sep [OF k, of x] fs_safeD(5) [OF inv m k, of x] by (auto split: if_splits)
  qed
  assume fi: "fs_inv sb V L N D" and FN: "F = set (N n)"
  have acc: "blk_used sb V x = (\<exists>m\<in>L. x \<in> set (N m) \<or> x \<in> set (D m))" if "data_blk sb x" for x
    using fi that by (simp add: fs_inv_def)
  have "blk_used sb V' x = ((x \<in> set ns \<or> x \<in> set ds) \<or> (\<exists>m\<in>L. m \<noteq> n \<and> (x \<in> set (N m) \<or> x \<in> set (D m))))"
    if x: "data_blk sb x" for x
  proof
    assume u: "blk_used sb V' x"
    then have u': "blk_used sb V x \<and> x \<notin> set lost \<or> x \<in> set ns \<or> x \<in> set gained" "x \<notin> set (N n)" using used' [OF x] FN by simp_all
    show "(x \<in> set ns \<or> x \<in> set ds) \<or> (\<exists>m\<in>L. m \<noteq> n \<and> (x \<in> set (N m) \<or> x \<in> set (D m)))"
    proof (cases "x \<in> set ns \<or> x \<in> set gained")
      case False
      then obtain m where "m \<in> L" "x \<in> set (N m) \<or> x \<in> set (D m)" "x \<notin> set lost" using u' acc [OF x] by blast
      then show ?thesis using u'(2) ds(1) by (cases "m = n") auto
    qed (use ds(1) in auto)
  next
    assume "(x \<in> set ns \<or> x \<in> set ds) \<or> (\<exists>m\<in>L. m \<noteq> n \<and> (x \<in> set (N m) \<or> x \<in> set (D m)))"
    then show "blk_used sb V' x"
    proof
      assume "\<exists>m\<in>L. m \<noteq> n \<and> (x \<in> set (N m) \<or> x \<in> set (D m))"
      then obtain m where m: "m \<in> L" "m \<noteq> n" "x \<in> set (N m) \<or> x \<in> set (D m)" by blast
      then show ?thesis using used' [OF x] other [OF m] acc [OF x] F by auto
    qed (use new in blast)
  qed
  then have acc': "blk_used sb V' x = (\<exists>m\<in>L. x \<in> set ((N(n := ns)) m) \<or> x \<in> set ((D(n := ds)) m))" if "data_blk sb x" for x
    using that n by auto
  show "fs_inv sb V' L (N(n := ns)) (D(n := ds))"
    unfolding fs_inv_def set_append Un_iff using safe acc' by blast
qed

section \<open>Appending and removing keep the invariant\<close>

text \<open>The files of a set \<open>L\<close> have the same inode and the same content of their blocks; outside the
  inode table, the data bitmap and the data region nothing changes.\<close>

definition same_files :: "mofs_superblock \<Rightarrow> disk \<Rightarrow> disk \<Rightarrow> int set \<Rightarrow> (int \<Rightarrow> u32 list) \<Rightarrow> bool" where
  "same_files sb V V' L D = (\<forall>m\<in>L. inode_in sb V' m = inode_in sb V m \<and> map V' (D m) = map V (D m))"

abbreviation file_area :: "mofs_superblock \<Rightarrow> u32 \<Rightarrow> bool" where
  "file_area sb b \<equiv> data_bitmap_own sb b \<or> inode_table_own sb b \<or> data_blk sb b"

lemma first_free_fresh:
  assumes lay: "layout_ok sb" and len: "length (first_free sb V k) = k"
  shows "distinct (first_free sb V k)" and "\<And>x. x \<in> set (first_free sb V k) \<Longrightarrow> fresh sb V x"
proof -
  let ?free = "filter (\<lambda>i. \<not> data_used sb V i) [0..<unat (sb_data_blk_num sb)]"
  have kf: "k \<le> length ?free" using len by (simp add: first_free_def)
  have "length ?free \<le> length [0..<unat (sb_data_blk_num sb)]" by (rule length_filter_le)
  then have "length ?free < 2 ^ 32" using unat_u32_less [of "sb_data_blk_num sb"] by simp
  then have k: "unat (word_of_nat k :: u32) = k" using kf by (intro unat_word_of_nat) simp
  have "first_free sb V k = map (abs_of sb) (map word_of_nat (take (unat (word_of_nat k :: u32)) ?free))"
    by (simp add: first_free_def k)
  then show "distinct (first_free sb V k)" and "\<And>x. x \<in> set (first_free sb V k) \<Longrightarrow> fresh sb V x"
    using fresh_blocks(2,4) [OF lay _ refl, of "word_of_nat k" V] kf by (simp_all add: k)
qed

lemma same_marks_same_files:
  assumes lay: "layout_ok sb" and inv: "fs_inv sb V L N D" and off: "eq_off (\<lambda>b. data_bitmap_own sb b \<or> b \<in> A) V V'"
    and A: "A \<subseteq> set (D n)" and n: "n \<in> L"
    and used: "\<forall>k<unat (sb_data_blk_num sb). data_used sb V' k = data_used sb V k"
  shows "fs_inv sb V' L N D" and "same_files sb V V' (L - {n}) D" and "inode_in sb V' n = inode_in sb V n"
    and "A = {} \<Longrightarrow> same_files sb V V' L D"
proof -
  have blk: "data_blk sb x" if "m \<in> L" "x \<in> set (N m) \<or> x \<in> set (D m)" for m x using fs_invD(4) [OF inv that] by simp
  have A1: "x \<notin> set (N m)" if "x \<in> A" "m \<in> L" for x m
    using A that fs_invD(2) [OF inv n] fs_invD(5) [OF inv that(2) n, of x] by (cases "m = n") (auto simp: owned_def)
  have A2: "x \<notin> set (D m)" if "x \<in> A" "m \<in> L" "m \<noteq> n" for x m
    using A that(1) fs_invD(5) [OF inv that(2) n, of x] that(3) by auto
  note keep = fs_inv_same_marks [OF lay inv off _ A1 used]
  show "fs_inv sb V' L N D" using blk [OF n] A by (intro keep(1)) auto
  have ino: "inode_in sb V' m = inode_in sb V m" if "m \<in> L" for m using blk [OF n] A that by (intro keep(2)) auto
  then show "inode_in sb V' n = inode_in sb V n" using n by simp
  have same: "V' x = V x" if "m \<in> L" "x \<in> set (D m)" "x \<notin> A" for m x
    using off that data_blk_regions(1) [OF lay blk [of m x]] by (auto simp: eq_off_def)
  have "V' x = V x" if "m \<in> L" "m \<noteq> n" "x \<in> set (D m)" for m x using same [OF that(1,3)] A2 [OF _ that(1,2)] that(3) by blast
  then show "same_files sb V V' (L - {n}) D" unfolding same_files_def using ino by (simp, blast)
  show "same_files sb V V' L D" if "A = {}" unfolding same_files_def using ino same that by auto
qed

lemma remapped_same_files:
  assumes lay: "layout_ok sb" and inv: "fs_safe sb V L N D" and n: "n \<in> L"
    and rem: "remapped sb V V' n i F (N n) ns ds gained lost" and lost: "set lost \<subseteq> set (D n)"
    and ds: "set ds = set (D n) - set lost \<union> set gained" "distinct ds" "length ds \<le> 1024"
  shows "fs_safe sb V' L (N(n := ns)) (D(n := ds))" and "same_files sb V V' (L - {n}) D" and "inode_in sb V' n = i"
    and "map V' ds = map V ds"
    and "fs_inv sb V L N D \<Longrightarrow> F = set (N n) \<Longrightarrow> fs_inv sb V' L (N(n := ns)) (D(n := ds))"
proof -
  note r = fs_safe_remapped [OF lay inv n rem lost ds]
  show "fs_safe sb V' L (N(n := ns)) (D(n := ds))" by (rule r(1))
  show "fs_inv sb V' L (N(n := ns)) (D(n := ds))" if "fs_inv sb V L N D" "F = set (N n)" using that by (rule r(4))
  show "same_files sb V V' (L - {n}) D" using r(2) by (auto simp: same_files_def)
  show "inode_in sb V' n = i" using rem by (simp add: remapped_def)
  show "map V' ds = map V ds" using r(3) by simp
qed

lemma runs_allocate_fs:
  fixes E :: env
  defines "sb \<equiv> en_sb E"
  assumes inv: "fs_inv sb V L N D" and n: "n \<in> L" and small: "length (D n) + unat req < 2 ^ 32"
  shows "runs E V (allocate_data_block n req) (\<lambda>V' r c. eq_off (file_area sb) V V' \<and> (case r of
      Inl e \<Rightarrow> c \<longrightarrow> e = MOFS_ENOSPC \<and> fs_inv sb V' L N D \<and> same_files sb V V' L D
    | Inr _ \<Rightarrow> length (first_free sb V (unat req)) = unat req \<and>
        same_files sb V V' (L - {n}) D \<and> map V' (D n @ first_free sb V (unat req)) = map V (D n @ first_free sb V (unat req)) \<and>
        (\<exists>h ns. (let N' = N(n := ns); D' = D(n := D n @ first_free sb V (unat req)) in
             fs_safe sb V' L N' D' \<and> (c \<longrightarrow> fs_inv sb V' L N' D')) \<and>
           inode_in sb V' n = (inode_in sb V n)\<lparr>i_data_head := h, i_nr_blocks := i_nr_blocks (inode_in sb V n) + req\<rparr>)))"
proof (rule runs_wf)
  assume "layout_ok (en_sb E)" then have lay: "layout_ok sb" by (simp add: sb_def)
  note own = fs_invD(2) [OF inv n]
  let ?ff = "first_free sb V (unat req)"
  have fb: "file_blocks sb V (inode_in sb V n) (N n) (D n)" using own by (simp add: owned_def)
  have grow: "set (D n @ ?ff) = set (D n) - set [] \<union> set ?ff" "distinct (D n @ ?ff)" if "length ?ff = unat req"
    using first_free_fresh [OF lay that] own by (auto simp: owned_def fresh_def)
  show ?thesis
  proof (rule runs_mono [OF runs_allocate_data_block [OF fs_invD(1) [OF inv n, unfolded sb_def]
        fb [unfolded sb_def] owned_chain [OF own, unfolded sb_def] small, folded sb_def]], elim conjE, goal_cases)
    case (1 V' r c)
    have "eq_off (file_area sb) V V'" using 1(1) fs_invD(4) [OF inv n] by (elim eq_off_mono) (auto simp: fresh_def)
    moreover have "e = MOFS_ENOSPC \<and> fs_inv sb V' L N D \<and> same_files sb V V' L D" if "c" "r = Inl e" for e
      using same_marks_same_files [OF lay inv, where A = "{}" and n = n and V' = V'] n 1(2) that by simp
    moreover have "length ?ff = unat req \<and> same_files sb V V' (L - {n}) D \<and> map V' (D n @ ?ff) = map V (D n @ ?ff) \<and>
        (\<exists>h ns. (let N' = N(n := ns); D' = D(n := D n @ ?ff) in
             fs_safe sb V' L N' D' \<and> (c \<longrightarrow> fs_inv sb V' L N' D')) \<and>
           inode_in sb V' n = (inode_in sb V n)\<lparr>i_data_head := h, i_nr_blocks := i_nr_blocks (inode_in sb V n) + req\<rparr>)"
      if r: "r = Inr u" for u
    proof (cases "req = 0")
      case True
      then have "V' = V" using 1(2) r by simp
      then show ?thesis using True inv fs_inv_safe [OF inv] by (auto simp: first_free_def same_files_def intro!: exI [of _ "i_data_head (inode_in sb V n)"] exI [of _ "N n"])
    next
      case False
      then obtain h ns F where l: "length (D n) + unat req \<le> 1024" "length ?ff = unat req" and
        rem: "remapped sb V V' n ((inode_in sb V n)\<lparr>i_data_head := h, i_nr_blocks := i_nr_blocks (inode_in sb V n) + req\<rparr>)
          F (N n) ns (D n @ ?ff) ?ff []" and c: "c \<longrightarrow> F = set (N n)" using 1(2) r by auto
      note k = remapped_same_files [OF lay fs_inv_safe [OF inv] n rem _ grow [OF l(2)]]
      have "same_files sb V V' (L - {n}) D" "map V' (D n @ ?ff) = map V (D n @ ?ff)" using l k(2,4) by simp_all
      moreover have "fs_safe sb V' L (N(n := ns)) (D(n := D n @ ?ff))" "c \<longrightarrow> fs_inv sb V' L (N(n := ns)) (D(n := D n @ ?ff))"
        using l k(1,5) inv c by simp_all
      moreover have "inode_in sb V' n = (inode_in sb V n)\<lparr>i_data_head := h, i_nr_blocks := i_nr_blocks (inode_in sb V n) + req\<rparr>"
        using l k(3) by simp
      ultimately show ?thesis using l(2) unfolding Let_def by blast
    qed
    ultimately show ?case by (auto split: sum.splits)
  qed
qed


lemma runs_free_fs:
  fixes E :: env
  defines "sb \<equiv> en_sb E"
  assumes inv: "fs_inv sb V L N D" and n: "n \<in> L" and small: "unat start + unat req < 2 ^ 32"
    and f: "f = min (unat req) (length (D n) - unat start)"
  shows "runs E V (free_data_block n start req) (\<lambda>V' r c.
    if req = 0 then r = Inr () \<and> V' = V
    else if length (D n) \<le> unat start then V' = V \<and> (case r of Inl e \<Rightarrow> c \<longrightarrow> e = MOFS_EINVAL | Inr _ \<Rightarrow> False)
    else eq_off (file_area sb) V V' \<and> (let ds = take (unat start) (D n) @ drop (unat start + f) (D n) in
      case r of Inl e \<Rightarrow> c \<longrightarrow> e = MOFS_ENOSPC \<and> same_files sb V V' (L - {n}) D \<and> map V' ds = map V ds \<and>
           fs_inv sb V' L N D \<and> inode_in sb V' n = inode_in sb V n
       | Inr _ \<Rightarrow> same_files sb V V' (L - {n}) D \<and> map V' ds = map V ds \<and>
           (\<exists>h ns. (let N' = N(n := ns); D' = D(n := ds) in
             fs_safe sb V' L N' D' \<and> (c \<longrightarrow> fs_inv sb V' L N' D')) \<and>
           inode_in sb V' n = (inode_in sb V n)\<lparr>i_data_head := h, i_nr_blocks := word_of_nat (length (D n) - f)\<rparr>)))"
proof (rule runs_wf)
  assume "layout_ok (en_sb E)" then have lay: "layout_ok sb" by (simp add: sb_def)
  note own = fs_invD(2) [OF inv n]
  let ?ds = "D n" and ?s = "unat start"
  let ?lost = "chunk ?s f ?ds"
  let ?keep = "take ?s ?ds @ drop (?s + f) ?ds"
  have split: "?ds = take ?s ?ds @ ?lost @ drop (?s + f) ?ds"
    using append_take_drop_id [of ?s ?ds] append_take_drop_id [of f "drop ?s ?ds"] by (simp only: chunk_def drop_drop add.commute)
  have dist: "distinct (take ?s ?ds @ ?lost @ drop (?s + f) ?ds)" using own unfolding split [symmetric] by (simp add: owned_def)
  have sets: "set ?ds = set (take ?s ?ds) \<union> set ?lost \<union> set (drop (?s + f) ?ds)"
    using arg_cong [OF split, of set] by (simp only: set_append Un_assoc)
  have lost: "set ?lost \<subseteq> set ?ds" using sets by auto
  have keep: "set ?keep = set ?ds - set ?lost \<union> set []" "distinct ?keep" "length ?keep \<le> 1024"
    using dist sets fs_invD(3) [OF inv n] by auto
  have blk: "data_blk sb x" if "x \<in> set (N n) \<or> x \<in> set ?lost" for x using fs_invD(4) [OF inv n, of x] lost that by blast
  show ?thesis
  proof (rule runs_mono [OF runs_free_data_block [OF fs_invD(1) [OF inv n, unfolded sb_def]
        own [unfolded sb_def] fs_invD(3) [OF inv n] small f refl, folded sb_def]], goal_cases)
    case (1 V' r c)
    show ?case
    proof (cases "req = 0 \<or> length ?ds \<le> ?s")
      case True
      then show ?thesis using 1 by (cases "req = 0") simp_all
    next
      case False
      then have p: "eq_off (\<lambda>b. data_bitmap_own sb b \<or> inode_table_own sb b \<or> fresh sb V b \<or> b \<in> set (N n) \<or> b \<in> set ?lost) V V'"
        "case r of Inl e \<Rightarrow> c \<longrightarrow> e = MOFS_ENOSPC \<and> eq_off (\<lambda>b. data_bitmap_own sb b \<or> b \<in> set ?lost) V V' \<and>
           (\<forall>k<unat (sb_data_blk_num sb). data_used sb V' k = data_used sb V k)
         | Inr _ \<Rightarrow> \<exists>h ns F. (c \<longrightarrow> F = set (N n)) \<and> remapped sb V V' n
           ((inode_in sb V n)\<lparr>i_data_head := h, i_nr_blocks := word_of_nat (length ?ds - f)\<rparr>) F (N n) ns ?keep [] ?lost"
        using 1 by simp_all
      have "eq_off (file_area sb) V V'" using p(1) blk by (elim eq_off_mono) (auto simp: fresh_def)
      moreover have "let ds = ?keep in
        case r of Inl e \<Rightarrow> c \<longrightarrow> e = MOFS_ENOSPC \<and> same_files sb V V' (L - {n}) D \<and> map V' ds = map V ds \<and>
           fs_inv sb V' L N D \<and> inode_in sb V' n = inode_in sb V n
       | Inr _ \<Rightarrow> same_files sb V V' (L - {n}) D \<and> map V' ds = map V ds \<and>
           (\<exists>h ns. (let N' = N(n := ns); D' = D(n := ds) in
             fs_safe sb V' L N' D' \<and> (c \<longrightarrow> fs_inv sb V' L N' D')) \<and>
           inode_in sb V' n = (inode_in sb V n)\<lparr>i_data_head := h, i_nr_blocks := word_of_nat (length ?ds - f)\<rparr>)"
      proof (cases r)
        case 1: (Inl e)
        show ?thesis
          unfolding 1 sum.case Let_def
        proof
          assume c: c
          have q: "e = MOFS_ENOSPC" "eq_off (\<lambda>b. data_bitmap_own sb b \<or> b \<in> set ?lost) V V'"
            "\<forall>k<unat (sb_data_blk_num sb). data_used sb V' k = data_used sb V k" using p(2) c unfolding 1 sum.case by blast+
          note k = same_marks_same_files [OF lay inv q(2) lost n q(3)]
          have "V' x = V x" if "x \<in> set ?keep" for x
          proof -
            have x: "x \<in> set ?ds" "x \<notin> set ?lost" using that unfolding keep(1) by simp_all
            then show ?thesis
              using q(2) fs_invD(4) [OF inv n, of x] data_blk_regions(1) [OF lay, of x] unfolding eq_off_def by blast
          qed
          then have "map V' ?keep = map V ?keep" by (rule map_cong [OF refl])
          then show "e = MOFS_ENOSPC \<and> same_files sb V V' (L - {n}) D \<and> map V' ?keep = map V ?keep \<and>
              fs_inv sb V' L N D \<and> inode_in sb V' n = inode_in sb V n" using q(1) k(1-3) by blast
        qed
      next
        case 2: (Inr u)
        then obtain h ns F where rem: "remapped sb V V' n
           ((inode_in sb V n)\<lparr>i_data_head := h, i_nr_blocks := word_of_nat (length ?ds - f)\<rparr>) F (N n) ns ?keep [] ?lost"
          and c: "c \<longrightarrow> F = set (N n)"
          using p(2) unfolding 2 sum.case by blast
        note k = remapped_same_files [OF lay fs_inv_safe [OF inv] n rem lost keep]
        show ?thesis
          unfolding 2 sum.case Let_def
          by (intro conjI k(1,2,4) exI [of _ h] exI [of _ ns] k(3) impI k(5) inv c [THEN mp])
      qed
      moreover have "req \<noteq> 0" "\<not> length ?ds \<le> ?s" using False by simp_all
      ultimately show ?thesis by (simp only: if_False simp_thms)
    qed
  qed
qed

end
