(* ===== verification/Mofs_User.thy ===== *)
theory Mofs_User
  imports Mofs_List
begin

text \<open>
  Caller identity and access checks: \<open>src/os/linux/service/os_user.c\<close> (the credentials of the
  calling thread, from the thread's context or from the operating system) and
  \<open>src/core/modules/mofs_perm.c\<close> (owner, group and other permission bits).

  The content of \<open>/proc/<pid>/status\<close> is an argument of the routine that reads it, an error
  when the file cannot be opened.
\<close>

unbundle bit_operations_syntax

section \<open>Flags and mode bits\<close>

definition MOFS_OFLAG_RDONLY :: u32 where "MOFS_OFLAG_RDONLY = 0x0001"
definition MOFS_OFLAG_WRONLY :: u32 where "MOFS_OFLAG_WRONLY = 0x0002"
definition MOFS_OFLAG_RDWR :: u32 where "MOFS_OFLAG_RDWR = MOFS_OFLAG_RDONLY OR MOFS_OFLAG_WRONLY"
definition MOFS_OFLAG_EXEC :: u32 where "MOFS_OFLAG_EXEC = 0x0004"
definition MOFS_OFLAG_SEARCH :: u32 where "MOFS_OFLAG_SEARCH = 0x0008"
definition MOFS_OFLAG_ACCMODE :: u32 where
  "MOFS_OFLAG_ACCMODE = MOFS_OFLAG_RDWR OR MOFS_OFLAG_EXEC OR MOFS_OFLAG_SEARCH"
definition MOFS_OFLAG_CREAT :: u32 where "MOFS_OFLAG_CREAT = 0x0010"
definition MOFS_OFLAG_DIRECTORY :: u32 where "MOFS_OFLAG_DIRECTORY = 0x0020"
definition MOFS_OFLAG_EXCL :: u32 where "MOFS_OFLAG_EXCL = 0x0040"

definition MOFS_FTYPE_DIR :: u32 where "MOFS_FTYPE_DIR = 0x4000"
definition MOFS_FTYPE_REG :: u32 where "MOFS_FTYPE_REG = 0x8000"

definition MOFS_S_IRUSR :: u32 where "MOFS_S_IRUSR = 0x100"
definition MOFS_S_IWUSR :: u32 where "MOFS_S_IWUSR = 0x80"
definition MOFS_S_IXUSR :: u32 where "MOFS_S_IXUSR = 0x40"
definition MOFS_S_IRGRP :: u32 where "MOFS_S_IRGRP = 0x20"
definition MOFS_S_IWGRP :: u32 where "MOFS_S_IWGRP = 0x10"
definition MOFS_S_IXGRP :: u32 where "MOFS_S_IXGRP = 0x8"
definition MOFS_S_IROTH :: u32 where "MOFS_S_IROTH = 0x4"
definition MOFS_S_IWOTH :: u32 where "MOFS_S_IWOTH = 0x2"
definition MOFS_S_IXOTH :: u32 where "MOFS_S_IXOTH = 0x1"

lemmas flag_defs =
  MOFS_OFLAG_RDONLY_def MOFS_OFLAG_WRONLY_def MOFS_OFLAG_RDWR_def MOFS_OFLAG_EXEC_def MOFS_OFLAG_SEARCH_def
  MOFS_OFLAG_ACCMODE_def MOFS_OFLAG_CREAT_def MOFS_OFLAG_DIRECTORY_def MOFS_OFLAG_EXCL_def
  MOFS_FTYPE_DIR_def MOFS_FTYPE_REG_def

lemmas mode_defs =
  MOFS_S_IRUSR_def MOFS_S_IWUSR_def MOFS_S_IXUSR_def MOFS_S_IRGRP_def MOFS_S_IWGRP_def MOFS_S_IXGRP_def
  MOFS_S_IROTH_def MOFS_S_IWOTH_def MOFS_S_IXOTH_def

text \<open>The mode field has 16 bits and is promoted before it is masked.\<close>

definition mode_has :: "mofs_inode \<Rightarrow> u32 \<Rightarrow> bool" where
  "mode_has inode bits = (ucast (i_mode inode) AND bits \<noteq> 0)"

section \<open>Caller credentials\<close>

text \<open>\<open>getgroups\<close>: the number of groups, or the groups when the buffer is large enough.\<close>

definition sys_getgroups :: "u32 list mofs" where
  "sys_getgroups =
     bind os_call (\<lambda>f. case f of
         SysErr e \<Rightarrow> bind (set_os_errno (sys_errno e)) (\<lambda>_. return_errno [])
       | _ \<Rightarrow> gets (\<lambda>w. os_groups (w_os w)))"

definition read_supp_groups_from_os :: "mofs_user_ctx \<Rightarrow> mofs_user_ctx mofs" where
  "read_supp_groups_from_os user =
     bind sys_getgroups (\<lambda>gs.
     if length gs = 0 then ret (user\<lparr>u_supp_groups := []\<rparr>)
     else with_malloc (4 * length gs) (\<lambda>_.
       bind sys_getgroups (\<lambda>groups.
       ret (user\<lparr>u_supp_groups := take MOFS_SUPP_GROUP_MAX groups\<rparr>))))"

definition mofs_set_caller_user :: "u32 \<Rightarrow> u32 \<Rightarrow> u32 \<Rightarrow> unit mofs" where
  "mofs_set_caller_user uid gid pid =
     modify (\<lambda>w. w\<lparr>w_user := \<lparr>u_uid = uid, u_gid = gid, u_pid = pid, u_supp_groups = [gid], u_valid = True\<rparr>\<rparr>)"

definition mofs_clear_caller_user :: "unit mofs" where
  "mofs_clear_caller_user =
     modify (\<lambda>w. w\<lparr>w_user := \<lparr>u_uid = 0, u_gid = 0, u_pid = 0, u_supp_groups = [], u_valid = False\<rparr>\<rparr>)"

definition mofs_get_caller_user :: "mofs_user_ctx mofs" where
  "mofs_get_caller_user =
     bind (gets w_user) (\<lambda>caller_user_ctx.
     if u_valid caller_user_ctx then ret caller_user_ctx
     else bind (gets w_os) (\<lambda>os.
          read_supp_groups_from_os
            \<lparr>u_uid = os_euid os, u_gid = os_egid os, u_pid = os_pid os, u_supp_groups = [], u_valid = True\<rparr>))"

definition mofs_is_caller_in_group :: "u32 \<Rightarrow> bool mofs" where
  "mofs_is_caller_in_group group_id =
     bind mofs_get_caller_user (\<lambda>user.
     if u_gid user = group_id then ret True
     else ret (list_ex (\<lambda>g. g = group_id) (u_supp_groups user)))"

text \<open>The lines of a text, each without its newline, and the tokens of a line.\<close>

fun text_lines :: "byte list \<Rightarrow> byte list list" where
  "text_lines [] = []"
| "text_lines (c # cs) =
     (if c = 10 then [] # text_lines cs
      else case text_lines cs of [] \<Rightarrow> [[c]] | l # ls \<Rightarrow> (c # l) # ls)"

definition strtok :: "byte list \<Rightarrow> byte list \<Rightarrow> (byte list \<times> byte list) option" where
  "strtok delim s =
     (let s = dropWhile (\<lambda>c. c \<in> set delim) s in
      if s = [] then None
      else Some (takeWhile (\<lambda>c. c \<notin> set delim) s, drop 1 (dropWhile (\<lambda>c. c \<notin> set delim) s)))"

lemma strtok_shorter: "strtok delim s = Some (t, rest) \<Longrightarrow> length rest < length s"
proof -
  assume s: "strtok delim s = Some (t, rest)"
  let ?s = "dropWhile (\<lambda>c. c \<in> set delim) s"
  have "?s \<noteq> []" and rest: "rest = drop 1 (dropWhile (\<lambda>c. c \<notin> set delim) ?s)"
    using s by (auto simp: strtok_def Let_def split: if_splits)
  have "length rest \<le> length ?s - 1"
    using length_dropWhile_le [of "\<lambda>c. c \<notin> set delim" ?s] by (simp add: rest)
  moreover have "length ?s \<le> length s" by (rule length_dropWhile_le)
  ultimately show ?thesis using \<open>?s \<noteq> []\<close> by (cases ?s) auto
qed

function tokens :: "byte list \<Rightarrow> byte list \<Rightarrow> byte list list" where
  "tokens delim s = (case strtok delim s of None \<Rightarrow> [] | Some (t, rest) \<Rightarrow> t # tokens delim rest)"
  by pat_completeness auto
termination
  by (relation "measure (\<lambda>(_, s). length s)") (auto dest: strtok_shorter)

declare tokens.simps [simp del]

text \<open>\<open>strtoul\<close> in base 10 on a token, which starts with no blank: an optional sign and the digits
  that follow, saturating at the largest value; a minus sign negates the result.\<close>

definition strtoul :: "byte list \<Rightarrow> u64" where
  "strtoul s =
     (let neg = (s \<noteq> [] \<and> hd s = 45);
          digits = takeWhile (\<lambda>c. 48 \<le> c \<and> c \<le> 57) (if s \<noteq> [] \<and> (hd s = 45 \<or> hd s = 43) then tl s else s);
          v = fold (\<lambda>c n. 10 * n + unat (c - 48)) digits 0
      in if 2 ^ 64 \<le> v then 2 ^ 64 - 1 else if neg then - word_of_nat v else word_of_nat v)"

definition parse_proc_status_groups :: "u32 \<Rightarrow> nat \<Rightarrow> byte list res \<Rightarrow> u32 list res" where
  "parse_proc_status_groups pid max_out status =
     (if sint pid \<le> 0 then Inl MOFS_EINVAL
      else case status of
          Inl e \<Rightarrow> Inl e
        | Inr txt \<Rightarrow>
            (case first_idx (\<lambda>l. take 7 l = [71, 114, 111, 117, 112, 115, 58]) (text_lines txt) of
               None \<Rightarrow> Inr []
             | Some k \<Rightarrow> Inr (take max_out (map (\<lambda>t. ucast (strtoul t)) (tokens [32, 9, 10] (drop 7 (text_lines txt ! k)))))))"

definition set_caller_supp_groups :: "u32 list \<Rightarrow> unit mofs" where
  "set_caller_supp_groups groups =
     modify (\<lambda>w. w\<lparr>w_user := (w_user w)\<lparr>u_supp_groups :=
       (if take MOFS_SUPP_GROUP_MAX groups = [] then [u_gid (w_user w)] else take MOFS_SUPP_GROUP_MAX groups)\<rparr>\<rparr>)"

definition mofs_set_caller_for_peer_process :: "u32 \<Rightarrow> u32 \<Rightarrow> u32 \<Rightarrow> byte list res \<Rightarrow> unit mofs" where
  "mofs_set_caller_for_peer_process uid gid pid status =
     bind (mofs_set_caller_user uid gid pid) (\<lambda>_.
     case parse_proc_status_groups pid MOFS_SUPP_GROUP_MAX status of
         Inl _ \<Rightarrow> ret ()
       | Inr groups \<Rightarrow> if 0 < length groups then set_caller_supp_groups groups else ret ())"

section \<open>Access checks\<close>

text \<open>The kind of access asked for, from the access bits of the open flags.\<close>

definition access_kind :: "u32 \<Rightarrow> u32 res" where
  "access_kind flags =
     (if flags AND MOFS_OFLAG_ACCMODE = 0 then Inl MOFS_EINVAL
      else
        let kind = (if flags AND MOFS_OFLAG_EXEC = MOFS_OFLAG_EXEC then Some MOFS_OFLAG_EXEC else None) in
        if flags AND MOFS_OFLAG_SEARCH = MOFS_OFLAG_SEARCH \<and> kind \<noteq> None then Inl MOFS_EINVAL
        else
          let kind = (if flags AND MOFS_OFLAG_SEARCH = MOFS_OFLAG_SEARCH then Some MOFS_OFLAG_SEARCH else kind) in
          if flags AND MOFS_OFLAG_RDONLY = MOFS_OFLAG_RDONLY \<and> kind \<noteq> None then Inl MOFS_EINVAL
          else
            let kind = (if flags AND MOFS_OFLAG_RDONLY = MOFS_OFLAG_RDONLY then Some MOFS_OFLAG_RDONLY else kind) in
            if flags AND MOFS_OFLAG_WRONLY = MOFS_OFLAG_WRONLY then
              (case kind of
                 None \<Rightarrow> Inr MOFS_OFLAG_WRONLY
               | Some k \<Rightarrow> if k = MOFS_OFLAG_RDONLY then Inr MOFS_OFLAG_RDWR else Inl MOFS_EINVAL)
            else (case kind of None \<Rightarrow> Inr 0 | Some k \<Rightarrow> Inr k))"

definition access_denied :: "u32 \<Rightarrow> mofs_inode \<Rightarrow> u32 \<times> u32 \<times> u32 \<Rightarrow> bool" where
  "access_denied kind inode bits =
     (case bits of (is_read, is_write, is_execute) \<Rightarrow>
        if kind = MOFS_OFLAG_RDONLY then \<not> mode_has inode is_read
        else if kind = MOFS_OFLAG_WRONLY then \<not> mode_has inode is_write
        else if kind = MOFS_OFLAG_RDWR then \<not> mode_has inode is_read \<or> \<not> mode_has inode is_write
        else if kind = MOFS_OFLAG_EXEC then \<not> mode_has inode is_execute
        else if kind = MOFS_OFLAG_SEARCH then \<not> mode_has inode is_execute
        else False)"

definition mofs_check_open_permission :: "u32 \<Rightarrow> mofs_user_ctx \<Rightarrow> mofs_inode \<Rightarrow> unit mofs" where
  "mofs_check_open_permission flags user inode =
     bind (from_res (access_kind flags)) (\<lambda>kind.
     if kind = 0 then ret ()
     else bind (mofs_is_caller_in_group (i_gid inode)) (\<lambda>is_member.
       let bits = (if u_uid user = i_uid inode then (MOFS_S_IRUSR, MOFS_S_IWUSR, MOFS_S_IXUSR)
                   else if is_member then (MOFS_S_IRGRP, MOFS_S_IWGRP, MOFS_S_IXGRP)
                   else (MOFS_S_IROTH, MOFS_S_IWOTH, MOFS_S_IXOTH))
       in throw_if (access_denied kind inode bits) MOFS_EACCES))"

definition mofs_check_dir_traverse :: "mofs_user_ctx \<Rightarrow> mofs_inode \<Rightarrow> unit mofs" where
  "mofs_check_dir_traverse user dir_inode = mofs_check_open_permission MOFS_OFLAG_SEARCH user dir_inode"

definition mofs_check_dir_read :: "mofs_user_ctx \<Rightarrow> mofs_inode \<Rightarrow> unit mofs" where
  "mofs_check_dir_read user dir_inode = mofs_check_open_permission MOFS_OFLAG_RDONLY user dir_inode"

definition mofs_check_dir_write :: "mofs_user_ctx \<Rightarrow> mofs_inode \<Rightarrow> unit mofs" where
  "mofs_check_dir_write user dir_inode =
     bind (mofs_check_open_permission MOFS_OFLAG_WRONLY user dir_inode) (\<lambda>_.
     mofs_check_dir_traverse user dir_inode)"

end
