(* ===== verification/Mofs_Dirent.thy ===== *)
theory Mofs_Dirent
  imports Mofs_User
begin

text \<open>
  File data blocks and directory entries: \<open>read_file_data_block\<close> and \<open>write_file_data_block\<close> of
  \<open>src/core/modules/mofs_file.c\<close>, and the routines of \<open>src/core/modules/mofs_dir.c\<close> that search,
  add and remove the entries of one directory.

  A directory is a file whose content is an array of 32-byte entries: 28 bytes of name and an
  inode number. The name of an entry is the C string that starts at the entry.
\<close>

unbundle bit_operations_syntax

section \<open>Data blocks of a file\<close>

text \<open>The loops over the blocks of a request. \<open>i\<close> is the index in the request; block \<open>i\<close> of the
  buffer starts at \<open>i * blk_size\<close>.\<close>

fun read_file_loop ::
  "mofs_superblock \<Rightarrow> int \<Rightarrow> u32 \<Rightarrow> nat list \<Rightarrow> byte list \<Rightarrow> u32 \<Rightarrow> (byte list \<times> u32 \<times> u32) mofs" where
  "read_file_loop sb inode_num start_blk_num [] buf read_blk_num = ret (buf, read_blk_num, 0)"
| "read_file_loop sb inode_num start_blk_num (i # rest) buf read_blk_num =
     (let bs = unat (sb_blk_size sb) in
      bind (resolve_file_data_block inode_num (start_blk_num + word_of_nat i)) (\<lambda>abs_blk_num.
      if length buf < i * bs + bs then diverge
      else
        bind (gets dev_fd) (\<lambda>fd.
        bind (read_continuous_blocks fd (chunk (i * bs) bs buf) 1 abs_blk_num) (\<lambda>(blk, read_one_blk_num, read_fraction).
        if read_fraction \<noteq> 0 then ret (overwrite (i * bs) blk buf, read_blk_num, read_fraction)
        else if read_one_blk_num \<noteq> 1 then throw MOFS_EIO
        else read_file_loop sb inode_num start_blk_num rest (overwrite (i * bs) blk buf) (read_blk_num + 1)))))"

text \<open>The result is the buffer, the number of whole blocks and the number of bytes of the last,
  partial block.\<close>

definition read_file_data_block :: "int \<Rightarrow> byte list \<Rightarrow> u32 \<Rightarrow> u32 \<Rightarrow> (byte list \<times> u32 \<times> u32) mofs" where
  "read_file_data_block inode_num buf start_blk_num req_blk_num =
     bind (gets sp_blk) (\<lambda>sb.
     bind (throw_if (inode_num < 0) MOFS_EINVAL) (\<lambda>_.
     if req_blk_num = 0 then ret (buf, 0, 0)
     else
       bind (mofs_read_inode inode_num) (\<lambda>inode_buf.
       let size_blks = (i_size inode_buf + sb_blk_size sb - 1) div sb_blk_size sb in
       if i_nr_blocks inode_buf \<le> start_blk_num \<or> size_blks \<le> start_blk_num then ret (buf, 0, 0)
       else
         let req_blk_num = (if size_blks < start_blk_num + req_blk_num then size_blks - start_blk_num else req_blk_num) in
         bind (read_file_loop sb inode_num start_blk_num [0..<unat req_blk_num] buf 0) (\<lambda>(buf, read_blk_num, fraction).
         if fraction = 0 \<and> i_size inode_buf div sb_blk_size sb < start_blk_num + read_blk_num
         then ret (buf, read_blk_num - 1, i_size inode_buf mod sb_blk_size sb)
         else ret (buf, read_blk_num, fraction)))))"

definition outside_data_region :: "mofs_superblock \<Rightarrow> u32 \<Rightarrow> bool" where
  "outside_data_region sb abs_blk_num =
     (abs_blk_num < sb_data_region_start sb \<or> sb_data_region_start sb + sb_data_blk_num sb \<le> abs_blk_num)"

fun write_file_loop ::
  "mofs_superblock \<Rightarrow> int \<Rightarrow> byte list \<Rightarrow> u32 \<Rightarrow> nat list \<Rightarrow> u32 \<Rightarrow> (u32 \<times> u32) mofs" where
  "write_file_loop sb inode_num buf start_blk_num [] written_blk_num = ret (written_blk_num, 0)"
| "write_file_loop sb inode_num buf start_blk_num (i # rest) written_blk_num =
     (let bs = unat (sb_blk_size sb) in
      bind (resolve_file_data_block inode_num (start_blk_num + word_of_nat i)) (\<lambda>abs_blk_num.
      bind (throw_if (outside_data_region sb abs_blk_num) MOFS_EINVAL) (\<lambda>_.
      if length buf < i * bs + bs then diverge
      else
        bind (gets dev_fd) (\<lambda>fd.
        bind (write_continuous_blocks fd (chunk (i * bs) bs buf) 1 abs_blk_num) (\<lambda>(written_one_blk_num, written_fraction).
        if written_fraction \<noteq> 0 then ret (written_blk_num, written_fraction)
        else if written_one_blk_num \<noteq> 1 then throw MOFS_EIO
        else write_file_loop sb inode_num buf start_blk_num rest (written_blk_num + 1))))))"

definition write_file_data_block :: "int \<Rightarrow> byte list \<Rightarrow> u32 \<Rightarrow> u32 \<Rightarrow> (u32 \<times> u32) mofs" where
  "write_file_data_block inode_num buf start_blk_num req_blk_num =
     bind (gets sp_blk) (\<lambda>sb.
     bind (throw_if (inode_num < 0) MOFS_EINVAL) (\<lambda>_.
     if req_blk_num = 0 then ret (0, 0)
     else
       bind (mofs_read_inode inode_num) (\<lambda>inode_buf.
       bind (throw_if (i_nr_blocks inode_buf \<le> start_blk_num) MOFS_EINVAL) (\<lambda>_.
       let req_blk_num =
             (if i_nr_blocks inode_buf - start_blk_num < req_blk_num then i_nr_blocks inode_buf - start_blk_num
              else req_blk_num)
       in write_file_loop sb inode_num buf start_blk_num [0..<unat req_blk_num] 0))))"

section \<open>Entries in a buffer\<close>

definition cstr :: "byte list \<Rightarrow> byte list" where
  "cstr s = takeWhile (\<lambda>c. c \<noteq> 0) s"

definition dirent_name :: "byte list \<Rightarrow> nat \<Rightarrow> byte list" where
  "dirent_name buf j = cstr (drop (32 * j) buf)"

definition dirent_ino :: "byte list \<Rightarrow> nat \<Rightarrow> u32" where
  "dirent_ino buf j = get32 (32 * j + 28) buf"

definition dirent_live :: "byte list \<Rightarrow> nat \<Rightarrow> bool" where
  "dirent_live buf j = (dirent_ino buf j \<noteq> 0 \<and> dirent_name buf j \<noteq> [])"

text \<open>The image of an entry: the structure is cleared before the name is copied.\<close>

definition new_dirent :: "byte list \<Rightarrow> u32 \<Rightarrow> byte list" where
  "new_dirent name ino = name @ replicate (28 - length name) 0 @ put32 ino"

definition set_dirent_ino :: "byte list \<Rightarrow> nat \<Rightarrow> u32 \<Rightarrow> byte list" where
  "set_dirent_ino buf j ino = overwrite (32 * j + 28) (put32 ino) buf"

definition dirents_in :: "mofs_superblock \<Rightarrow> u32 \<Rightarrow> nat" where
  "dirents_in sb fraction = unat (if fraction \<noteq> 0 then fraction div 32 else sb_blk_size sb div 32)"

definition is_dot_or_dotdot_name :: "byte list \<Rightarrow> bool" where
  "is_dot_or_dotdot_name name = (name = [46] \<or> name = [46, 46])"

text \<open>A directory block is whole or the last one: \<open>read_blk_num\<close> and \<open>fraction\<close> fit together.\<close>

definition bad_dir_read :: "u32 \<Rightarrow> u32 \<Rightarrow> bool" where
  "bad_dir_read read_blk_num fraction =
     (\<not> ((read_blk_num = 1 \<and> fraction = 0) \<or> (read_blk_num = 0 \<and> fraction \<noteq> 0)))"

definition dir_blk_count :: "mofs_superblock \<Rightarrow> mofs_inode \<Rightarrow> u32" where
  "dir_blk_count sb inode = (i_size inode + sb_blk_size sb - 1) div sb_blk_size sb"

section \<open>Searching a directory\<close>

fun find_entry_loop :: "mofs_superblock \<Rightarrow> byte list \<Rightarrow> int \<Rightarrow> nat list \<Rightarrow> byte list \<Rightarrow> int mofs" where
  "find_entry_loop sb component parent_inode_num [] buf = throw MOFS_ENOENT"
| "find_entry_loop sb component parent_inode_num (i # rest) buf =
     bind (read_file_data_block parent_inode_num buf (word_of_nat i) 1) (\<lambda>(buf, read_blk_num, fraction).
     case first_idx (\<lambda>j. dirent_name buf j = component) [0..<dirents_in sb fraction] of
         Some j \<Rightarrow> ret (sint (dirent_ino buf j))
       | None \<Rightarrow> find_entry_loop sb component parent_inode_num rest buf)"

definition find_dir_entry :: "byte list \<Rightarrow> int \<Rightarrow> int mofs" where
  "find_dir_entry component parent_inode_num =
     bind (gets sp_blk) (\<lambda>sb.
     bind (throw_if (parent_inode_num < 0) MOFS_EINVAL) (\<lambda>_.
     with_malloc (unat (sb_blk_size sb)) (\<lambda>buf.
       bind (mofs_read_inode parent_inode_num) (\<lambda>inode_buf.
       find_entry_loop sb component parent_inode_num [0..<unat (dir_blk_count sb inode_buf)] buf))))"

fun empty_loop :: "mofs_superblock \<Rightarrow> int \<Rightarrow> nat list \<Rightarrow> byte list \<Rightarrow> bool mofs" where
  "empty_loop sb inode_num [] buf = ret True"
| "empty_loop sb inode_num (i # rest) buf =
     bind (read_file_data_block inode_num buf (word_of_nat i) 1) (\<lambda>(buf, read_blk_num, fraction).
     bind (throw_if (bad_dir_read read_blk_num fraction) MOFS_EIO) (\<lambda>_.
     if list_ex (\<lambda>j. dirent_live buf j \<and> \<not> is_dot_or_dotdot_name (dirent_name buf j)) [0..<dirents_in sb fraction]
     then ret False
     else empty_loop sb inode_num rest buf))"

definition is_directory_empty :: "int \<Rightarrow> bool mofs" where
  "is_directory_empty inode_num =
     bind (gets sp_blk) (\<lambda>sb.
     bind (throw_if (inode_num < 0) MOFS_EINVAL) (\<lambda>_.
     bind (mofs_read_inode inode_num) (\<lambda>inode.
     bind (throw_if (\<not> mode_has inode MOFS_FTYPE_DIR) MOFS_ENOTDIR) (\<lambda>_.
     with_malloc (unat (sb_blk_size sb)) (\<lambda>buf.
       empty_loop sb inode_num [0..<unat (dir_blk_count sb inode)] buf)))))"

section \<open>Removing an entry\<close>

text \<open>The entry that matches first becomes a tombstone of zeros.\<close>

fun remove_entry_loop :: "mofs_superblock \<Rightarrow> byte list \<Rightarrow> int \<Rightarrow> nat list \<Rightarrow> byte list \<Rightarrow> unit mofs" where
  "remove_entry_loop sb component parent_inode_num [] buf = throw MOFS_ENOENT"
| "remove_entry_loop sb component parent_inode_num (i # rest) buf =
     bind (read_file_data_block parent_inode_num buf (word_of_nat i) 1) (\<lambda>(buf, read_blk_num, fraction).
     bind (throw_if (bad_dir_read read_blk_num fraction) MOFS_EIO) (\<lambda>_.
     case first_idx (\<lambda>j. dirent_ino buf j \<noteq> 0 \<and> dirent_name buf j = component) [0..<dirents_in sb fraction] of
         Some j \<Rightarrow>
           bind (write_file_data_block parent_inode_num (overwrite (32 * j) (replicate 32 0) buf) (word_of_nat i) 1)
             (\<lambda>(written_blk_num, fraction).
           throw_if (written_blk_num \<noteq> 1 \<or> fraction \<noteq> 0) MOFS_EIO)
       | None \<Rightarrow> remove_entry_loop sb component parent_inode_num rest buf))"

definition remove_dir_entry :: "byte list \<Rightarrow> int \<Rightarrow> unit mofs" where
  "remove_dir_entry component parent_inode_num =
     bind (gets sp_blk) (\<lambda>sb.
     bind (throw_if (component = [] \<or> parent_inode_num < 0) MOFS_EINVAL) (\<lambda>_.
     with_malloc (unat (sb_blk_size sb)) (\<lambda>buf.
       bind (mofs_read_inode parent_inode_num) (\<lambda>parent_inode.
       bind (throw_if (\<not> mode_has parent_inode MOFS_FTYPE_DIR) MOFS_ENOTDIR) (\<lambda>_.
       bind (remove_entry_loop sb component parent_inode_num [0..<unat (dir_blk_count sb parent_inode)] buf) (\<lambda>_.
       bind (mofs_inode_stamp_now parent_inode (MOFS_INODE_TIME_MTIME OR MOFS_INODE_TIME_CTIME)) (\<lambda>parent_inode.
       mofs_write_inode parent_inode_num parent_inode)))))))"

section \<open>Adding an entry\<close>

text \<open>The first pass: a live entry with the same name is an error, the first slot that is not in
  use is remembered.\<close>

definition scan_slots :: "mofs_superblock \<Rightarrow> byte list \<Rightarrow> byte list \<Rightarrow> nat \<Rightarrow> nat \<Rightarrow> u32 option \<Rightarrow> u32 option res" where
  "scan_slots sb component buf blk_idx dirent_num reusable =
     (if list_ex (\<lambda>j. dirent_live buf j \<and> dirent_name buf j = component) [0..<dirent_num] then Inl MOFS_EEXIST
      else case reusable of
          Some idx \<Rightarrow> Inr (Some idx)
        | None \<Rightarrow>
            Inr (map_option (\<lambda>j. word_of_nat blk_idx * (sb_blk_size sb div 32) + word_of_nat j)
              (first_idx (\<lambda>j. \<not> dirent_live buf j) [0..<dirent_num])))"

fun add_scan_loop ::
  "mofs_superblock \<Rightarrow> byte list \<Rightarrow> int \<Rightarrow> nat list \<Rightarrow> byte list \<Rightarrow> u32 option \<Rightarrow> (byte list \<times> u32 option) mofs" where
  "add_scan_loop sb component parent_inode_num [] buf reusable = ret (buf, reusable)"
| "add_scan_loop sb component parent_inode_num (i # rest) buf reusable =
     bind (read_file_data_block parent_inode_num buf (word_of_nat i) 1) (\<lambda>(buf, read_blk_num, fraction).
     bind (throw_if (bad_dir_read read_blk_num fraction) MOFS_EIO) (\<lambda>_.
     bind (from_res (scan_slots sb component buf i (dirents_in sb fraction) reusable)) (\<lambda>reusable.
     add_scan_loop sb component parent_inode_num rest buf reusable)))"

text \<open>Storing the entry in its block and the inode of the directory.\<close>

definition put_entry ::
  "int \<Rightarrow> mofs_inode \<Rightarrow> byte list \<Rightarrow> u32 \<Rightarrow> u32 \<Rightarrow> bool \<Rightarrow> byte list \<Rightarrow> int \<Rightarrow> unit mofs" where
  "put_entry parent_inode_num parent_inode dirent_buf target_blk_idx target_in_blk found_reusable component child_inode_num =
     (let dirent_buf = overwrite (32 * unat target_in_blk) (new_dirent component (word_of_int child_inode_num)) dirent_buf in
      bind (write_file_data_block parent_inode_num dirent_buf target_blk_idx 1) (\<lambda>(written_blk_num, fraction).
      bind (throw_if (\<not> (written_blk_num = 1 \<and> fraction = 0)) MOFS_EIO) (\<lambda>_.
      bind (mofs_inode_stamp_now
              (if found_reusable then parent_inode else parent_inode\<lparr>i_size := i_size parent_inode + 32\<rparr>)
              (MOFS_INODE_TIME_MTIME OR MOFS_INODE_TIME_CTIME)) (\<lambda>parent_inode.
      mofs_write_inode parent_inode_num parent_inode))))"

definition add_dir_entry :: "byte list \<Rightarrow> int \<Rightarrow> int \<Rightarrow> unit mofs" where
  "add_dir_entry component parent_inode_num child_inode_num =
     bind (gets sp_blk) (\<lambda>sb.
     let bs = unat (sb_blk_size sb);
         entries_per_blk = sb_blk_size sb div 32;
         max_entry_num = MOFS_MAX_FILE_DATA_BLOCKS * (sb_blk_size sb div 32)
     in
     bind (throw_if (component = [] \<or> parent_inode_num < 0 \<or> child_inode_num \<le> 0 \<or>
             uint (sb_inode_num sb) \<le> child_inode_num) MOFS_EINVAL) (\<lambda>_.
     bind (throw_if (length component = 0 \<or> MOFS_FILENAME_LEN \<le> length component) MOFS_EINVAL) (\<lambda>_.
     with_malloc bs (\<lambda>dirent_buf.
       bind (mofs_read_inode parent_inode_num) (\<lambda>parent_inode.
       bind (throw_if (\<not> mode_has parent_inode MOFS_FTYPE_DIR) MOFS_ENOTDIR) (\<lambda>_.
       bind (throw_if (i_size parent_inode mod 32 \<noteq> 0) MOFS_EIO) (\<lambda>_.
       let old_blk_num = dir_blk_count sb parent_inode;
           append_entry_idx = i_size parent_inode div 32
       in
       bind (throw_if (max_entry_num \<le> append_entry_idx) MOFS_EFBIG) (\<lambda>_.
       bind (add_scan_loop sb component parent_inode_num [0..<unat old_blk_num] dirent_buf None) (\<lambda>(dirent_buf, reusable).
       let target_entry_idx = (case reusable of Some idx \<Rightarrow> idx | None \<Rightarrow> append_entry_idx);
           target_blk_idx = target_entry_idx div entries_per_blk;
           target_in_blk = target_entry_idx mod entries_per_blk
       in
       if old_blk_num \<le> target_blk_idx then
         bind (throw_if (MOFS_MAX_FILE_DATA_BLOCKS \<le> old_blk_num) MOFS_EFBIG) (\<lambda>_.
         bind (allocate_data_block parent_inode_num 1) (\<lambda>_.
         on_error
           (put_entry parent_inode_num parent_inode (replicate bs 0) target_blk_idx target_in_blk (reusable \<noteq> None)
              component child_inode_num)
           (free_data_block parent_inode_num target_blk_idx 1)))
       else
         bind (read_file_data_block parent_inode_num dirent_buf target_blk_idx 1) (\<lambda>(dirent_buf, read_blk_num, fraction).
         bind (throw_if (bad_dir_read read_blk_num fraction) MOFS_EIO) (\<lambda>_.
         put_entry parent_inode_num parent_inode dirent_buf target_blk_idx target_in_blk (reusable \<noteq> None)
           component child_inode_num)))))))))))"

section \<open>The entries of a new directory and its parent entry\<close>

definition dot_entries :: "nat \<Rightarrow> int \<Rightarrow> int \<Rightarrow> byte list" where
  "dot_entries bs child_inode_num parent_inode_num =
     overwrite 32 (new_dirent [46, 46] (word_of_int parent_inode_num))
       (overwrite 0 (new_dirent [46] (word_of_int child_inode_num)) (replicate bs 0))"

definition write_dot_entries :: "int \<Rightarrow> int \<Rightarrow> unit mofs" where
  "write_dot_entries child_inode_num parent_inode_num =
     bind (gets sp_blk) (\<lambda>sb.
     with_malloc (unat (sb_blk_size sb)) (\<lambda>_.
       bind (write_file_data_block child_inode_num
               (dot_entries (unat (sb_blk_size sb)) child_inode_num parent_inode_num) 0 1) (\<lambda>(written_blk_num, fraction).
       throw_if (written_blk_num \<noteq> 1 \<or> fraction \<noteq> 0) MOFS_EIO)))"

text \<open>The slot of the \<open>..\<close> entry in the first block of a directory.\<close>

definition dotdot_slot :: "mofs_superblock \<Rightarrow> byte list \<Rightarrow> nat option" where
  "dotdot_slot sb buf =
     first_idx (\<lambda>j. dirent_ino buf j \<noteq> 0 \<and> dirent_name buf j = [46, 46]) [0..<unat (sb_blk_size sb div 32)]"

definition read_dotdot_parent :: "int \<Rightarrow> int mofs" where
  "read_dotdot_parent dir_inode =
     bind (gets sp_blk) (\<lambda>sb.
     with_malloc (unat (sb_blk_size sb)) (\<lambda>buf.
       bind (read_file_data_block dir_inode buf 0 1) (\<lambda>(buf, read_blk_num, fraction).
       bind (throw_if (read_blk_num \<noteq> 1 \<or> fraction \<noteq> 0) MOFS_EIO) (\<lambda>_.
       case dotdot_slot sb buf of
           None \<Rightarrow> throw MOFS_EIO
         | Some slot \<Rightarrow> ret (sint (dirent_ino buf slot))))))"

definition rewrite_dotdot :: "int \<Rightarrow> int \<Rightarrow> unit mofs" where
  "rewrite_dotdot dir_inode new_parent =
     bind (gets sp_blk) (\<lambda>sb.
     with_malloc (unat (sb_blk_size sb)) (\<lambda>buf.
       bind (read_file_data_block dir_inode buf 0 1) (\<lambda>(buf, read_blk_num, fraction).
       bind (throw_if (read_blk_num \<noteq> 1 \<or> fraction \<noteq> 0) MOFS_EIO) (\<lambda>_.
       case dotdot_slot sb buf of
           None \<Rightarrow> throw MOFS_EIO
         | Some slot \<Rightarrow>
             bind (write_file_data_block dir_inode (set_dirent_ino buf slot (word_of_int new_parent)) 0 1)
               (\<lambda>(written_blk_num, fraction).
             throw_if (written_blk_num \<noteq> 1 \<or> fraction \<noteq> 0) MOFS_EIO)))))"

fun ancestor_loop :: "nat \<Rightarrow> int \<Rightarrow> int \<Rightarrow> bool mofs" where
  "ancestor_loop 0 ancestor cursor = ret False"
| "ancestor_loop (Suc guard) ancestor cursor =
     (if cursor = ancestor then ret True
      else if cursor = MOFS_ROOT_INODE_NUM then ret False
      else bind (read_dotdot_parent cursor) (\<lambda>parent.
           if parent = cursor then ret False else ancestor_loop guard ancestor parent))"

definition directory_is_ancestor :: "int \<Rightarrow> int \<Rightarrow> bool mofs" where
  "directory_is_ancestor ancestor start =
     bind (gets sp_blk) (\<lambda>sb. ancestor_loop (unat (sb_inode_num sb)) ancestor start)"

definition adjust_dir_nlink :: "int \<Rightarrow> int \<Rightarrow> unit mofs" where
  "adjust_dir_nlink inode_num delta =
     bind (mofs_read_inode inode_num) (\<lambda>inode.
     bind (throw_if (delta < 0 \<and> i_links inode = 0) MOFS_EIO) (\<lambda>_.
     bind (mofs_inode_stamp_now (inode\<lparr>i_links := word_of_int (uint (i_links inode) + delta)\<rparr>)
             (MOFS_INODE_TIME_MTIME OR MOFS_INODE_TIME_CTIME)) (\<lambda>inode.
     mofs_write_inode inode_num inode)))"

end
