(* ===== verification/Mofs_Path.thy ===== *)
theory Mofs_Path
  imports Mofs_Dirent
begin

text \<open>
  Path resolution, \<open>src/core/modules/mofs_path.c\<close>: a walk from the root directory along the
  components of an absolute path, with search permission checked on the way.

  A path is a C string without its terminating zero byte, and \<open>None\<close> the NULL pointer.
\<close>

unbundle bit_operations_syntax

type_synonym path = "byte list option"

definition MOFS_PATH_RESOLVE_INODE :: u32 where "MOFS_PATH_RESOLVE_INODE = 0x01"
definition MOFS_PATH_RESOLVE_PARENT :: u32 where "MOFS_PATH_RESOLVE_PARENT = 0x02"
definition MOFS_PATH_ALLOW_MISSING_LEAF :: u32 where "MOFS_PATH_ALLOW_MISSING_LEAF = 0x04"
definition MOFS_PATH_CHECK_ACCESS :: u32 where "MOFS_PATH_CHECK_ACCESS = 0x08"

lemmas path_flag_defs =
  MOFS_PATH_RESOLVE_INODE_def MOFS_PATH_RESOLVE_PARENT_def MOFS_PATH_ALLOW_MISSING_LEAF_def MOFS_PATH_CHECK_ACCESS_def

record mofs_path_info =
  parent_inode_num :: int
  leaf_inode_num :: int
  leaf_found :: bool
  leaf_name :: "byte list"

text \<open>The caller is \<open>None\<close> when access is not checked.\<close>

definition check_parent_traverse :: "mofs_user_ctx option \<Rightarrow> int \<Rightarrow> unit mofs" where
  "check_parent_traverse user parent_inode =
     (case user of
        None \<Rightarrow> ret ()
      | Some user \<Rightarrow>
          if parent_inode = MOFS_ROOT_INODE_NUM then ret ()
          else bind (mofs_read_inode parent_inode) (\<lambda>inode.
               bind (throw_if (\<not> mode_has inode MOFS_FTYPE_DIR) MOFS_ENOTDIR) (\<lambda>_.
               mofs_check_dir_traverse user inode)))"

text \<open>The last component: its lookup may fail for any reason when a missing leaf is allowed.\<close>

definition resolve_leaf ::
  "bool \<Rightarrow> bool \<Rightarrow> bool \<Rightarrow> mofs_user_ctx option \<Rightarrow> int \<Rightarrow> byte list \<Rightarrow> mofs_path_info mofs" where
  "resolve_leaf require_leaf_inode require_parent allow_missing_leaf user parent_inode current =
     bind (throw_if (MOFS_FILENAME_LEN \<le> length current) MOFS_ENAMETOOLONG) (\<lambda>_.
     let path_info = \<lparr>parent_inode_num = (if require_parent then parent_inode else -1), leaf_inode_num = -1,
           leaf_found = False, leaf_name = current\<rparr>
     in if \<not> require_leaf_inode then ret path_info
        else bind (check_parent_traverse user parent_inode) (\<lambda>_.
             bind (attempt (find_dir_entry current parent_inode)) (\<lambda>r. case r of
                 Inr child_inode \<Rightarrow>
                   if 0 \<le> child_inode then ret (path_info\<lparr>leaf_inode_num := child_inode, leaf_found := True\<rparr>)
                   else if allow_missing_leaf then ret path_info else throw MOFS_ENOENT
               | Inl _ \<Rightarrow> if allow_missing_leaf then ret path_info else throw MOFS_ENOENT)))"

fun resolve_walk ::
  "bool \<Rightarrow> bool \<Rightarrow> bool \<Rightarrow> mofs_user_ctx option \<Rightarrow> int \<Rightarrow> byte list list \<Rightarrow> mofs_path_info mofs" where
  "resolve_walk require_leaf_inode require_parent allow_missing_leaf user parent_inode [] = throw MOFS_EINVAL"
| "resolve_walk require_leaf_inode require_parent allow_missing_leaf user parent_inode [current] =
     resolve_leaf require_leaf_inode require_parent allow_missing_leaf user parent_inode current"
| "resolve_walk require_leaf_inode require_parent allow_missing_leaf user parent_inode (current # nxt # rest) =
     bind (check_parent_traverse user parent_inode) (\<lambda>_.
     bind (attempt (find_dir_entry current parent_inode)) (\<lambda>r. case r of
         Inl _ \<Rightarrow> throw MOFS_ENOENT
       | Inr child_inode \<Rightarrow>
           if child_inode < 0 then throw MOFS_ENOENT
           else resolve_walk require_leaf_inode require_parent allow_missing_leaf user child_inode (nxt # rest)))"

definition mofs_resolve_path :: "path \<Rightarrow> u32 \<Rightarrow> mofs_path_info mofs" where
  "mofs_resolve_path path resolve_flags =
     (case path of
        None \<Rightarrow> throw MOFS_EINVAL
      | Some path \<Rightarrow>
          let require_leaf_inode = (resolve_flags AND MOFS_PATH_RESOLVE_INODE \<noteq> 0);
              require_parent = (resolve_flags AND MOFS_PATH_RESOLVE_PARENT \<noteq> 0);
              allow_missing_leaf = (resolve_flags AND MOFS_PATH_ALLOW_MISSING_LEAF \<noteq> 0);
              check_access = (resolve_flags AND MOFS_PATH_CHECK_ACCESS \<noteq> 0)
          in
          bind (throw_if (path = [] \<or> hd path \<noteq> 47) MOFS_EINVAL) (\<lambda>_.
          bind (throw_if (\<not> require_leaf_inode \<and> \<not> require_parent) MOFS_EINVAL) (\<lambda>_.
          bind (throw_if (allow_missing_leaf \<and> \<not> require_leaf_inode) MOFS_EINVAL) (\<lambda>_.
          bind (if check_access then
                  bind mofs_get_caller_user (\<lambda>user.
                  bind (throw_if (\<not> u_valid user) MOFS_EPERM) (\<lambda>_. ret (Some user)))
                else ret None) (\<lambda>user.
          if path = [47] then
            bind (throw_if require_parent MOFS_EINVAL) (\<lambda>_.
            ret \<lparr>parent_inode_num = -1, leaf_inode_num = MOFS_ROOT_INODE_NUM, leaf_found = True, leaf_name = []\<rparr>)
          else with_malloc (length path + 1) (\<lambda>_.
            resolve_walk require_leaf_inode require_parent allow_missing_leaf user MOFS_ROOT_INODE_NUM
              (tokens [47] path)))))))"

definition mofs_path_to_inode_num :: "path \<Rightarrow> int mofs" where
  "mofs_path_to_inode_num path =
     bind (mofs_resolve_path path (MOFS_PATH_RESOLVE_INODE OR MOFS_PATH_CHECK_ACCESS)) (\<lambda>path_info.
     ret (leaf_inode_num path_info))"

definition mofs_path_to_parent_and_component :: "path \<Rightarrow> (int \<times> byte list) mofs" where
  "mofs_path_to_parent_and_component path =
     bind (mofs_resolve_path path (MOFS_PATH_RESOLVE_PARENT OR MOFS_PATH_CHECK_ACCESS)) (\<lambda>path_info.
     ret (parent_inode_num path_info, leaf_name path_info))"

text \<open>The combinations of flags the callers use.\<close>

definition MOFS_PATH_EXISTING :: u32 where
  "MOFS_PATH_EXISTING = MOFS_PATH_RESOLVE_PARENT OR MOFS_PATH_RESOLVE_INODE OR MOFS_PATH_CHECK_ACCESS"

definition MOFS_PATH_TARGET :: u32 where
  "MOFS_PATH_TARGET = MOFS_PATH_RESOLVE_PARENT OR MOFS_PATH_RESOLVE_INODE OR MOFS_PATH_ALLOW_MISSING_LEAF OR
     MOFS_PATH_CHECK_ACCESS"

text \<open>The caller's credentials, which must be valid.\<close>

definition require_caller :: "mofs_user_ctx mofs" where
  "require_caller =
     bind mofs_get_caller_user (\<lambda>user.
     bind (throw_if (\<not> u_valid user) MOFS_EPERM) (\<lambda>_. ret user))"

end
