(* ===== verification/Mofs_File.thy ===== *)
theory Mofs_File
  imports Mofs_Path
begin

text \<open>
  Files, \<open>src/core/modules/mofs_file.c\<close>: creating, removing, opening and closing, reading and
  writing through a handle, truncation and attributes.

  A handle is an index into the pool of file handles, and \<open>None\<close> the NULL pointer. The bytes a
  read stores in the caller's buffer are its result. Offsets are \<open>mofs_off_t\<close>, signed numbers of
  64 bits, sizes unsigned numbers of 32 bits; a scratch buffer has the size the code computes with
  32 bits, and storing outside it is undefined.
\<close>

unbundle bit_operations_syntax

section \<open>Handles\<close>

type_synonym handle = "nat option"

definition get_free_filehandle_index :: "world \<Rightarrow> nat option" where
  "get_free_filehandle_index w = first_idx (\<lambda>h. \<not> fh_used h) (w_files w)"

definition set_filehandle :: "nat \<Rightarrow> mofs_filehandle \<Rightarrow> unit mofs" where
  "set_filehandle i h = modify (\<lambda>w. w\<lparr>w_files := (w_files w)[i := h]\<rparr>)"

text \<open>\<open>(*handle == NULL) || ((*handle)->used == MOFS_FALSE)\<close> is refused with EINVAL.\<close>

definition used_filehandle :: "handle \<Rightarrow> (nat \<times> mofs_filehandle) mofs" where
  "used_filehandle handle =
     (case handle of
        None \<Rightarrow> throw MOFS_EINVAL
      | Some i \<Rightarrow>
          bind (gets w_files) (\<lambda>pool.
          if length pool \<le> i then diverge
          else bind (throw_if (\<not> fh_used (pool ! i)) MOFS_EINVAL) (\<lambda>_. ret (i, pool ! i))))"

definition mofs_max_file_bytes :: "mofs_superblock \<Rightarrow> u64" where
  "mofs_max_file_bytes sb = ucast MOFS_MAX_FILE_DATA_BLOCKS * ucast (sb_blk_size sb)"

section \<open>Creating and removing\<close>

definition new_inode :: "u32 \<Rightarrow> u16 \<Rightarrow> u32 \<Rightarrow> mofs_user_ctx \<Rightarrow> mofs_inode" where
  "new_inode ftype links mode user =
     zero_inode\<lparr>i_links := links, i_mode := ucast (ftype OR (mode AND 0x1FF)), i_uid := u_uid user, i_gid := u_gid user\<rparr>"

definition mofs_create_core :: "path \<Rightarrow> u32 \<Rightarrow> int mofs" where
  "mofs_create_core path mode =
     bind (throw_if (path = None) MOFS_EINVAL) (\<lambda>_.
     bind (mofs_resolve_path path MOFS_PATH_TARGET) (\<lambda>path_info.
     bind (throw_if (leaf_found path_info) MOFS_EEXIST) (\<lambda>_.
     bind require_caller (\<lambda>user.
     bind (mofs_read_inode (parent_inode_num path_info)) (\<lambda>parent_inode.
     bind (mofs_check_dir_write user parent_inode) (\<lambda>_.
     bind allocate_inode (\<lambda>allocated_inode_num.
     on_error
       (bind (mofs_inode_stamp_now (new_inode MOFS_FTYPE_REG 1 mode user) MOFS_INODE_TIME_ALL) (\<lambda>inode_buf.
        bind (mofs_write_inode allocated_inode_num inode_buf) (\<lambda>_.
        bind (add_dir_entry (leaf_name path_info) (parent_inode_num path_info) allocated_inode_num) (\<lambda>_.
        ret allocated_inode_num))))
       (free_inode allocated_inode_num))))))))"

definition mofs_unlink_core :: "path \<Rightarrow> unit mofs" where
  "mofs_unlink_core path =
     bind (mofs_resolve_path path MOFS_PATH_EXISTING) (\<lambda>path_info.
     let target_inode_num = leaf_inode_num path_info in
     bind require_caller (\<lambda>user.
     bind (mofs_read_inode (parent_inode_num path_info)) (\<lambda>parent_inode.
     bind (mofs_check_dir_write user parent_inode) (\<lambda>_.
     bind (mofs_read_inode target_inode_num) (\<lambda>target_inode.
     bind (throw_if (mode_has target_inode MOFS_FTYPE_DIR) MOFS_EISDIR) (\<lambda>_.
     bind (remove_dir_entry (leaf_name path_info) (parent_inode_num path_info)) (\<lambda>_.
     bind (if 0 < i_nr_blocks target_inode then free_data_block target_inode_num 0 (i_nr_blocks target_inode)
           else ret ()) (\<lambda>_.
     free_inode target_inode_num))))))))"

section \<open>Opening and closing\<close>

definition mofs_open_core :: "path \<Rightarrow> u32 \<Rightarrow> u32 \<Rightarrow> nat mofs" where
  "mofs_open_core path flags mode =
     bind (throw_if (path = None) MOFS_EINVAL) (\<lambda>_.
     bind require_caller (\<lambda>user.
     bind (attempt (mofs_path_to_inode_num path)) (\<lambda>r.
     bind (case r of
             Inr inode_num \<Rightarrow>
               bind (throw_if (flags AND MOFS_OFLAG_CREAT \<noteq> 0 \<and> flags AND MOFS_OFLAG_EXCL \<noteq> 0) MOFS_EEXIST) (\<lambda>_.
               ret inode_num)
           | Inl e \<Rightarrow>
               if e = MOFS_ENOENT \<and> flags AND MOFS_OFLAG_CREAT \<noteq> 0 then mofs_create_core path mode else throw e)
       (\<lambda>inode_num.
     bind (mofs_read_inode inode_num) (\<lambda>inode.
     bind (throw_if (flags AND MOFS_OFLAG_DIRECTORY \<noteq> 0 \<and> \<not> mode_has inode MOFS_FTYPE_DIR) MOFS_ENOTDIR) (\<lambda>_.
     bind (mofs_check_open_permission flags user inode) (\<lambda>_.
     bind (gets get_free_filehandle_index) (\<lambda>index. case index of
         None \<Rightarrow> throw MOFS_ENFILE
       | Some i \<Rightarrow>
           bind (set_filehandle i \<lparr>fh_used = True, fh_inode_num = inode_num, fh_file_offset = 0, fh_open_flags = flags\<rparr>)
             (\<lambda>_. ret i)))))))))"

definition mofs_close_core :: "handle \<Rightarrow> unit mofs" where
  "mofs_close_core handle =
     bind (used_filehandle handle) (\<lambda>(i, h).
     set_filehandle i \<lparr>fh_used = False, fh_inode_num = 0, fh_file_offset = 0, fh_open_flags = 0\<rparr>)"

section \<open>Reading\<close>

text \<open>The transfer of a read, after the checks.\<close>

definition read_blocks_of :: "mofs_superblock \<Rightarrow> nat \<Rightarrow> mofs_filehandle \<Rightarrow> u32 \<Rightarrow> int \<Rightarrow> bool \<Rightarrow> byte list mofs" where
  "read_blocks_of sb i h sz offset update_offset =
     (let bs = uint (sb_blk_size sb);
          pos = offset mod bs;
          req_blk_num = word_of_int ((pos + uint sz + bs - 1) div bs) :: u32
      in with_malloc (unat (req_blk_num * sb_blk_size sb)) (\<lambda>buf_tmp.
        bind (read_file_data_block (fh_inode_num h) buf_tmp (word_of_int (offset div bs)) req_blk_num)
          (\<lambda>(buf_tmp, read_blk_num, fraction).
        let total = read_blk_num * sb_blk_size sb + fraction;
            read_size = (if uint total < pos then 0 else word_of_int (uint total - pos)) :: u32;
            read_size = (if sz < read_size then sz else read_size)
        in if length buf_tmp < nat pos + unat read_size then diverge
           else
             bind (if update_offset
                   then set_filehandle i (h\<lparr>fh_file_offset := word_of_int (offset + uint read_size)\<rparr>) else ret ()) (\<lambda>_.
             bind (if 0 < read_size then mofs_inode_stamp_persist (fh_inode_num h) MOFS_INODE_TIME_ATIME else ret ()) (\<lambda>_.
             ret (chunk (nat pos) (unat read_size) buf_tmp))))))"

definition mofs_read_core :: "handle \<Rightarrow> u32 \<Rightarrow> int \<Rightarrow> bool \<Rightarrow> byte list mofs" where
  "mofs_read_core handle sz offset update_offset =
     bind (gets sp_blk) (\<lambda>sb.
     bind (used_filehandle handle) (\<lambda>(i, h).
     bind (throw_if (sz = 0 \<or> offset < 0) MOFS_EINVAL) (\<lambda>_.
     bind (throw_if (fh_open_flags h AND MOFS_OFLAG_RDONLY = 0) MOFS_EBADF) (\<lambda>_.
     bind (mofs_read_inode (fh_inode_num h)) (\<lambda>inode.
     bind require_caller (\<lambda>user.
     bind (mofs_check_open_permission (fh_open_flags h) user inode) (\<lambda>_.
     bind (throw_if (mode_has inode MOFS_FTYPE_DIR) MOFS_EISDIR) (\<lambda>_.
     read_blocks_of sb i h sz offset update_offset))))))))"

section \<open>Writing\<close>

text \<open>The loop that loads the blocks a write changes in part.\<close>

fun preload_loop :: "mofs_superblock \<Rightarrow> int \<Rightarrow> u32 \<Rightarrow> u32 \<Rightarrow> nat list \<Rightarrow> byte list \<Rightarrow> byte list mofs" where
  "preload_loop sb inode_num start_blk_num current_blk_num [] buf_tmp = ret buf_tmp"
| "preload_loop sb inode_num start_blk_num current_blk_num (i # rest) buf_tmp =
     (let bs = unat (sb_blk_size sb); file_blk_num = start_blk_num + word_of_nat i in
      if current_blk_num \<le> file_blk_num then preload_loop sb inode_num start_blk_num current_blk_num rest buf_tmp
      else
        bind (resolve_file_data_block inode_num file_blk_num) (\<lambda>abs_blk_num.
        bind (throw_if (outside_data_region sb abs_blk_num) MOFS_EIO) (\<lambda>_.
        if length buf_tmp < i * bs + bs then diverge
        else
          bind (gets dev_fd) (\<lambda>fd.
          bind (read_continuous_blocks fd (chunk (i * bs) bs buf_tmp) 1 abs_blk_num) (\<lambda>(blk, read_blk_num, fraction).
          bind (throw_if (read_blk_num \<noteq> 1 \<or> fraction \<noteq> 0) MOFS_EIO) (\<lambda>_.
          preload_loop sb inode_num start_blk_num current_blk_num rest (overwrite (i * bs) blk buf_tmp)))))))"

text \<open>Zeros from the old end of the file to the write offset, as far as they lie in the buffer.\<close>

definition zero_gap :: "nat \<Rightarrow> nat \<Rightarrow> nat \<Rightarrow> byte list \<Rightarrow> byte list" where
  "zero_gap start_off from_off to_off buf_tmp =
     (let zero_from_off = max from_off start_off in
      if zero_from_off < to_off
      then overwrite (zero_from_off - start_off) (replicate (to_off - zero_from_off) 0) buf_tmp else buf_tmp)"

text \<open>The end of a write: the number of bytes written, the size and times of the inode, the offset.\<close>

definition finish_write ::
  "mofs_superblock \<Rightarrow> nat \<Rightarrow> mofs_filehandle \<Rightarrow> mofs_inode \<Rightarrow> u32 \<Rightarrow> int \<Rightarrow> bool \<Rightarrow> u32 \<Rightarrow> u32 \<Rightarrow> u32 mofs" where
  "finish_write sb i h inode write_size_req offset update_offset written_blk_num fraction =
     (let write_pos_in_blk = word_of_int (offset mod uint (sb_blk_size sb)) :: u32;
          total_write_size = written_blk_num * sb_blk_size sb + fraction;
          written_size = (if total_write_size < write_pos_in_blk then 0
            else min (total_write_size - write_pos_in_blk) write_size_req);
          write_end_offset = nat offset + unat written_size;
          inode = (if unat (i_size inode) < write_end_offset
            then inode\<lparr>i_size := word_of_nat write_end_offset\<rparr> else inode)
      in
      bind (attempt (if 0 < written_size then
          bind (mofs_inode_stamp_now inode (MOFS_INODE_TIME_MTIME OR MOFS_INODE_TIME_CTIME)) (\<lambda>inode.
          mofs_write_inode (fh_inode_num h) inode) else ret ())) (\<lambda>r.
      bind (if update_offset
            then set_filehandle i (h\<lparr>fh_file_offset := word_of_nat write_end_offset\<rparr>) else ret ()) (\<lambda>_.
      bind (from_res r) (\<lambda>_. ret written_size))))"

text \<open>The part of a write that follows the allocation: \<open>undo\<close> releases the new blocks when an error
  occurs before the first block is written.\<close>

definition write_blocks_of ::
  "mofs_superblock \<Rightarrow> nat \<Rightarrow> mofs_filehandle \<Rightarrow> mofs_inode \<Rightarrow> u32 \<Rightarrow> byte list \<Rightarrow> u32 \<Rightarrow> int \<Rightarrow> bool \<Rightarrow> unit mofs \<Rightarrow> u32 mofs" where
  "write_blocks_of sb i h inode old_size buf write_size_req offset update_offset undo =
     (let bs = sb_blk_size sb;
          start_blk_num = word_of_int (offset div uint bs) :: u32;
          write_pos_in_blk = word_of_int (offset mod uint bs) :: u32;
          req_blk_num = (write_pos_in_blk + write_size_req + bs - 1) div bs;
          current_blk_num = (old_size + bs - 1) div bs
      in with_malloc_opt (unat (req_blk_num * bs)) (\<lambda>p. case p of
          None \<Rightarrow> bind (ignore undo) (\<lambda>_. throw MOFS_ENOMEM)
        | Some buf_tmp \<Rightarrow>
            bind (on_error
                (preload_loop sb (fh_inode_num h) start_blk_num current_blk_num [0..<unat req_blk_num]
                   (replicate (length buf_tmp) 0))
                undo) (\<lambda>buf_tmp.
            let buf_tmp = (if int (unat old_size) < offset
                  then zero_gap (unat start_blk_num * unat bs) (unat old_size) (nat offset) buf_tmp else buf_tmp)
            in if length buf < unat write_size_req \<or> length buf_tmp < unat write_pos_in_blk + unat write_size_req
               then diverge
               else
                 bind (write_file_data_block (fh_inode_num h)
                         (overwrite (unat write_pos_in_blk) (take (unat write_size_req) buf) buf_tmp)
                         start_blk_num req_blk_num) (\<lambda>(written_blk_num, fraction).
                 finish_write sb i h inode write_size_req offset update_offset written_blk_num fraction))))"

definition mofs_write_core :: "handle \<Rightarrow> byte list option \<Rightarrow> u32 \<Rightarrow> int \<Rightarrow> bool \<Rightarrow> u32 mofs" where
  "mofs_write_core handle buf sz offset update_offset =
     bind (gets sp_blk) (\<lambda>sb.
     bind (used_filehandle handle) (\<lambda>(i, h).
     case buf of None \<Rightarrow> throw MOFS_EINVAL | Some buf \<Rightarrow>
     bind (throw_if (sz = 0 \<or> offset < 0) MOFS_EINVAL) (\<lambda>_.
     bind (throw_if (fh_open_flags h AND MOFS_OFLAG_WRONLY = 0) MOFS_EBADF) (\<lambda>_.
     bind (mofs_read_inode (fh_inode_num h)) (\<lambda>inode.
     bind require_caller (\<lambda>user.
     bind (mofs_check_open_permission (fh_open_flags h AND MOFS_OFLAG_ACCMODE) user inode) (\<lambda>_.
     bind (throw_if (mode_has inode MOFS_FTYPE_DIR) MOFS_EISDIR) (\<lambda>_.
     let old_size = i_size inode;
         bs = sb_blk_size sb;
         max_file_size = mofs_max_file_bytes sb;
         write_size_req = min sz (ucast (max_file_size - word_of_int offset))
     in
     bind (throw_if (max_file_size \<le> word_of_int offset) MOFS_EFBIG) (\<lambda>_.
     if write_size_req = 0 then ret 0
     else
       let start_blk_num = word_of_int (offset div uint bs) :: u32;
           write_pos_in_blk = word_of_int (offset mod uint bs) :: u32;
           req_blk_num = (write_pos_in_blk + write_size_req + bs - 1) div bs;
           current_blk_num = (old_size + bs - 1) div bs
       in if current_blk_num < start_blk_num + req_blk_num then
            let required_blk_num = start_blk_num + req_blk_num - current_blk_num;
                undo = ignore (free_data_block (fh_inode_num h) current_blk_num required_blk_num)
            in
            bind (allocate_data_block (fh_inode_num h) required_blk_num) (\<lambda>_.
            bind (on_error (mofs_read_inode (fh_inode_num h)) undo) (\<lambda>inode.
            write_blocks_of sb i h inode old_size buf write_size_req offset update_offset undo))
          else write_blocks_of sb i h inode old_size buf write_size_req offset update_offset (ret ()))))))))))"

section \<open>Truncation\<close>

definition zero_partial_block_tail :: "int \<Rightarrow> u32 \<Rightarrow> u32 \<Rightarrow> unit mofs" where
  "zero_partial_block_tail inode_num blk_idx tail_start =
     bind (gets sp_blk) (\<lambda>sb.
     let bs = unat (sb_blk_size sb) in
     bind (throw_if (sb_blk_size sb \<le> tail_start) MOFS_EINVAL) (\<lambda>_.
     with_malloc bs (\<lambda>buf.
       bind (resolve_file_data_block inode_num blk_idx) (\<lambda>abs_blk_num.
       bind (gets dev_fd) (\<lambda>fd.
       bind (attempt (read_continuous_blocks fd buf 1 abs_blk_num)) (\<lambda>r. case r of
           Inl _ \<Rightarrow> throw MOFS_EIO
         | Inr (buf, read_blk_num, fraction) \<Rightarrow>
             if read_blk_num \<noteq> 1 \<or> fraction \<noteq> 0 then throw MOFS_EIO
             else
               bind (attempt (write_continuous_blocks fd
                       (overwrite (unat tail_start) (replicate (bs - unat tail_start) 0) buf) 1 abs_blk_num)) (\<lambda>r. case r of
                   Inl _ \<Rightarrow> throw MOFS_EIO
                 | Inr (written_blk_num, written_fraction) \<Rightarrow>
                     throw_if (written_blk_num \<noteq> 1 \<or> written_fraction \<noteq> 0) MOFS_EIO)))))))"

fun zero_preload_loop :: "mofs_superblock \<Rightarrow> int \<Rightarrow> u32 \<Rightarrow> u32 \<Rightarrow> nat list \<Rightarrow> byte list \<Rightarrow> byte list mofs" where
  "zero_preload_loop sb inode_num start_blk_num current_blk_num [] buf_tmp = ret buf_tmp"
| "zero_preload_loop sb inode_num start_blk_num current_blk_num (i # rest) buf_tmp =
     (let bs = unat (sb_blk_size sb); file_blk_num = start_blk_num + word_of_nat i in
      if current_blk_num \<le> file_blk_num then zero_preload_loop sb inode_num start_blk_num current_blk_num rest buf_tmp
      else
        bind (resolve_file_data_block inode_num file_blk_num) (\<lambda>abs_blk_num.
        if length buf_tmp < i * bs + bs then diverge
        else
          bind (gets dev_fd) (\<lambda>fd.
          bind (attempt (read_continuous_blocks fd (chunk (i * bs) bs buf_tmp) 1 abs_blk_num)) (\<lambda>r. case r of
              Inl _ \<Rightarrow> throw MOFS_EIO
            | Inr (blk, read_blk_num, fraction) \<Rightarrow>
                if read_blk_num \<noteq> 1 \<or> fraction \<noteq> 0 then throw MOFS_EIO
                else zero_preload_loop sb inode_num start_blk_num current_blk_num rest (overwrite (i * bs) blk buf_tmp)))))"

definition zero_file_byte_range :: "int \<Rightarrow> u32 \<Rightarrow> u32 \<Rightarrow> unit mofs" where
  "zero_file_byte_range inode_num from_off to_off =
     bind (gets sp_blk) (\<lambda>sb.
     if to_off \<le> from_off then ret ()
     else
       bind (mofs_read_inode inode_num) (\<lambda>inode.
       let bs = sb_blk_size sb;
           start_blk_num = from_off div bs;
           req_blk_num = (to_off - 1) div bs - start_blk_num + 1;
           current_blk_num = (i_size inode + bs - 1) div bs
       in with_malloc (unat (req_blk_num * bs)) (\<lambda>buf_tmp.
         bind (zero_preload_loop sb inode_num start_blk_num current_blk_num [0..<unat req_blk_num]
                 (replicate (length buf_tmp) 0)) (\<lambda>buf_tmp.
         bind (write_file_data_block inode_num
                 (zero_gap (unat start_blk_num * unat bs) (unat from_off) (unat to_off) buf_tmp)
                 start_blk_num req_blk_num) (\<lambda>_. ret ())))))"

definition shrink_inode :: "mofs_superblock \<Rightarrow> int \<Rightarrow> mofs_inode \<Rightarrow> u32 \<Rightarrow> unit mofs" where
  "shrink_inode sb inode_num inode new_size =
     (let bs = sb_blk_size sb;
          keep_blks = (if new_size = 0 then 0 else (new_size + bs - 1) div bs)
      in
      bind (if 0 < new_size \<and> new_size mod bs \<noteq> 0 \<and> 0 < keep_blks
            then zero_partial_block_tail inode_num (keep_blks - 1) (new_size mod bs) else ret ()) (\<lambda>_.
      bind (if keep_blks < i_nr_blocks inode
            then free_data_block inode_num keep_blks (i_nr_blocks inode - keep_blks) else ret ()) (\<lambda>_.
      bind (mofs_read_inode inode_num) (\<lambda>inode.
      bind (mofs_inode_stamp_now (inode\<lparr>i_size := new_size\<rparr>) (MOFS_INODE_TIME_MTIME OR MOFS_INODE_TIME_CTIME)) (\<lambda>inode.
      mofs_write_inode inode_num inode)))))"

definition grow_inode :: "mofs_superblock \<Rightarrow> int \<Rightarrow> mofs_inode \<Rightarrow> u32 \<Rightarrow> unit mofs" where
  "grow_inode sb inode_num inode new_size =
     (let bs = sb_blk_size sb;
          needed_blks = (new_size + bs - 1) div bs;
          old_size = i_size inode;
          finish = (\<lambda>inode.
            bind (zero_file_byte_range inode_num old_size new_size) (\<lambda>_.
            bind (mofs_inode_stamp_now (inode\<lparr>i_size := new_size\<rparr>) (MOFS_INODE_TIME_MTIME OR MOFS_INODE_TIME_CTIME))
              (\<lambda>inode. mofs_write_inode inode_num inode)))
      in if i_nr_blocks inode < needed_blks then
           let required_blk_num = needed_blks - i_nr_blocks inode in
           bind (allocate_data_block inode_num required_blk_num) (\<lambda>_.
           on_error (bind (mofs_read_inode inode_num) finish)
             (free_data_block inode_num (i_nr_blocks inode) required_blk_num))
         else finish inode)"

definition truncate_inode :: "int \<Rightarrow> u32 \<Rightarrow> unit mofs" where
  "truncate_inode inode_num new_size =
     bind (gets sp_blk) (\<lambda>sb.
     bind (mofs_read_inode inode_num) (\<lambda>inode.
     bind (throw_if (mode_has inode MOFS_FTYPE_DIR) MOFS_EISDIR) (\<lambda>_.
     bind require_caller (\<lambda>user.
     bind (mofs_check_open_permission MOFS_OFLAG_WRONLY user inode) (\<lambda>_.
     if new_size = i_size inode then ret ()
     else if new_size < i_size inode then shrink_inode sb inode_num inode new_size
     else grow_inode sb inode_num inode new_size)))))"

definition mofs_truncate_core :: "int \<Rightarrow> int \<Rightarrow> unit mofs" where
  "mofs_truncate_core inode_num len =
     bind (gets sp_blk) (\<lambda>sb.
     bind (throw_if (inode_num < 0) MOFS_EINVAL) (\<lambda>_.
     bind (throw_if (len < 0) MOFS_EINVAL) (\<lambda>_.
     bind (throw_if (mofs_max_file_bytes sb < word_of_int len) MOFS_EFBIG) (\<lambda>_.
     truncate_inode inode_num (word_of_int len)))))"

section \<open>Attributes\<close>

record mofs_stat_t =
  st_ino :: u32
  st_mode :: u32
  st_nlink :: u16
  st_uid :: u32
  st_gid :: u32
  st_size :: int
  st_atime_sec :: u64
  st_mtime_sec :: u64
  st_ctime_sec :: u64
  st_blocks :: u32

definition stat_of :: "int \<Rightarrow> mofs_inode \<Rightarrow> mofs_stat_t" where
  "stat_of inode_num inode = \<lparr>st_ino = word_of_int inode_num, st_mode = ucast (i_mode inode), st_nlink = i_links inode,
     st_uid = i_uid inode, st_gid = i_gid inode, st_size = uint (i_size inode), st_atime_sec = i_atime inode,
     st_mtime_sec = i_mtime inode, st_ctime_sec = i_ctime inode, st_blocks = 0\<rparr>"

definition mofs_stat_core :: "path \<Rightarrow> mofs_stat_t mofs" where
  "mofs_stat_core path =
     bind (throw_if (path = None) MOFS_EINVAL) (\<lambda>_.
     bind require_caller (\<lambda>user.
     bind (mofs_path_to_inode_num path) (\<lambda>inode_num.
     bind (mofs_read_inode inode_num) (\<lambda>inode.
     bind (if mode_has inode MOFS_FTYPE_DIR then mofs_check_dir_traverse user inode
           else mofs_check_open_permission MOFS_OFLAG_RDONLY user inode) (\<lambda>_.
     ret (stat_of inode_num inode))))))"

end
