(* ===== verification/Mofs_Dir.thy ===== *)
theory Mofs_Dir
  imports Mofs_File
begin

text \<open>
  Directories, \<open>src/core/modules/mofs_dir.c\<close>: creating and removing, listing through a directory
  handle, and renaming.
\<close>

unbundle bit_operations_syntax

section \<open>Creating and removing\<close>

text \<open>Each step of \<open>mkdir\<close> adds what has to be undone when a later one fails, in the order of the
  \<open>rollback\<close> label.\<close>

definition mofs_mkdir_core :: "path \<Rightarrow> u32 \<Rightarrow> unit mofs" where
  "mofs_mkdir_core path mode =
     bind (gets sp_blk) (\<lambda>sb.
     bind (throw_if (case path of None \<Rightarrow> True | Some p \<Rightarrow> p = [] \<or> hd p \<noteq> 47) MOFS_EINVAL) (\<lambda>_.
     bind (mofs_resolve_path path MOFS_PATH_TARGET) (\<lambda>path_info.
     bind (throw_if (leaf_found path_info) MOFS_EEXIST) (\<lambda>_.
     bind require_caller (\<lambda>user.
     let parent = parent_inode_num path_info in
     bind (mofs_read_inode parent) (\<lambda>parent_inode.
     bind (throw_if (\<not> mode_has parent_inode MOFS_FTYPE_DIR) MOFS_ENOTDIR) (\<lambda>_.
     bind (mofs_check_dir_write user parent_inode) (\<lambda>_.
     bind allocate_inode (\<lambda>child_inode_num.
     on_error
       (bind (mofs_inode_stamp_now (new_inode MOFS_FTYPE_DIR 2 mode user) MOFS_INODE_TIME_ALL) (\<lambda>child_inode.
        bind (mofs_write_inode child_inode_num child_inode) (\<lambda>_.
        bind (allocate_data_block child_inode_num 1) (\<lambda>_.
        on_error
          (bind (write_dot_entries child_inode_num parent) (\<lambda>_.
           bind (mofs_read_inode child_inode_num) (\<lambda>child_inode.
           bind (mofs_inode_stamp_now (child_inode\<lparr>i_size := sb_blk_size sb\<rparr>)
                   (MOFS_INODE_TIME_MTIME OR MOFS_INODE_TIME_CTIME)) (\<lambda>child_inode.
           bind (mofs_write_inode child_inode_num child_inode) (\<lambda>_.
           bind (add_dir_entry (leaf_name path_info) parent child_inode_num) (\<lambda>_.
           on_error
             (bind (mofs_read_inode parent) (\<lambda>parent_inode.
              bind (mofs_inode_stamp_now (parent_inode\<lparr>i_links := i_links parent_inode + 1\<rparr>) MOFS_INODE_TIME_CTIME)
                (\<lambda>parent_inode. mofs_write_inode parent parent_inode)))
             (remove_dir_entry (leaf_name path_info) parent)))))))
          (free_data_block child_inode_num 0 1)))))
       (free_inode child_inode_num))))))))))"

definition mofs_rmdir_core :: "path \<Rightarrow> unit mofs" where
  "mofs_rmdir_core path =
     bind (throw_if (case path of None \<Rightarrow> True | Some p \<Rightarrow> p = [] \<or> hd p \<noteq> 47) MOFS_EINVAL) (\<lambda>_.
     bind (throw_if (tl (the path) = [] \<or> is_dot_or_dotdot_name (the path)) MOFS_EINVAL) (\<lambda>_.
     bind (mofs_resolve_path path MOFS_PATH_EXISTING) (\<lambda>path_info.
     bind (throw_if (is_dot_or_dotdot_name (leaf_name path_info)) MOFS_EINVAL) (\<lambda>_.
     bind require_caller (\<lambda>user.
     bind (mofs_read_inode (parent_inode_num path_info)) (\<lambda>parent_inode.
     bind (mofs_check_dir_write user parent_inode) (\<lambda>_.
     bind (mofs_read_inode (leaf_inode_num path_info)) (\<lambda>target_inode.
     bind (throw_if (\<not> mode_has target_inode MOFS_FTYPE_DIR) MOFS_ENOTDIR) (\<lambda>_.
     bind (is_directory_empty (leaf_inode_num path_info)) (\<lambda>is_empty.
     bind (throw_if (\<not> is_empty) MOFS_ENOTEMPTY) (\<lambda>_.
     bind (remove_dir_entry (leaf_name path_info) (parent_inode_num path_info)) (\<lambda>_.
     bind (if 0 < i_nr_blocks target_inode then free_data_block (leaf_inode_num path_info) 0 (i_nr_blocks target_inode)
           else ret ()) (\<lambda>_.
     bind (free_inode (leaf_inode_num path_info)) (\<lambda>_.
     bind (mofs_read_inode (parent_inode_num path_info)) (\<lambda>parent_inode.
     bind (throw_if (i_links parent_inode = 0) MOFS_EIO) (\<lambda>_.
     bind (mofs_inode_stamp_now (parent_inode\<lparr>i_links := i_links parent_inode - 1\<rparr>) MOFS_INODE_TIME_CTIME)
       (\<lambda>parent_inode. mofs_write_inode (parent_inode_num path_info) parent_inode)))))))))))))))))"

section \<open>Listing\<close>

definition get_free_dirhandle_index :: "world \<Rightarrow> nat option" where
  "get_free_dirhandle_index w = first_idx (\<lambda>h. \<not> dh_used h) (w_dirs w)"

definition set_dirhandle :: "nat \<Rightarrow> mofs_dirhandle \<Rightarrow> unit mofs" where
  "set_dirhandle i h = modify (\<lambda>w. w\<lparr>w_dirs := (w_dirs w)[i := h]\<rparr>)"

definition used_dirhandle :: "handle \<Rightarrow> (nat \<times> mofs_dirhandle) mofs" where
  "used_dirhandle handle =
     (case handle of
        None \<Rightarrow> throw MOFS_EINVAL
      | Some i \<Rightarrow>
          bind (gets w_dirs) (\<lambda>pool.
          if length pool \<le> i then diverge
          else bind (throw_if (\<not> dh_used (pool ! i)) MOFS_EINVAL) (\<lambda>_. ret (i, pool ! i))))"

definition zero_dirent :: mofs_dirent where
  "zero_dirent = \<lparr>d_name = replicate 28 0, d_inode_num = 0\<rparr>"

definition mofs_opendir_core :: "path \<Rightarrow> nat mofs" where
  "mofs_opendir_core path =
     bind (throw_if (path = None) MOFS_EINVAL) (\<lambda>_.
     bind require_caller (\<lambda>user.
     bind (mofs_path_to_inode_num path) (\<lambda>inode_num.
     bind (mofs_read_inode inode_num) (\<lambda>inode.
     bind (if mode_has inode MOFS_FTYPE_DIR then mofs_check_dir_read user inode else throw MOFS_ENOTDIR) (\<lambda>_.
     bind (gets get_free_dirhandle_index) (\<lambda>index. case index of
         None \<Rightarrow> throw MOFS_ENFILE
       | Some i \<Rightarrow>
           bind (set_dirhandle i \<lparr>dh_used = True, dh_inode_num = inode_num, dh_dirent_offset = 0,
                   dh_dirent_buf = zero_dirent\<rparr>) (\<lambda>_. ret i)))))))"

definition mofs_closedir_core :: "handle \<Rightarrow> unit mofs" where
  "mofs_closedir_core handle =
     bind (used_dirhandle handle) (\<lambda>(i, h).
     set_dirhandle i \<lparr>dh_used = False, dh_inode_num = 0, dh_dirent_offset = 0, dh_dirent_buf = zero_dirent\<rparr>)"

text \<open>The next live entry from a position: its block, its index in the block and the entry.\<close>

fun readdir_loop ::
  "mofs_superblock \<Rightarrow> int \<Rightarrow> nat list \<Rightarrow> nat \<Rightarrow> byte list \<Rightarrow> (u32 \<times> nat \<times> mofs_dirent) option mofs" where
  "readdir_loop sb inode_num [] start_idx buf = ret None"
| "readdir_loop sb inode_num (start_block # rest) start_idx buf =
     bind (read_file_data_block inode_num buf (word_of_nat start_block) 1) (\<lambda>(buf, read_blk_num, fraction).
     case first_idx (\<lambda>j. dirent_live buf j) [start_idx..<dirents_in sb fraction] of
         Some k \<Rightarrow> ret (Some (word_of_nat start_block, start_idx + k, dirent_of (chunk (32 * (start_idx + k)) 32 buf)))
       | None \<Rightarrow> readdir_loop sb inode_num rest 0 buf)"

definition mofs_readdir_core :: "handle \<Rightarrow> unit mofs" where
  "mofs_readdir_core handle =
     bind (gets sp_blk) (\<lambda>sb.
     bind (used_dirhandle handle) (\<lambda>(i, h).
     with_malloc (unat (sb_blk_size sb)) (\<lambda>buf.
       bind require_caller (\<lambda>user.
       bind (mofs_read_inode (dh_inode_num h)) (\<lambda>inode.
       bind (if \<not> mode_has inode MOFS_FTYPE_DIR then throw MOFS_ENOTDIR else mofs_check_dir_read user inode) (\<lambda>_.
       let per_blk = sb_blk_size sb div 32 in
       bind (readdir_loop sb (dh_inode_num h)
               [unat (dh_dirent_offset h div per_blk)..<unat (dir_blk_count sb inode)]
               (unat (dh_dirent_offset h mod per_blk)) buf) (\<lambda>found. case found of
           Some (start_block, start_idx, dirent_tmp) \<Rightarrow>
             set_dirhandle i (h\<lparr>dh_dirent_buf := dirent_tmp,
               dh_dirent_offset := start_block * per_blk + word_of_nat start_idx + 1\<rparr>)
         | None \<Rightarrow> set_dirhandle i (h\<lparr>dh_dirent_buf := zero_dirent\<rparr>))))))))"

section \<open>Renaming\<close>

definition require_parent_write :: "int \<Rightarrow> unit mofs" where
  "require_parent_write parent =
     bind require_caller (\<lambda>user.
     bind (mofs_read_inode parent) (\<lambda>parent_inode.
     bind (throw_if (\<not> mode_has parent_inode MOFS_FTYPE_DIR) MOFS_ENOTDIR) (\<lambda>_.
     mofs_check_dir_write user parent_inode)))"

text \<open>The destination that already exists is removed first; the result says that the rename is done
  because both names denote the same inode.\<close>

definition replace_target :: "path \<Rightarrow> mofs_path_info \<Rightarrow> mofs_path_info \<Rightarrow> bool \<Rightarrow> bool mofs" where
  "replace_target new_path old_info new_info src_is_dir =
     (if \<not> leaf_found new_info then ret False
      else if leaf_inode_num new_info = leaf_inode_num old_info then ret True
      else
        bind (mofs_read_inode (leaf_inode_num new_info)) (\<lambda>dst_inode.
        let dst_is_dir = mode_has dst_inode MOFS_FTYPE_DIR in
        bind (if src_is_dir \<and> dst_is_dir then mofs_rmdir_core new_path
              else if \<not> src_is_dir \<and> \<not> dst_is_dir then mofs_unlink_core new_path
              else if src_is_dir then throw MOFS_ENOTDIR
              else throw MOFS_EISDIR) (\<lambda>_. ret False)))"

text \<open>Moving a directory to another parent: its \<open>..\<close> entry and the link counts of both parents.\<close>

definition move_dotdot :: "mofs_path_info \<Rightarrow> mofs_path_info \<Rightarrow> unit mofs" where
  "move_dotdot old_info new_info =
     bind (rewrite_dotdot (leaf_inode_num old_info) (parent_inode_num new_info)) (\<lambda>_.
     bind (adjust_dir_nlink (parent_inode_num old_info) (-1)) (\<lambda>_.
     on_error (adjust_dir_nlink (parent_inode_num new_info) 1) (adjust_dir_nlink (parent_inode_num old_info) 1)))"

definition mofs_rename_core :: "path \<Rightarrow> path \<Rightarrow> unit mofs" where
  "mofs_rename_core old_path new_path =
     bind (throw_if (case old_path of None \<Rightarrow> True | Some p \<Rightarrow> p = [] \<or> hd p \<noteq> 47) MOFS_EINVAL) (\<lambda>_.
     bind (throw_if (case new_path of None \<Rightarrow> True | Some p \<Rightarrow> p = [] \<or> hd p \<noteq> 47) MOFS_EINVAL) (\<lambda>_.
     bind (mofs_resolve_path old_path MOFS_PATH_EXISTING) (\<lambda>old_info.
     bind (throw_if (\<not> leaf_found old_info \<or> is_dot_or_dotdot_name (leaf_name old_info)) MOFS_EINVAL) (\<lambda>_.
     bind (mofs_resolve_path new_path MOFS_PATH_TARGET) (\<lambda>new_info.
     bind (throw_if (is_dot_or_dotdot_name (leaf_name new_info)) MOFS_EINVAL) (\<lambda>_.
     bind (mofs_read_inode (leaf_inode_num old_info)) (\<lambda>src_inode.
     let src_is_dir = mode_has src_inode MOFS_FTYPE_DIR in
     bind (replace_target new_path old_info new_info src_is_dir) (\<lambda>same.
     if same then ret ()
     else
       bind (if src_is_dir then directory_is_ancestor (leaf_inode_num old_info) (parent_inode_num new_info)
             else ret False) (\<lambda>ancestor.
       bind (throw_if ancestor MOFS_EINVAL) (\<lambda>_.
       bind (require_parent_write (parent_inode_num old_info)) (\<lambda>_.
       bind (if parent_inode_num old_info \<noteq> parent_inode_num new_info
             then require_parent_write (parent_inode_num new_info) else ret ()) (\<lambda>_.
       bind (remove_dir_entry (leaf_name old_info) (parent_inode_num old_info)) (\<lambda>_.
       bind (on_error
               (add_dir_entry (leaf_name new_info) (parent_inode_num new_info) (leaf_inode_num old_info))
               (add_dir_entry (leaf_name old_info) (parent_inode_num old_info) (leaf_inode_num old_info))) (\<lambda>_.
       bind (if src_is_dir \<and> parent_inode_num old_info \<noteq> parent_inode_num new_info
             then on_error (move_dotdot old_info new_info)
                (bind (ignore (rewrite_dotdot (leaf_inode_num old_info) (parent_inode_num old_info))) (\<lambda>_.
                 bind (ignore (remove_dir_entry (leaf_name new_info) (parent_inode_num new_info))) (\<lambda>_.
                 add_dir_entry (leaf_name old_info) (parent_inode_num old_info) (leaf_inode_num old_info))))
             else ret ()) (\<lambda>_.
       ignore (mofs_inode_stamp_persist (leaf_inode_num old_info) MOFS_INODE_TIME_CTIME))))))))))))))))"

end
