(* ===== verification/Mofs_Format.thy ===== *)
theory Mofs_Format
  imports Mofs_Dir
begin

text \<open>
  Formatting and mounting: \<open>src/core/modules/mofs_format.c\<close> and \<open>src/core/modules/mofs_core.c\<close>.

  The layout of a new volume is computed with unsigned numbers of 64 bits and stored in fields of
  32 bits.
\<close>

unbundle bit_operations_syntax

section \<open>Formatting\<close>

definition seek_device :: "int \<Rightarrow> int \<Rightarrow> unit mofs" where
  "seek_device fd offset = bind (dev_lseek fd offset MOFS_SEEK_SET) (\<lambda>_. ret ())"

definition write_exact :: "int \<Rightarrow> byte list \<Rightarrow> unit mofs" where
  "write_exact fd buf =
     bind (dev_write fd buf) (\<lambda>written.
     throw_if (unat written \<noteq> length buf) MOFS_EIO)"

text \<open>The byte offset of a block: a product of 64 bits, converted to the signed offset type.\<close>

definition blk_pos :: "u64 \<Rightarrow> u32 \<Rightarrow> int" where
  "blk_pos block_num blk_bytes = sint (block_num * ucast blk_bytes)"

definition clear_blocks :: "int \<Rightarrow> u64 \<Rightarrow> u32 \<Rightarrow> unit mofs" where
  "clear_blocks fd block_num blk_bytes =
     with_malloc (unat blk_bytes) (\<lambda>_.
       bind (seek_device fd (blk_pos block_num blk_bytes)) (\<lambda>_.
       write_exact fd (replicate (unat blk_bytes) 0)))"

fun clear_loop :: "int \<Rightarrow> u32 \<Rightarrow> nat list \<Rightarrow> unit mofs" where
  "clear_loop fd blk_bytes [] = ret ()"
| "clear_loop fd blk_bytes (i # rest) =
     bind (clear_blocks fd (word_of_nat i) blk_bytes) (\<lambda>_. clear_loop fd blk_bytes rest)"

record fmt_layout =
  fl_hole_blk_num :: u64
  fl_inode_num :: u64
  fl_inode_bitmap_blk_num :: u64
  fl_inode_table_blk_num :: u64
  fl_data_bitmap_blk_num :: u64

definition layout_of :: "u64 \<Rightarrow> u32 \<Rightarrow> fmt_layout" where
  "layout_of dev_size eff_blk_bytes =
     (let bpi = eff_blk_bytes * 4;
          bs = ucast eff_blk_bytes :: u64;
          hole = dev_size div bs;
          inodes = (dev_size + ucast (bpi - 1)) div ucast bpi
      in \<lparr>fl_hole_blk_num = hole, fl_inode_num = inodes,
          fl_inode_bitmap_blk_num = (inodes + bs * 8 - 1) div (bs * 8),
          fl_inode_table_blk_num = (inodes * 64 + bs - 1) div bs,
          fl_data_bitmap_blk_num = (hole + bs * 8 - 1) div (bs * 8)\<rparr>)"

definition meta_reserved :: "fmt_layout \<Rightarrow> u64" where
  "meta_reserved l = 1 + fl_inode_bitmap_blk_num l + fl_data_bitmap_blk_num l + fl_inode_table_blk_num l"

definition superblock_for :: "fmt_layout \<Rightarrow> u32 \<Rightarrow> mofs_superblock" where
  "superblock_for l eff_blk_bytes =
     (let ib = 1; db = ib + ucast (fl_inode_bitmap_blk_num l);
          it = db + ucast (fl_data_bitmap_blk_num l); dr = it + ucast (fl_inode_table_blk_num l)
      in \<lparr>sb_magic = MOFS_MAGIC_NUM, sb_hole_blk_num = ucast (fl_hole_blk_num l), sb_inode_num = ucast (fl_inode_num l),
          sb_data_blk_num = ucast (fl_hole_blk_num l - meta_reserved l), sb_inode_bitmap_start = ib,
          sb_data_bitmap_start = db, sb_inode_table_start = it, sb_data_region_start = dr,
          sb_blk_size = eff_blk_bytes\<rparr>)"

definition root_inode :: "mofs_superblock \<Rightarrow> u64 \<Rightarrow> mofs_inode" where
  "root_inode sb now =
     zero_inode\<lparr>i_size := sb_blk_size sb, i_mode := ucast (MOFS_FTYPE_DIR OR 0x1ED), i_links := 2, i_uid := 0, i_gid := 0,
       i_data_head := sb_data_region_start sb + 1, i_nr_blocks := 1, i_atime := now, i_mtime := now, i_ctime := now\<rparr>"

text \<open>Seek to a block and write at its start.\<close>

definition write_at_blk :: "int \<Rightarrow> u64 \<Rightarrow> u32 \<Rightarrow> byte list \<Rightarrow> unit mofs" where
  "write_at_blk fd blk eff_blk_bytes bytes =
     bind (seek_device fd (blk_pos blk eff_blk_bytes)) (\<lambda>_. write_exact fd bytes)"

definition format_volume :: "int \<Rightarrow> u32 \<Rightarrow> u64 \<Rightarrow> unit mofs" where
  "format_volume fd eff_blk_bytes dev_size =
     (let l = layout_of dev_size eff_blk_bytes;
          sb = superblock_for l eff_blk_bytes;
          dr = ucast (sb_data_region_start sb) :: u64
      in
      bind (throw_if (fl_hole_blk_num l \<le> meta_reserved l) MOFS_EINVAL) (\<lambda>_.
      bind (clear_loop fd eff_blk_bytes [0..<unat (meta_reserved l)]) (\<lambda>_.
      bind (throw_if (0xFFFFFFFF < fl_hole_blk_num l) MOFS_EINVAL) (\<lambda>_.
      bind (bind (seek_device fd 0) (\<lambda>_. write_exact fd (superblock_bytes sb))) (\<lambda>_.
      bind (write_at_blk fd (ucast (sb_inode_bitmap_start sb)) eff_blk_bytes [0x04]) (\<lambda>_.
      bind (write_at_blk fd (ucast (sb_data_bitmap_start sb)) eff_blk_bytes [0x03]) (\<lambda>_.
      bind (clear_blocks fd dr eff_blk_bytes) (\<lambda>_.
      bind (clear_blocks fd (dr + 1) eff_blk_bytes) (\<lambda>_.
      bind (with_malloc (unat eff_blk_bytes) (\<lambda>_.
              write_at_blk fd (dr + 1) eff_blk_bytes
                (list_node_image (unat eff_blk_bytes) 0 [sb_data_region_start sb]))) (\<lambda>_.
      bind mofs_now (\<lambda>now.
      bind (seek_device fd (blk_pos (ucast (sb_inode_table_start sb)) eff_blk_bytes + 2 * 64)) (\<lambda>_.
      write_exact fd (inode_bytes (root_inode sb now))))))))))))))"

text \<open>\<open>fs_size\<close> and \<open>blk_size\<close> are \<open>int\<close> arguments.\<close>

definition mofs_format :: "path \<Rightarrow> int \<Rightarrow> int \<Rightarrow> unit mofs" where
  "mofs_format device_file fs_size blk_size =
     bind (dev_open device_file MOFS_IO_OPEN_FLAG_RDWR) (\<lambda>fd.
     let eff_blk_bytes = (if 0 \<le> blk_size then word_of_int blk_size else MOFS_BLK_SIZE_DEFAULT) in
     bind (attempt (
       case mofs_validate_logical_blk_size eff_blk_bytes of
         Some e \<Rightarrow> throw e
       | None \<Rightarrow>
           bind (if 0 < fs_size then ret (word_of_int fs_size * ucast eff_blk_bytes) else dev_get_size fd) (\<lambda>dev_size.
           format_volume fd eff_blk_bytes dev_size))) (\<lambda>r.
     bind (attempt (dev_close fd)) (\<lambda>close_ret. case r of Inl e \<Rightarrow> throw e | Inr _ \<Rightarrow> from_res close_ret)))"

section \<open>Mounting and unmounting\<close>

definition upd_ctx :: "(mofs_ctx \<Rightarrow> mofs_ctx) \<Rightarrow> unit mofs" where
  "upd_ctx f = modify (\<lambda>w. w\<lparr>w_ctx := f (w_ctx w)\<rparr>)"

definition reset_ctx :: "unit mofs" where
  "reset_ctx = upd_ctx (\<lambda>c. c\<lparr>ctx_dev_path := None, ctx_dev_fd := 0, ctx_init := False\<rparr>)"

definition reset_pools :: "unit mofs" where
  "reset_pools = modify (\<lambda>w. w\<lparr>
     w_dirs := replicate MOFS_DIRHANDLE_POOL_SIZE
       \<lparr>dh_used = False, dh_inode_num = 0, dh_dirent_offset = 0, dh_dirent_buf = zero_dirent\<rparr>,
     w_files := replicate MOFS_FILEHANDLE_POOL_SIZE
       \<lparr>fh_used = False, fh_inode_num = 0, fh_file_offset = 0, fh_open_flags = 0\<rparr>\<rparr>)"

definition read_superblock :: "int \<Rightarrow> mofs_superblock mofs" where
  "read_superblock fd =
     bind (dev_lseek fd 0 MOFS_SEEK_SET) (\<lambda>_.
     bind (dev_read fd 36) (\<lambda>bytes.
     bind (throw_if (length bytes \<noteq> 36) MOFS_EIO) (\<lambda>_.
     let sb_scratch = superblock_of bytes in
     bind (throw_if (sb_magic sb_scratch \<noteq> MOFS_MAGIC_NUM) MOFS_EIO) (\<lambda>_.
     case mofs_validate_logical_blk_size (sb_blk_size sb_scratch) of
       Some e \<Rightarrow> throw e
     | None \<Rightarrow>
         bind (dev_get_size fd) (\<lambda>vol_bytes.
         bind (throw_if (vol_bytes div ucast (sb_blk_size sb_scratch) \<noteq> ucast (sb_hole_blk_num sb_scratch)) MOFS_EINVAL)
           (\<lambda>_. ret sb_scratch))))))"

definition update_root :: "u32 \<Rightarrow> u32 \<Rightarrow> unit mofs" where
  "update_root root_uid root_gid =
     bind (mofs_read_inode MOFS_ROOT_INODE_NUM) (\<lambda>root_inode.
     bind (mofs_inode_stamp_now (root_inode\<lparr>i_uid := root_uid, i_gid := root_gid\<rparr>) MOFS_INODE_TIME_CTIME) (\<lambda>root_inode.
     mofs_write_inode MOFS_ROOT_INODE_NUM root_inode))"

definition mount_volume :: "int \<Rightarrow> bool \<Rightarrow> u32 \<Rightarrow> u32 \<Rightarrow> unit mofs" where
  "mount_volume fd update_root_owner root_uid root_gid =
     bind (gets w_mode) (\<lambda>m.
     bind (read_superblock fd) (\<lambda>sb.
     bind (upd_ctx (\<lambda>c. c\<lparr>ctx_sp_blk := sb\<rparr>)) (\<lambda>_.
     bind reset_pools (\<lambda>_.
     bind (if m \<noteq> BC_Disabled then mofs_bcache_init else ret ()) (\<lambda>_.
     bind mofs_core_sync_init (\<lambda>_.
     bind (upd_ctx (\<lambda>c. c\<lparr>ctx_init := True\<rparr>)) (\<lambda>_.
     if update_root_owner then update_root root_uid root_gid else ret ())))))))"

definition mofs_init_core :: "byte list \<Rightarrow> bool \<Rightarrow> u32 \<Rightarrow> u32 \<Rightarrow> unit mofs" where
  "mofs_init_core path update_root_owner root_uid root_gid =
     bind (gets w_mode) (\<lambda>m.
     bind (mofs_malloc (length path + 1)) (\<lambda>p. case p of
         None \<Rightarrow> bind reset_ctx (\<lambda>_. throw MOFS_ENOMEM)
       | Some _ \<Rightarrow>
           bind (upd_ctx (\<lambda>c. c\<lparr>ctx_dev_path := Some path\<rparr>)) (\<lambda>_.
           bind (on_error
               (dev_open (Some path) (if m \<noteq> BC_Disabled then MOFS_IO_OPEN_FLAG_RDWR
                  else MOFS_IO_OPEN_FLAG_RDWR OR MOFS_IO_OPEN_FLAG_SYNC))
               (bind mofs_free (\<lambda>_. reset_ctx))) (\<lambda>fd.
           bind (upd_ctx (\<lambda>c. c\<lparr>ctx_dev_fd := fd\<rparr>)) (\<lambda>_.
           on_error (mount_volume fd update_root_owner root_uid root_gid)
             (bind mofs_core_sync_fini (\<lambda>_.
              bind (if m \<noteq> BC_Disabled then mofs_bcache_fini else ret ()) (\<lambda>_.
              bind (ignore (dev_close fd)) (\<lambda>_.
              bind mofs_free (\<lambda>_. reset_ctx))))))))))"

definition mofs_fini_core :: "unit mofs" where
  "mofs_fini_core =
     bind (gets w_mode) (\<lambda>m.
     bind (attempt (if m \<noteq> BC_Disabled then mofs_bcache_flush else ret ())) (\<lambda>flushed.
     bind (if m \<noteq> BC_Disabled then mofs_bcache_fini else ret ()) (\<lambda>_.
     bind mofs_core_sync_fini (\<lambda>_.
     bind (gets dev_fd) (\<lambda>fd.
     bind (attempt (dev_close fd)) (\<lambda>close_ret.
     bind (gets (\<lambda>w. ctx_dev_path (w_ctx w))) (\<lambda>dev_path.
     bind (free_opt dev_path) (\<lambda>_.
     bind reset_ctx (\<lambda>_.
     case flushed of Inl e \<Rightarrow> throw e | Inr _ \<Rightarrow> from_res close_ret)))))))))"

end
