(* ===== verification/Mofs_Posix.thy ===== *)
theory Mofs_Posix
  imports Mofs_Format
begin

text \<open>
  The public interface, \<open>src/posix/posix.c\<close>: every call takes the core lock, runs the core routine
  and turns an error code into the result -1 (or NULL) and the errno of the calling thread, whose
  slot is that of \<open>src/os/linux/service/os_posix_errno.c\<close>.

  These routines return a value in every case, so none of them ends in an error of the monad. A
  pointer result is an index into the handle pool or \<open>None\<close> for NULL.
\<close>

unbundle bit_operations_syntax

section \<open>Errno\<close>

text \<open>The slot is allocated on the first use and stays with the thread; the result says whether there
  is one.\<close>

definition mofs_errno_location :: "bool mofs" where
  "mofs_errno_location =
     bind (gets w_errno) (\<lambda>slot. case slot of
         Some _ \<Rightarrow> ret True
       | None \<Rightarrow>
           bind (mofs_malloc 4) (\<lambda>p. case p of
               None \<Rightarrow> ret False
             | Some _ \<Rightarrow> bind (modify (\<lambda>w. w\<lparr>w_errno := Some None\<rparr>)) (\<lambda>_. ret True)))"

definition posix_set_errno :: "mofs_error \<Rightarrow> unit mofs" where
  "posix_set_errno err =
     bind mofs_errno_location (\<lambda>slot.
     if slot then modify (\<lambda>w. w\<lparr>w_errno := Some (Some err)\<rparr>) else ret ())"

definition posix_fail :: "mofs_error \<Rightarrow> 'a \<Rightarrow> 'a mofs" where
  "posix_fail err res = bind (posix_set_errno err) (\<lambda>_. ret res)"

text \<open>A core routine under the lock, with the result of a success and that of a failure.\<close>

definition posix_call :: "'a mofs \<Rightarrow> ('a \<Rightarrow> 'b) \<Rightarrow> 'b \<Rightarrow> 'b mofs" where
  "posix_call m ok failed =
     bind (attempt (core_locked m)) (\<lambda>r. case r of
         Inl e \<Rightarrow> posix_fail e failed
       | Inr x \<Rightarrow> ret (ok x))"

section \<open>Calls on paths\<close>

definition mofs_stat :: "path \<Rightarrow> (int \<times> mofs_stat_t option) mofs" where
  "mofs_stat path = posix_call (mofs_stat_core path) (\<lambda>st. (0, Some st)) (-1, None)"

definition mofs_unlink :: "path \<Rightarrow> int mofs" where
  "mofs_unlink path = posix_call (mofs_unlink_core path) (\<lambda>_. 0) (-1)"

definition mofs_mkdir :: "path \<Rightarrow> u32 \<Rightarrow> int mofs" where
  "mofs_mkdir path mode = posix_call (mofs_mkdir_core path mode) (\<lambda>_. 0) (-1)"

definition mofs_rmdir :: "path \<Rightarrow> int mofs" where
  "mofs_rmdir path = posix_call (mofs_rmdir_core path) (\<lambda>_. 0) (-1)"

definition mofs_rename :: "path \<Rightarrow> path \<Rightarrow> int mofs" where
  "mofs_rename old_path new_path = posix_call (mofs_rename_core old_path new_path) (\<lambda>_. 0) (-1)"

definition mofs_truncate :: "path \<Rightarrow> int \<Rightarrow> int mofs" where
  "mofs_truncate path len =
     posix_call (bind (mofs_path_to_inode_num path) (\<lambda>inode_num. mofs_truncate_core inode_num len)) (\<lambda>_. 0) (-1)"

section \<open>Directory handles\<close>

definition mofs_opendir :: "path \<Rightarrow> handle mofs" where
  "mofs_opendir path = posix_call (mofs_opendir_core path) Some None"

definition mofs_closedir :: "handle \<Rightarrow> int mofs" where
  "mofs_closedir handle = posix_call (mofs_closedir_core handle) (\<lambda>_. 0) (-1)"

definition mofs_readdir :: "handle \<Rightarrow> mofs_dirent option mofs" where
  "mofs_readdir handle =
     bind (attempt (core_locked (mofs_readdir_core handle))) (\<lambda>r. case r of
         Inl e \<Rightarrow> posix_fail e None
       | Inr _ \<Rightarrow>
           bind (gets (\<lambda>w. dh_dirent_buf (w_dirs w ! the handle))) (\<lambda>d.
           ret (if d_inode_num d \<noteq> 0 \<and> hd (d_name d) \<noteq> 0 then Some d else None)))"

section \<open>File handles\<close>

definition mofs_open :: "path \<Rightarrow> u32 \<Rightarrow> u32 \<Rightarrow> handle mofs" where
  "mofs_open path flags mode = posix_call (mofs_open_core path flags mode) Some None"

text \<open>The result of \<open>mofs_close\<close> on failure is the error code itself.\<close>

definition mofs_close :: "handle \<Rightarrow> int mofs" where
  "mofs_close handle =
     bind (attempt (core_locked (mofs_close_core handle))) (\<lambda>r. case r of
         Inl e \<Rightarrow> posix_fail e (errno_num e)
       | Inr _ \<Rightarrow> ret 0)"

text \<open>The fields of a handle, read outside the lock.\<close>

definition peek_filehandle :: "nat \<Rightarrow> mofs_filehandle mofs" where
  "peek_filehandle i = bind (gets w_files) (\<lambda>pool. if i < length pool then ret (pool ! i) else diverge)"

definition mofs_pread :: "handle \<Rightarrow> u32 \<Rightarrow> int \<Rightarrow> (int \<times> byte list) mofs" where
  "mofs_pread handle sz offset =
     (if handle = None \<or> offset < 0 \<or> 0xFFFFFFFF < offset then posix_fail MOFS_EINVAL (-1, [])
      else posix_call (mofs_read_core handle sz offset True) (\<lambda>bytes. (sint (word_of_nat (length bytes) :: u32), bytes)) (-1, []))"

definition mofs_pwrite :: "handle \<Rightarrow> byte list option \<Rightarrow> u32 \<Rightarrow> int \<Rightarrow> int mofs" where
  "mofs_pwrite handle buf sz offset =
     (if handle = None \<or> offset < 0 \<or> 0xFFFFFFFF < offset then posix_fail MOFS_EINVAL (-1)
      else posix_call (mofs_write_core handle buf sz offset True) sint (-1))"

definition mofs_read :: "handle \<Rightarrow> u32 \<Rightarrow> (int \<times> byte list) mofs" where
  "mofs_read handle sz =
     (case handle of
        None \<Rightarrow> posix_fail MOFS_EINVAL (-1, [])
      | Some i \<Rightarrow> bind (peek_filehandle i) (\<lambda>h. mofs_pread handle sz (uint (fh_file_offset h))))"

definition mofs_write :: "handle \<Rightarrow> byte list option \<Rightarrow> u32 \<Rightarrow> int mofs" where
  "mofs_write handle buf sz =
     (case handle of
        None \<Rightarrow> posix_fail MOFS_EINVAL (-1)
      | Some i \<Rightarrow> bind (peek_filehandle i) (\<lambda>h. mofs_pwrite handle buf sz (uint (fh_file_offset h))))"

text \<open>The new position, or EINVAL when it is negative or too large.\<close>

definition seek_pos :: "int \<Rightarrow> int \<Rightarrow> int res" where
  "seek_pos base offset =
     (if 0 \<le> offset then
        (if 0xFFFFFFFF < offset \<or> 0xFFFFFFFF - offset < base then Inl MOFS_EINVAL else Inr (base + offset))
      else if offset = - (2 ^ 63) \<or> base < - offset then Inl MOFS_EINVAL
      else Inr (base + offset))"

definition mofs_lseek :: "handle \<Rightarrow> int \<Rightarrow> int \<Rightarrow> int mofs" where
  "mofs_lseek handle offset whence =
     (case handle of
        None \<Rightarrow> posix_fail MOFS_EINVAL (-1)
      | Some i \<Rightarrow>
          bind (peek_filehandle i) (\<lambda>h.
          if \<not> fh_used h then posix_fail MOFS_EBADF (-1)
          else posix_call
            (bind (if whence = MOFS_SEEK_SET then ret 0
                   else if whence = MOFS_SEEK_CUR then ret (uint (fh_file_offset h))
                   else if whence = MOFS_SEEK_END then
                     bind (mofs_read_inode (fh_inode_num h)) (\<lambda>inode. ret (uint (i_size inode)))
                   else throw MOFS_EINVAL) (\<lambda>base.
             bind (from_res (seek_pos base offset)) (\<lambda>new_pos.
             bind (set_filehandle i (h\<lparr>fh_file_offset := word_of_int new_pos\<rparr>)) (\<lambda>_. ret new_pos))))
            (\<lambda>new_pos. new_pos) (-1)))"

definition mofs_ftruncate :: "handle \<Rightarrow> int \<Rightarrow> int mofs" where
  "mofs_ftruncate handle len =
     (case handle of
        None \<Rightarrow> posix_fail MOFS_EBADF (-1)
      | Some i \<Rightarrow>
          bind (peek_filehandle i) (\<lambda>h.
          if \<not> fh_used h then posix_fail MOFS_EBADF (-1)
          else if fh_open_flags h AND MOFS_OFLAG_WRONLY = 0 then posix_fail MOFS_EBADF (-1)
          else posix_call (mofs_truncate_core (fh_inode_num h) len) (\<lambda>_. 0) (-1)))"

definition mofs_fsync :: "handle \<Rightarrow> int mofs" where
  "mofs_fsync handle =
     (case handle of
        None \<Rightarrow> posix_fail MOFS_EINVAL (-1)
      | Some i \<Rightarrow>
          posix_call
            (bind (peek_filehandle i) (\<lambda>h.
             if \<not> fh_used h then throw MOFS_EBADF else mofs_bcache_flush))
            (\<lambda>_. 0) (-1))"

end
