(* ===== verification/Mofs_Demo.thy ===== *)
theory Mofs_Demo
  imports Mofs_Fs Mofs_Posix
begin

text \<open>
  A small mounted volume on which the hypotheses of the properties hold: sixteen blocks of 512
  bytes (superblock, one block for each bitmap, one block of the inode table with eight inodes,
  twelve data blocks), a device opened for reading and writing, an operating system without
  failures, and one empty slot in each pool of the cache. The build and the content of the blocks
  are arguments; \<open>demo\<close> is the volume whose blocks are all zero.
\<close>

definition demo_sb :: mofs_superblock where
  "demo_sb = \<lparr>sb_magic = MOFS_MAGIC_NUM, sb_hole_blk_num = 16, sb_inode_num = 8, sb_data_blk_num = 12,
     sb_inode_bitmap_start = 1, sb_data_bitmap_start = 2, sb_inode_table_start = 3,
     sb_data_region_start = 4, sb_blk_size = 512\<rparr>"

definition demo_ctx :: mofs_ctx where
  "demo_ctx = \<lparr>ctx_init = True, ctx_dev_path = Some [], ctx_dev_fd = 3, ctx_sp_blk = demo_sb\<rparr>"

definition demo_dev :: "(nat \<Rightarrow> byte list) \<Rightarrow> device" where
  "demo_dev img = \<lparr>dv_path = [], dv_is_blk = True, dv_data = concat (map img [0..<16]), dv_stable = concat (map img [0..<16]),
     dv_fds = (\<lambda>_. None)(3 := Some \<lparr>fd_off = 0, fd_rd = True, fd_wr = True, fd_sync = False\<rparr>), dv_next_fd = 4\<rparr>"

definition demo_os :: os_state where
  "demo_os = \<lparr>os_calls = 0, os_fault = (\<lambda>_. NoFault), os_junk = (\<lambda>_ _. 0), os_clock = (\<lambda>n. word_of_nat n),
     os_errno = 0, os_live = 0, os_touches = 0, os_euid = 0, os_egid = 0, os_pid = 1, os_groups = []\<rparr>"

definition demo_slot :: bcache_entry where
  "demo_slot = \<lparr>e_valid = False, e_dirty = False, e_blk_num = 0, e_lru_tick = 0, e_data = replicate 512 0\<rparr>"

definition demo_bc :: bcache where
  "demo_bc = \<lparr>bc_pool = (\<lambda>_. [demo_slot]), bc_tick = (\<lambda>_. 0), bcache_ready = True, bcache_mutex = Some False\<rparr>"

definition demo_user :: mofs_user_ctx where
  "demo_user = \<lparr>u_uid = 0, u_gid = 0, u_pid = 1, u_supp_groups = [], u_valid = True\<rparr>"

definition demo_fh :: mofs_filehandle where
  "demo_fh = \<lparr>fh_used = False, fh_inode_num = 0, fh_file_offset = 0, fh_open_flags = 0\<rparr>"

definition demo_dh :: mofs_dirhandle where
  "demo_dh = \<lparr>dh_used = False, dh_inode_num = 0, dh_dirent_offset = 0,
     dh_dirent_buf = \<lparr>d_name = replicate 28 0, d_inode_num = 0\<rparr>\<rparr>"

definition demo_on :: "bcache_mode \<Rightarrow> (nat \<Rightarrow> byte list) \<Rightarrow> world" where
  "demo_on m img = \<lparr>w_ctx = demo_ctx, w_dev = demo_dev img, w_os = demo_os, w_mode = m, w_bc = demo_bc,
     w_sync = \<lparr>core_sync_ready = True, core_sync_depth = 0\<rparr>, w_user = demo_user,
     w_files = replicate MOFS_FILEHANDLE_POOL_SIZE demo_fh, w_dirs = replicate MOFS_DIRHANDLE_POOL_SIZE demo_dh,
     w_errno = None\<rparr>"

definition demo :: "bcache_mode \<Rightarrow> world" where
  "demo m = demo_on m (\<lambda>_. replicate 512 0)"

lemmas demo_defs = demo_on_def demo_ctx_def demo_sb_def demo_dev_def demo_os_def demo_bc_def demo_slot_def

text \<open>An image: sixteen blocks of 512 bytes.\<close>

definition demo_image :: "(nat \<Rightarrow> byte list) \<Rightarrow> bool" where
  "demo_image img = (\<forall>i<16. length (img i) = 512)"

lemma demo_sb_simps [simp]:
  "sb_blk_size demo_sb = 512" "sb_data_blk_num demo_sb = 12" "sb_inode_num demo_sb = 8"
  "sb_inode_bitmap_start demo_sb = 1" "sb_data_bitmap_start demo_sb = 2"
  "sb_inode_table_start demo_sb = 3" "sb_data_region_start demo_sb = 4"
  by (simp_all add: demo_sb_def)

lemma demo_on_simps [simp]:
  "sp_blk (demo_on m img) = demo_sb" "w_mode (demo_on m img) = m" "dev_fd (demo_on m img) = 3"
  "bcache_ready (w_bc (demo_on m img))" "en_sb (env_of (demo_on m img)) = demo_sb"
  by (simp_all add: demo_defs env_of_def)

lemma demo_layout [simp]: "layout_ok demo_sb"
  by (simp add: layout_ok_def Let_def mofs_validate_logical_blk_size_def mofs_consts)

lemma concat_blocks_length:
  "(\<And>i. i < n \<Longrightarrow> length (img i) = k) \<Longrightarrow> length (concat (map img [0..<n])) = n * k"
  by (induction n) simp_all

lemma chunk_concat_blocks:
  assumes "\<And>i. i < n \<Longrightarrow> length (img i) = k" and "i < n"
  shows "chunk (i * k) k (concat (map img [0..<n])) = img i"
  using assms
proof (induction n)
  case (Suc n)
  have l: "length (concat (map img [0..<n])) = n * k" by (rule concat_blocks_length) (use Suc.prems in simp)
  show ?case
  proof (cases "i = n")
    case True
    then show ?thesis using l Suc.prems by (simp add: chunk_def)
  next
    case False
    then have i: "i < n" using Suc.prems by simp
    then have "i * k + k \<le> n * k" using mult_le_mono1 [of "Suc i" n k] by simp
    then have "chunk (i * k) k (concat (map img [0..<n]) @ img n) = chunk (i * k) k (concat (map img [0..<n]))"
      using l by (simp add: chunk_def)
    then show ?thesis using Suc i by simp
  qed
qed simp

lemma demo_on_data [simp]: "demo_image img \<Longrightarrow> length (dv_data (w_dev (demo_on m img))) = 8192"
  using concat_blocks_length [of 16 img 512] by (simp add: demo_image_def demo_defs)

lemma demo_on_io_ready [simp]: "demo_image img \<Longrightarrow> io_ready (demo_on m img)"
  using demo_on_data [of img m] by (simp add: io_ready_def fd_ok_def) (simp add: demo_defs)

lemma demo_on_os_ok [simp]: "os_ok (demo_on m img)"
  by (simp add: os_ok_def demo_defs)

lemma demo_on_fits [simp]: "demo_image img \<Longrightarrow> fits (demo_on m img) b \<longleftrightarrow> unat b < 16"
  by (auto simp: fits_def)

lemma demo_on_c_inv: "demo_image img \<Longrightarrow> c_inv sel ps (demo_on m img)"
proof -
  assume "demo_image img"
  moreover have "pool_ok sel (demo_on m img) p" for p
    by (simp add: pool_ok_def entry_ok_def cached_blocks_def demo_defs)
  ultimately show ?thesis
    using demo_on_io_ready [of img m] by (simp add: c_inv_def list_all_iff) (simp add: demo_defs)
qed

lemma demo_on_fs_ok [simp]: "demo_image img \<Longrightarrow> fs_ok (demo_on m img)"
  by (cases m) (simp_all add: fs_ok_def vol_ok_def bc_inv_def c_live_def demo_on_c_inv)

lemma demo_on_vol:
  assumes "demo_image img"
  shows "vol (demo_on m img) b = (if unat b < 16 then img (unat b) else [])"
proof -
  have "bc_view (demo_on m img) b = dev_block (demo_on m img) b"
    by (cases m) (simp_all add: bc_view_def c_view_def slot_view_def Let_def holds_block_def demo_bc_def demo_slot_def demo_on_def)
  moreover have "dev_block (demo_on m img) b = img (unat b)" if "unat b < 16"
    using chunk_concat_blocks [of 16 img 512 "unat b"] assms that
    by (simp add: dev_block_def demo_image_def) (simp add: demo_defs mult.commute)
  ultimately show ?thesis by (simp add: vol_def in_vol_def)
qed

section \<open>The empty volume\<close>

lemma demo_zero_image [simp]: "demo_image (\<lambda>_. replicate 512 0)"
  by (simp add: demo_image_def)

lemma demo_simps [simp]:
  "sp_blk (demo m) = demo_sb" "w_mode (demo m) = m" "dev_fd (demo m) = 3" "length (dv_data (w_dev (demo m))) = 8192"
  "bcache_ready (w_bc (demo m))" "en_sb (env_of (demo m)) = demo_sb"
  by (simp_all add: demo_def)

lemma demo_fs_ok [simp]: "fs_ok (demo m)"
  by (simp add: demo_def)

lemma demo_facts [simp]:
  "io_ready (demo m)" "os_ok (demo m)" "fits (demo m) b \<longleftrightarrow> unat b < 16" "c_inv sel ps (demo m)" "bc_inv (demo m)"
  "vol_ok (demo m)" "c_live sel ps (demo m)"
  using demo_on_fs_ok [OF demo_zero_image, of m]
  by (simp_all add: demo_def fs_ok_def demo_on_c_inv c_live_def)

lemma demo_vol: "vol (demo m) b = (if unat b < 16 then replicate 512 0 else [])"
  by (simp add: demo_def demo_on_vol)

text \<open>Its inodes are zero and its data blocks free; a single file without blocks satisfies the
  invariant.\<close>

lemma inode_bytes_zero: "inode_bytes zero_inode = replicate 64 0"
  by code_simp

lemma demo_inode:
  assumes "0 \<le> n" and "n < 8"
  shows "inode_in demo_sb (vol (demo m)) n = zero_inode"
proof -
  have "inode_num_ok demo_sb n" using assms by (simp add: inode_num_ok_def)
  then have b: "unat (inode_blk demo_sb n) < 16" "inode_off demo_sb n + 64 \<le> 512"
    using inode_slot [OF demo_layout, of n] by (simp_all add: in_vol_def)
  then have "chunk (inode_off demo_sb n) 64 (replicate 512 (0 :: byte)) = replicate 64 0"
    by (simp add: chunk_def min_def)
  then have "inode_in demo_sb (vol (demo m)) n = inode_of (inode_bytes zero_inode)"
    using b by (simp add: inode_in_def demo_vol inode_bytes_zero)
  then show ?thesis by (simp add: codec_inverse)
qed

lemma demo_fs_inv: "fs_inv demo_sb (vol (demo m)) {2} (\<lambda>_. []) (\<lambda>_. [])"
proof -
  have "\<not> data_used demo_sb (vol (demo m)) k" if "k < 12" for k
    using that by (auto simp: used_at_def bitmap_blk_def demo_vol bit_at_def)
  then show ?thesis
    using demo_inode [of 2 m] abs_to_data_idx_ok(3) [of demo_sb]
    by (auto simp: fs_inv_def fs_safe_def owned_def file_blocks_def chain_ptrs_def inode_num_ok_def zero_inode_def)
qed

section \<open>A volume with a directory and a file\<close>

text \<open>The root directory has the entries \<open>.\<close>, \<open>..\<close> and \<open>a\<close>; the file \<open>a\<close> is inode 3, has 600 bytes
  and two blocks. Seven data blocks are free.\<close>

definition sample_root :: mofs_inode where
  "sample_root = zero_inode\<lparr>i_size := 96, i_links := 2, i_mode := 0x41ED, i_data_head := 5, i_nr_blocks := 1\<rparr>"

definition sample_file :: mofs_inode where
  "sample_file = zero_inode\<lparr>i_size := 600, i_links := 1, i_mode := 0x81A4, i_data_head := 6, i_nr_blocks := 2\<rparr>"

definition sample :: "nat \<Rightarrow> byte list" where
  "sample i =
     (if i = 0 then overwrite 0 (superblock_bytes demo_sb) (replicate 512 0)
      else if i = 1 then overwrite 0 [12] (replicate 512 0)
      else if i = 2 then overwrite 0 [31] (replicate 512 0)
      else if i = 3 then overwrite 128 (inode_bytes sample_root @ inode_bytes sample_file) (replicate 512 0)
      else if i = 4 then overwrite 0 (new_dirent [46] 2 @ new_dirent [46, 46] 2 @ new_dirent [97] 3) (replicate 512 0)
      else if i = 5 then list_node_image 512 0 [4]
      else if i = 6 then list_node_image 512 0 [7, 8]
      else if i = 7 then replicate 512 65
      else if i = 8 then replicate 512 66
      else replicate 512 0)"

definition sample_nodes :: "int \<Rightarrow> u32 list" where
  "sample_nodes = (\<lambda>_. [])(2 := [5], 3 := [6])"

definition sample_blocks :: "int \<Rightarrow> u32 list" where
  "sample_blocks = (\<lambda>_. [])(2 := [4], 3 := [7, 8])"

lemma sample_image [simp]: "demo_image sample"
  unfolding demo_image_def sample_def by (simp add: new_dirent_def list_node_image_facts)

lemma sample_vol: "unat b < 16 \<Longrightarrow> vol (demo_on m sample) b = sample (unat b)"
  by (simp add: demo_on_vol)

lemma inode_pos_demo: "inode_blk demo_sb 2 = 3" "inode_off demo_sb 2 = 128" "inode_blk demo_sb 3 = 3" "inode_off demo_sb 3 = 192"
  by (simp_all add: inode_blk_def inode_off_def inode_byte_pos_def)

lemma sample_inodes:
  "inode_in demo_sb (vol (demo_on m sample)) 2 = sample_root" "inode_in demo_sb (vol (demo_on m sample)) 3 = sample_file"
proof -
  let ?b = "replicate 512 (0 :: byte)"
  have "chunk 128 64 (sample 3) = inode_bytes sample_root" "chunk 192 64 (sample 3) = inode_bytes sample_file"
    by (simp_all add: sample_def overwrite_def chunk_def)
  then show "inode_in demo_sb (vol (demo_on m sample)) 2 = sample_root" "inode_in demo_sb (vol (demo_on m sample)) 3 = sample_file"
    by (simp_all add: inode_in_def inode_pos_demo sample_vol codec_inverse)
qed

lemma sample_nodes_facts:
  "next_abs (list_hdr_of (vol (demo_on m sample) 5)) = 0" "nr_ptrs (list_hdr_of (vol (demo_on m sample) 5)) = 1"
  "node_ptrs (vol (demo_on m sample)) 5 = [4]"
  "next_abs (list_hdr_of (vol (demo_on m sample) 6)) = 0" "nr_ptrs (list_hdr_of (vol (demo_on m sample) 6)) = 2"
  "node_ptrs (vol (demo_on m sample)) 6 = [7, 8]"
  using list_node_image_facts [of "[4]" 512 0] list_node_image_facts [of "[7, 8]" 512 0]
  by (simp_all add: sample_vol sample_def node_ptrs_def word_unat_eq_iff)

lemma sample_used:
  assumes "k < 12"
  shows "data_used demo_sb (vol (demo_on m sample)) k = (k < 5)"
proof -
  have "k = 0 \<or> k = 1 \<or> k = 2 \<or> k = 3 \<or> k = 4 \<or> k = 5 \<or> k = 6 \<or> k = 7 \<or> k = 8 \<or> k = 9 \<or> k = 10 \<or> k = 11"
    using assms by presburger
  then show ?thesis
    by (elim disjE) (simp_all add: used_at_def bitmap_blk_def sample_vol sample_def overwrite_def bit_at_def)
qed

lemma sample_fs_inv: "fs_inv demo_sb (vol (demo_on m sample)) {2, 3} sample_nodes sample_blocks"
proof -
  have used: "blk_used demo_sb (vol (demo_on m sample)) x = (x \<in> {4, 5, 6, 7, 8})" if "data_blk demo_sb x" for x
    using that sample_used [OF abs_to_data_idx_ok(3) [OF that, simplified], of m]
    by (auto simp: data_blk_def data_idx_def word_unat_eq_iff)
  have blk: "data_blk demo_sb x" if "x \<in> {4, 5, 6, 7, 8}" for x using that by (auto simp: data_blk_def)
  have cap: "1 \<le> list_ptrs_cap demo_sb" "2 \<le> list_ptrs_cap demo_sb" by (simp_all add: list_ptrs_cap_def mofs_list_ptrs_per_node_def)
  have "owned demo_sb (vol (demo_on m sample)) 2 [5] [4]" "owned demo_sb (vol (demo_on m sample)) 3 [6] [7, 8]"
    using used blk cap
    by (simp_all add: owned_def file_blocks_def sample_inodes chain_ptrs_def sample_nodes_facts sample_root_def sample_file_def)
  then show ?thesis
    using used by (simp add: fs_inv_def fs_safe_def inode_num_ok_def sample_nodes_def sample_blocks_def insert_commute) auto
qed

end
