(* ===== verification/Mofs_Props_Io.thy ===== *)
theory Mofs_Props_Io
  imports Mofs_Demo
begin

text \<open>
  Properties of the lower layers: encodings, raw device I/O, the block caches and the
  allocation bitmaps, each applied to the volume of \<open>Mofs_Demo\<close> where it has hypotheses.
\<close>

unbundle bit_operations_syntax

section \<open>Caches\<close>

text \<open>C7. In every build, and whatever device or allocation failures occur, reading a block keeps
  the cache invariant, changes the content of no block, and returns exactly the block's current
  content when it reports one full block; it does report one when nothing fails and the block
  lies inside the device.\<close>

theorem block_read_returns_content:
  assumes "bc_inv w" and "length buf = blksz w"
  shows "wp (read_continuous_blocks (dev_fd w) buf 1 b) (\<lambda>r w'.
      bc_inv w' \<and> io_frame w w' \<and> (\<forall>c. fits w c \<longrightarrow> bc_view w' c = bc_view w c) \<and>
      (case r of
         Inl _ \<Rightarrow> \<not> (calm w w' \<and> fits w b)
       | Inr (buf', cnt, frac) \<Rightarrow>
           (cnt = 1 \<and> frac = 0 \<and> buf' = bc_view w b) \<or>
           (cnt = 0 \<and> unat frac < blksz w \<and> \<not> (calm w w' \<and> fits w b)))) w"
  by (rule wp_mono [OF bc_read_law [OF assms]]) (auto simp: rd_post_def split: sum.splits)

theorem block_read_returns_content_witness:
  "wp (read_continuous_blocks 3 (replicate 512 0) 1 5) (\<lambda>r w'.
      bc_inv w' \<and> (\<forall>c. unat c < 16 \<longrightarrow> bc_view w' c = bc_view (demo BC_Unified) c)) (demo BC_Unified)"
proof -
  have "bc_inv (demo BC_Unified)" "length (replicate 512 (0::byte)) = blksz (demo BC_Unified)" by simp_all
  from block_read_returns_content [OF this, of 5] show ?thesis
    by (auto elim!: wp_mono)
qed

text \<open>C6. In every build, writing a whole block keeps the cache invariant and the content of every
  other block; a reported success means that the block now has the written content, and the write
  succeeds when nothing fails. A failing eviction of some other dirty block loses no content.\<close>

theorem block_write_updates_content:
  assumes "bc_inv w" and "length src = blksz w" and "fits w b"
  shows "wp (write_continuous_blocks (dev_fd w) src 1 b) (\<lambda>r w'.
      bc_inv w' \<and> io_frame w w' \<and> (\<forall>c. fits w c \<longrightarrow> c \<noteq> b \<longrightarrow> bc_view w' c = bc_view w c) \<and>
      (r = Inr (1, 0) \<longrightarrow> bc_view w' b = src) \<and> (calm w w' \<longrightarrow> r = Inr (1, 0))) w"
  by (rule wp_mono [OF bc_write_law [OF assms]]) (auto simp: wr_post_def)

theorem block_write_updates_content_witness:
  "wp (write_continuous_blocks 3 (replicate 512 7) 1 5) (\<lambda>r w'. bc_inv w' \<and>
      (r = Inr (1, 0) \<longrightarrow> bc_view w' 5 = replicate 512 7)) (demo BC_Split)"
proof -
  have "bc_inv (demo BC_Split)" "length (replicate 512 (7::byte)) = blksz (demo BC_Split)" "fits (demo BC_Split) 5"
    by simp_all
  from block_write_updates_content [OF this] show ?thesis by (auto elim!: wp_mono)
qed

text \<open>C8. A flush of either cache changes the content of no block. When it reports success every block
  of the device equals its content as the core saw it, and the whole device has reached stable
  storage; it succeeds when nothing fails.\<close>

theorem flush_is_durable:
  assumes "bc_inv w" and "w_mode w \<noteq> BC_Disabled" and "bcache_ready (w_bc w)"
  shows "wp mofs_bcache_flush (\<lambda>r w'. bc_inv w' \<and> (\<forall>c. fits w c \<longrightarrow> bc_view w' c = bc_view w c) \<and>
      (case r of
         Inl _ \<Rightarrow> \<not> calm w w'
       | Inr _ \<Rightarrow> (\<forall>c. fits w c \<longrightarrow> dev_block w' c = bc_view w c) \<and>
           dv_stable (w_dev w') = dv_data (w_dev w'))) w"
  by (rule wp_mono [OF bc_flush_law [OF assms]]) (auto simp: fl_post_def split: sum.splits)

theorem flush_is_durable_witness:
  "wp mofs_bcache_flush (\<lambda>r w'. r = Inr () \<longrightarrow> dv_stable (w_dev w') = dv_data (w_dev w')) (demo BC_Unified)"
proof -
  have "bc_inv (demo BC_Unified)" "w_mode (demo BC_Unified) \<noteq> BC_Disabled" "bcache_ready (w_bc (demo BC_Unified))"
    by simp_all
  from flush_is_durable [OF this] show ?thesis by (auto elim!: wp_mono)
qed

text \<open>C17. Patching a part of a cached block applies the patch at its offset and leaves every other block
  alone; a refused or failed patch changes nothing, and when nothing fails the only refusal is
  EINVAL, the code on which the caller falls back to reading and writing the block.\<close>

theorem modify_block_patches:
  assumes "bc_inv w" and "fits w b" and "length patch < 2 ^ 32"
  shows "wp (mofs_bcache_modify_block b off patch) (\<lambda>r w'. bc_inv w' \<and>
      (\<forall>c. fits w c \<longrightarrow> c \<noteq> b \<longrightarrow> bc_view w' c = bc_view w c) \<and>
      (case r of
         Inl e \<Rightarrow> bc_view w' b = bc_view w b \<and> (calm w w' \<longrightarrow> e = MOFS_EINVAL)
       | Inr _ \<Rightarrow> unat off + length patch \<le> blksz w \<and>
           bc_view w' b = overwrite (unat off) patch (bc_view w b))) w"
  by (rule wp_mono [OF bc_modify_law [OF assms]]) (auto simp: md_post_def split: sum.splits)

theorem modify_block_patches_witness:
  "wp (mofs_bcache_modify_block 3 64 [1, 2, 3]) (\<lambda>r w'. bc_inv w' \<and>
      (r = Inr () \<longrightarrow> bc_view w' 3 = overwrite 64 [1, 2, 3] (bc_view (demo BC_Unified) 3))) (demo BC_Unified)"
proof -
  have "bc_inv (demo BC_Unified)" "fits (demo BC_Unified) 3" "length [1, 2, 3 :: byte] < 2 ^ 32" by simp_all
  from modify_block_patches [OF this, of 64] show ?thesis by (auto elim!: wp_mono)
qed

text \<open>C25. The slot that is given up is an empty one when there is one, and otherwise one that was used
  least recently.\<close>

theorem victim_is_least_recent:
  assumes "victim_idx pool = Some k" and "e \<in> set pool"
  shows "k < length pool \<and> (\<not> e_valid e \<longrightarrow> \<not> e_valid (pool ! k)) \<and>
    (e_valid (pool ! k) \<longrightarrow> e_lru_tick (pool ! k) \<le> e_lru_tick e)"
  using victim_idx_Some [OF assms(1)] assms(2) by auto

theorem victim_is_least_recent_witness:
  "victim_idx [demo_slot] = Some 0 \<and> 0 < length [demo_slot]"
proof -
  have "victim_idx [demo_slot] = Some 0" by (simp add: victim_idx_def demo_slot_def)
  with victim_is_least_recent [of "[demo_slot]" 0 demo_slot] show ?thesis by simp
qed

section \<open>Raw device I/O\<close>

text \<open>C16. A raw write of \<open>n\<close> blocks stores a prefix of the source at the block's byte offset and
  touches no other byte of the device, whatever fails; the block count and the fraction it reports
  give the length of that prefix exactly.\<close>

theorem raw_write_stores_prefix:
  assumes "io_ready w" and "unat n * blksz w \<le> length src"
  shows "wp (write_continuous_blocks_raw (dev_fd w) src n b) (\<lambda>r w'. io_frame w w' \<and>
      (\<exists>t \<le> unat n * blksz w.
         dv_data (w_dev w') = write_at (unat b * blksz w) (take t src) (dv_data (w_dev w)) \<and>
         (case r of Inl _ \<Rightarrow> True
          | Inr (cnt, frac) \<Rightarrow> unat cnt \<le> unat n \<and> unat frac < blksz w \<and> t = unat cnt * blksz w + unat frac))) w"
proof (rule wp_mono [OF wp_write_continuous_blocks_raw [OF assms]], goal_cases)
  case (1 r w')
  have cnt: "unat (word_of_nat m :: u32) = m" if "m \<le> unat n" for m
    using that unat_less [of n] by (simp add: unat_of_nat take_bit_nat_eq_self)
  from 1 obtain t where "t \<le> unat n * blksz w"
    "dv_data (w_dev w') = write_at (unat b * blksz w) (take t src) (dv_data (w_dev w))"
    "case r of Inl _ \<Rightarrow> True
      | Inr (c, frac) \<Rightarrow> \<exists>m\<le>unat n. c = word_of_nat m \<and> unat frac < blksz w \<and>
          (m = unat n \<longrightarrow> frac = 0) \<and> t = m * blksz w + unat frac"
    unfolding write_result_def mult_0 drop_0 add_0 by blast
  then show ?case
    using 1 by (intro conjI exI [of _ t]) (cases r; auto simp: cnt)+
qed

theorem raw_write_stores_prefix_witness:
  "wp (write_continuous_blocks_raw 3 (replicate 1024 1) 2 5) (\<lambda>r w'. \<exists>t \<le> 1024.
      dv_data (w_dev w') = write_at 2560 (take t (replicate 1024 1)) (dv_data (w_dev (demo BC_Disabled)))) (demo BC_Disabled)"
proof -
  have "io_ready (demo BC_Disabled)" "unat (2 :: u32) * blksz (demo BC_Disabled) \<le> length (replicate 1024 (1 :: byte))"
    by simp_all
  from raw_write_stores_prefix [OF this, of 5] show ?thesis by (auto elim!: wp_mono)
qed

section \<open>Bitmaps\<close>

text \<open>C18. Marking a data block in the bitmap of a mounted volume changes the mark of this block and
  no other, and changes no block outside the data bitmap. Indices beyond the data region are
  refused with EINVAL and nothing changes.\<close>

theorem data_bitmap_set_exact:
  assumes "fs_ok w"
  shows "wp (set_data_bitmap_bit idx u) (\<lambda>r w'. fs_ok w' \<and> io_frame w w' \<and>
      eq_off (data_bitmap_own (sp_blk w)) (vol w) (vol w') \<and>
      (case r of
         Inl e \<Rightarrow> if idx < sb_data_blk_num (sp_blk w) then \<not> calm w w' else e = MOFS_EINVAL \<and> vol w' = vol w
       | Inr _ \<Rightarrow> idx < sb_data_blk_num (sp_blk w) \<and>
           (\<forall>j<unat (sb_data_blk_num (sp_blk w)).
              data_used (sp_blk w) (vol w') j = (if j = unat idx then u else data_used (sp_blk w) (vol w) j)))) w"
proof (rule wp_mono [OF runsD [OF dm.set_off assms refl refl]], goal_cases)
  case (1 r w')
  have sb: "en_sb (env_of w) = sp_blk w" by (simp add: env_of_def)
  have lay: "layout_ok (sp_blk w)" and wf: "wf_disk (sp_blk w) (vol w)"
    using fs_ok_layout [OF assms] vol_wf [OF assms] .
  show ?case
  proof (cases "idx < sb_data_blk_num (sp_blk w)")
    case True
    then have lt: "unat idx < unat (sb_data_blk_num (sp_blk w))" by (simp add: word_less_nat_alt)
    show ?thesis
      using 1 True lt dm.mark_off [OF lay, of "unat idx" "vol w" u] dm.used_mark [OF lay wf lt]
      unfolding sb by (cases r) auto
  next
    case False
    then show ?thesis using 1 unfolding sb by (cases r) (auto simp: word_less_nat_alt)
  qed
qed

theorem data_bitmap_set_exact_witness:
  "wp (set_data_bitmap_bit 2 True) (\<lambda>r w'. fs_ok w' \<and> (r = Inr () \<longrightarrow> data_used demo_sb (vol w') 2)) (demo BC_Unified)"
proof -
  have "sp_blk (demo BC_Unified) = demo_sb" "sb_data_blk_num demo_sb = 12" by (simp_all add: demo_defs)
  with data_bitmap_set_exact [OF demo_fs_ok, of 2 True BC_Unified] show ?thesis by (auto elim!: wp_mono)
qed

text \<open>C15. The search for free data blocks changes nothing, and returns the first \<open>need\<close> free indices
  in increasing order, which are therefore distinct, in range and free; when nothing fails it
  reports an error only if fewer blocks are free, and then ENOSPC.\<close>

theorem find_free_data_blocks_first_fit:
  assumes "fs_ok w"
  shows "wp (find_free_data_block_indices need) (\<lambda>r w'. fs_ok w' \<and> io_frame w w' \<and> vol w' = vol w \<and>
      (let free = filter (\<lambda>i. \<not> data_used (sp_blk w) (vol w) i) [0..<unat (sb_data_blk_num (sp_blk w))] in
       case r of
         Inl e \<Rightarrow> calm w w' \<longrightarrow> e = MOFS_ENOSPC \<and> length free < unat need
       | Inr found \<Rightarrow> map unat found = take (unat need) free \<and> length found = unat need)) w"
proof (rule wp_mono [OF runsD [OF dm.find_law assms refl refl]], goal_cases)
  case (1 r w')
  have sb: "en_sb (env_of w) = sp_blk w" by (simp add: env_of_def)
  show ?case
  proof (cases r)
    case (Inl e)
    then show ?thesis using 1 unfolding sb Let_def by auto
  next
    case (Inr found)
    let ?free = "filter (\<lambda>i. \<not> data_used (sp_blk w) (vol w) i) [0..<unat (sb_data_blk_num (sp_blk w))]"
    have f: "unat need \<le> length ?free" "found = map word_of_nat (take (unat need) ?free)"
      using 1 unfolding Inr sb Let_def by simp_all
    show ?thesis using 1 dm.found_facts(1,2) [OF f] unfolding Inr sb Let_def by simp
  qed
qed

theorem find_free_data_blocks_first_fit_witness:
  "wp (find_free_data_block_indices 2) (\<lambda>r w'. \<forall>found. r = Inr found \<longrightarrow> length found = 2) (demo BC_Split)"
  by (rule wp_mono [OF find_free_data_blocks_first_fit [OF demo_fs_ok, of 2 BC_Split]]) (auto simp: Let_def)

section \<open>Encodings\<close>




text \<open>C28. A block size is accepted exactly when it is a power of two between 512 and 65536.\<close>

theorem valid_block_sizes:
  "mofs_validate_logical_blk_size b = None \<longleftrightarrow> (\<exists>k. 9 \<le> k \<and> k \<le> 16 \<and> unat b = 2 ^ k)"
proof -
  have and0: "b AND (b - 1) = 0 \<longleftrightarrow> unat b AND (unat b - 1) = 0" if "b \<noteq> 0"
  proof -
    have "unat (b - 1) = unat b - 1"
      using that unat_sub_le [of 1 b] by (simp add: Suc_le_eq unat_gt_0)
    then have "unat (b AND (b - 1)) = unat b AND (unat b - 1)"
      unfolding unsigned_and_eq by simp
    then show ?thesis by (metis unat_eq_zero)
  qed
  have range: "mofs_validate_logical_blk_size b = None \<longleftrightarrow>
      512 \<le> unat b \<and> unat b \<le> 65536 \<and> b AND (b - 1) = 0"
    by (auto simp: mofs_validate_logical_blk_size_def mofs_consts word_less_nat_alt)
  show ?thesis
  proof
    assume v: "mofs_validate_logical_blk_size b = None"
    then have r: "512 \<le> unat b" "unat b \<le> 65536" "b AND (b - 1) = 0" using range by auto
    then have "b \<noteq> 0" by auto
    then have b: "512 \<le> unat b" "unat b \<le> 65536" "unat b AND (unat b - 1) = 0"
      using r and0 by blast+
    obtain k where k: "2 ^ k \<le> unat b" "unat b < 2 ^ Suc k"
      using ex_power_ivl1 [of 2 "unat b"] b(1) by auto
    then have eq: "unat b = 2 ^ k" using pow2_iff_and_pred b(3) by blast
    have "(2::nat) ^ 9 \<le> 2 ^ k" "(2::nat) ^ k \<le> 2 ^ 16" using b eq by simp_all
    then have "9 \<le> k" "k \<le> 16" by (simp_all only: power_increasing_iff one_less_numeral_iff semiring_norm)
    then show "\<exists>k. 9 \<le> k \<and> k \<le> 16 \<and> unat b = 2 ^ k" using eq by blast
  next
    assume "\<exists>k. 9 \<le> k \<and> k \<le> 16 \<and> unat b = 2 ^ k"
    then obtain k where k: "9 \<le> k" "k \<le> 16" "unat b = 2 ^ k" by blast
    have "(2::nat) ^ 9 \<le> 2 ^ k" "(2::nat) ^ k \<le> 2 ^ 16"
      using k by (simp_all only: power_increasing_iff one_less_numeral_iff semiring_norm)
    moreover have "unat b AND (unat b - 1) = 0" using k(3) pow2_iff_and_pred [of k "unat b"] by simp
    moreover have "b \<noteq> 0" using k(3) by auto
    ultimately show "mofs_validate_logical_blk_size b = None" using k(3) range and0 by simp
  qed
qed

text \<open>C29. Converting a MOFS error code to an errno of the host and back gives the code again, so two
  different MOFS errors are never reported as the same errno.\<close>

theorem errno_roundtrip: "os_to_mofs_errno (mofs_to_os_errno e) = e"
  by (rule os_to_mofs_to_os)

end
