(* ===== verification/Mofs_Props_Fs.thy ===== *)
theory Mofs_Props_Fs
  imports Mofs_Demo
begin

text \<open>
  Properties of the file system above block I/O, each applied to the sample volume of
  \<open>Mofs_Demo\<close> where it has hypotheses: block lists and the allocation invariant.
\<close>

abbreviation sample_world :: world where
  "sample_world \<equiv> demo_on BC_Unified sample"

lemma env_sb: "en_sb (env_of w) = sp_blk w"
  by (simp add: env_of_def)

lemma sample_world_fs: "fs_ok sample_world" "fs_inv (sp_blk sample_world) (vol sample_world) {2, 3} sample_nodes sample_blocks"
  using sample_fs_inv by simp_all

section \<open>Block lists\<close>

text \<open>C4. Appending blocks to a file, when it reports success, has given it the first free blocks of the
  volume in order, and has kept every block it had and the content of every file; no block belongs
  to two files and every block in use is marked, even when the release of the superseded list
  failed underneath. When nothing fails the bitmap marks exactly the blocks in use, and a
  refusal is ENOSPC and leaves the lists, the inodes and the contents as they were. Whatever
  fails, the routine returns and the volume stays mounted.\<close>

theorem append_blocks_keeps_invariant:
  assumes "fs_ok w" and "fs_inv (sp_blk w) (vol w) L N D" and "n \<in> L" and "length (D n) + unat req < 2 ^ 32"
  shows "wp (allocate_data_block n req) (\<lambda>r w'. fs_ok w' \<and> io_frame w w' \<and> (case r of
      Inl e \<Rightarrow> calm w w' \<longrightarrow> e = MOFS_ENOSPC \<and> fs_inv (sp_blk w) (vol w') L N D \<and> same_files (sp_blk w) (vol w) (vol w') L D
    | Inr _ \<Rightarrow> length (first_free (sp_blk w) (vol w) (unat req)) = unat req \<and>
        same_files (sp_blk w) (vol w) (vol w') (L - {n}) D \<and> map (vol w') (D n) = map (vol w) (D n) \<and>
        (\<exists>ns. fs_safe (sp_blk w) (vol w') L (N(n := ns)) (D(n := D n @ first_free (sp_blk w) (vol w) (unat req))) \<and>
           (calm w w' \<longrightarrow>
             fs_inv (sp_blk w) (vol w') L (N(n := ns)) (D(n := D n @ first_free (sp_blk w) (vol w) (unat req))))))) w"
proof (rule wp_mono [OF runsD [OF runs_allocate_fs [OF assms(2-4) [folded env_sb]] assms(1) refl refl]],
    unfold Let_def env_sb, goal_cases)
  case (1 r w')
  then show ?case by (cases r) (simp_all, blast)
qed

theorem append_blocks_keeps_invariant_witness:
  "wp (allocate_data_block 3 1) (\<lambda>r w'. fs_ok w' \<and> (calm sample_world w' \<longrightarrow> r = Inr () \<longrightarrow>
      (\<exists>ns. fs_inv demo_sb (vol w') {2, 3} (sample_nodes(3 := ns)) (sample_blocks(3 := [7, 8, 9]))))) sample_world"
proof -
  have "filter (\<lambda>i. \<not> data_used demo_sb (vol sample_world) i) [0..<12] = filter (\<lambda>i. \<not> i < 5) [0..<12]"
    using sample_used by (intro filter_cong) auto
  then have ff: "first_free demo_sb (vol sample_world) (Suc 0) = [9]" by (simp add: first_free_def upt_rec)
  have "3 \<in> {2, 3 :: int}" "length (sample_blocks 3) + unat (1 :: u32) < 2 ^ 32" by (simp_all add: sample_blocks_def)
  from append_blocks_keeps_invariant [OF sample_world_fs this] show ?thesis
    by (rule wp_mono) (auto simp: ff sample_blocks_def)
qed

text \<open>C5. Removing blocks from position \<open>start\<close> of a file on: nothing to remove is a success without effect,
  a position beyond the end is refused with EINVAL without effect. Otherwise a reported success
  means that the file keeps exactly its other blocks, in order and with their content, that the
  other files did not change and that no block is shared or unmarked while in use; when nothing
  fails the allocation invariant is kept, and a refusal is ENOSPC, for want of a block for the new
  list, and leaves every list as it was.\<close>

theorem remove_blocks_keeps_invariant:
  assumes "fs_ok w" and "fs_inv (sp_blk w) (vol w) L N D" and "n \<in> L" and "unat start + unat req < 2 ^ 32"
    and "keep = take (unat start) (D n) @ drop (unat start + unat req) (D n)"
  shows "wp (free_data_block n start req) (\<lambda>r w'. fs_ok w' \<and> io_frame w w' \<and>
      (if req = 0 then r = Inr () \<and> vol w' = vol w
       else if length (D n) \<le> unat start
       then vol w' = vol w \<and> (case r of Inl e \<Rightarrow> calm w w' \<longrightarrow> e = MOFS_EINVAL | Inr _ \<Rightarrow> False)
       else (case r of
            Inl e \<Rightarrow> calm w w' \<longrightarrow> e = MOFS_ENOSPC \<and> fs_inv (sp_blk w) (vol w') L N D \<and>
              same_files (sp_blk w) (vol w) (vol w') (L - {n}) D \<and> map (vol w') keep = map (vol w) keep
          | Inr _ \<Rightarrow> same_files (sp_blk w) (vol w) (vol w') (L - {n}) D \<and> map (vol w') keep = map (vol w) keep \<and>
              (\<exists>ns. fs_safe (sp_blk w) (vol w') L (N(n := ns)) (D(n := keep)) \<and>
                (calm w w' \<longrightarrow> fs_inv (sp_blk w) (vol w') L (N(n := ns)) (D(n := keep))))))) w"
proof -
  let ?f = "min (unat req) (length (D n) - unat start)"
  have keep: "take (unat start) (D n) @ drop (unat start + ?f) (D n) = keep"
    unfolding assms(5) by (cases "length (D n) \<le> unat start + unat req") simp_all
  show ?thesis
  proof (rule wp_mono [OF runsD [OF runs_free_fs [OF assms(2-4) [folded env_sb] refl] assms(1) refl refl]],
      unfold keep env_sb Let_def, elim conjE, goal_cases)
    case (1 r w')
    show ?case
    proof (cases "req = 0 \<or> length (D n) \<le> unat start")
      case True
      then show ?thesis using 1 by (cases "req = 0") (auto split: sum.splits)
    next
      case False
      then have ne: "req \<noteq> 0" "\<not> length (D n) \<le> unat start" by simp_all
      then show ?thesis using 1 unfolding if_not_P [OF ne(1)] if_not_P [OF ne(2)] by (cases r) (simp_all, blast)
    qed
  qed
qed

theorem remove_blocks_keeps_invariant_witness:
  "wp (free_data_block 3 1 1) (\<lambda>r w'. fs_ok w' \<and> (calm sample_world w' \<longrightarrow> r = Inr () \<longrightarrow>
      (\<exists>ns. fs_inv demo_sb (vol w') {2, 3} (sample_nodes(3 := ns)) (sample_blocks(3 := [7]))))) sample_world"
proof -
  have "3 \<in> {2, 3 :: int}" "unat (1 :: u32) + unat (1 :: u32) < 2 ^ 32"
    "[7] = take (unat (1 :: u32)) (sample_blocks 3) @ drop (unat (1 :: u32) + unat (1 :: u32)) (sample_blocks 3)"
    by (simp_all add: sample_blocks_def)
  from remove_blocks_keeps_invariant [OF sample_world_fs this] show ?thesis
    by (rule wp_mono) (auto simp: sample_blocks_def)
qed

text \<open>C13. Looking up a logical block of a file changes nothing. For an index below the number of blocks it
  gives the block that the list maps it to, unless something fails; for any other index it
  reports EINVAL and never a block.\<close>

theorem resolve_returns_mapped_block:
  assumes "fs_ok w" and "fs_inv (sp_blk w) (vol w) L N D" and "n \<in> L"
  shows "wp (resolve_file_data_block n k) (\<lambda>r w'. fs_ok w' \<and> io_frame w w' \<and> vol w' = vol w \<and> (case r of
      Inl e \<Rightarrow> calm w w' \<longrightarrow> length (D n) \<le> unat k \<and> e = MOFS_EINVAL
    | Inr b \<Rightarrow> unat k < length (D n) \<and> b = D n ! unat k)) w"
proof -
  note f = fs_invD(1,2) [OF assms(2,3)]
  have fb: "file_blocks (en_sb (env_of w)) (vol w) (inode_in (en_sb (env_of w)) (vol w) n) (N n) (D n)"
    using f(2) by (simp add: owned_def env_sb)
  show ?thesis
    by (rule wp_mono [OF runsD [OF runs_resolve [OF f(1) [folded env_sb] fb, of k] assms(1) refl refl]])
      (auto split: sum.splits if_splits)
qed

theorem resolve_returns_mapped_block_witness:
  "wp (resolve_file_data_block 3 1) (\<lambda>r w'. vol w' = vol sample_world \<and> (\<forall>b. r = Inr b \<longrightarrow> b = 8)) sample_world"
proof -
  have "3 \<in> {2, 3 :: int}" by simp
  from resolve_returns_mapped_block [OF sample_world_fs this, of 1] show ?thesis
    by (rule wp_mono) (auto simp: sample_blocks_def)
qed

lemma runs_returns: "runs (env_of w) (vol w) m P \<Longrightarrow> fs_ok w \<Longrightarrow> \<exists>x. m w = Some x"
  using runsD [of "env_of w" "vol w" m P w] by (auto simp: wp_iff)

text \<open>C14. The loops over the list nodes end: on the chain of a file, the export of its block list, the
  release of its nodes and every lookup return, whatever the device does.\<close>

theorem list_walks_terminate:
  assumes "fs_ok w" and "file_blocks (sp_blk w) (vol w) i ns ds"
  shows "(\<exists>x. export_data_block_list i (i_nr_blocks i) w = Some x) \<and> (\<exists>x. free_list_chain (i_data_head i) w = Some x) \<and>
    (\<forall>k buf. length buf = blksz w \<and> unat k < length ds \<longrightarrow>
      (\<exists>x. resolve_loop (list_ptrs_cap (sp_blk w)) buf (i_data_head i) k w = Some x))"
proof -
  note returns = runs_returns [OF _ assms(1)]
  note fb = assms(2) [folded env_sb]
  have ch: "chain (en_sb (env_of w)) (vol w) (i_data_head i) ns" "distinct ns" "chain_ptrs (vol w) ns = ds"
    using fb by (simp_all add: file_blocks_def)
  show ?thesis
    by (intro conjI allI impI returns [OF runs_export [OF fb order.refl]] returns [OF runs_free_list_chain [OF ch(1,2)]]
        returns [OF runs_resolve_loop [OF _ ch(1), unfolded env_sb]])
      (auto simp: ch(3))
qed

theorem list_walks_terminate_witness:
  "\<exists>x. free_list_chain 6 sample_world = Some x"
proof -
  have "file_blocks (sp_blk sample_world) (vol sample_world) sample_file [6] [7, 8]"
    using fs_invD(2) [OF sample_world_fs(2), of 3] by (simp add: owned_def sample_inodes sample_nodes_def sample_blocks_def)
  from list_walks_terminate [OF sample_world_fs(1) this] show ?thesis by (simp add: sample_file_def)
qed

lemma cyclic_lookup:
  assumes "resolve_loop cap buf b k w = Some x"
  shows "fs_ok w \<and> data_blk (sp_blk w) b \<and> list_hdr_of (vol w b) = \<lparr>next_abs = b, nr_ptrs = 0\<rparr> \<and> length buf = blksz w \<longrightarrow>
    io_frame w (snd x) \<and> \<not> calm w (snd x)"
proof (rule resolve_loop.raw_induct [where P = "\<lambda>cap buf b k w x. fs_ok w \<and> data_blk (sp_blk w) b \<and>
      list_hdr_of (vol w b) = \<lparr>next_abs = b, nr_ptrs = 0\<rparr> \<and> length buf = blksz w \<longrightarrow> io_frame w (snd x) \<and> \<not> calm w (snd x)",
      OF _ assms], rule impI, elim conjE, goal_cases)
  case (1 f cap buf b k w x)
  note w = 1(3) and b = 1(4) and hdr = 1(5) and len = 1(6)
  have nz: "b \<noteq> 0" by (rule data_blk_regions(4) [OF fs_ok_layout [OF w] b])
  have vb: "in_vol (sp_blk w) b" by (rule data_blk_vol [OF b])
  obtain r w1 where rd: "read_list_node b buf w = Some (r, w1)" and w1: "fs_ok w1" "io_frame w w1" "vol w1 = vol w"
    and r: "case r of Inl _ \<Rightarrow> \<not> calm w w1 | Inr d \<Rightarrow> d = vol w b \<and> length d = blksz w"
    using runsD [OF runs_read_block [of buf "env_of w", unfolded env_sb, OF len] w refl refl, of b] vb
    unfolding read_list_node_block by (auto simp: wp_iff env_sb split: sum.splits)
  show ?case
  proof (cases r)
    case (Inl e)
    then have "x = (Inl e, w1)" using 1(2) nz rd by (simp add: bind_def)
    then show ?thesis using w1 r Inl by simp
  next
    case (Inr d)
    then have d: "d = vol w b" "length d = blksz w" using r by auto
    have "f cap d b k w1 = Some x"
      using 1(2) nz rd hdr by (simp add: bind_def Inr d(1) throw_if_def ret_def)
    moreover have "sp_blk w1 = sp_blk w" using io_frame_ctx [OF w1(2)] by simp
    ultimately have "io_frame w1 (snd x) \<and> \<not> calm w1 (snd x)"
      using 1(1) [of cap d b k w1 x] w1 b hdr d by simp
    then show ?thesis using io_frame_trans [OF w1(2)] calm_split(2) [OF _ w1(2)] by blast
  qed
qed

text \<open>C24. A list whose node links to itself and holds no pointer traps every lookup: the loop returns only
  if the device fails.\<close>

theorem cyclic_list_traps_lookup:
  assumes "fs_ok w" and "data_blk (sp_blk w) b" and "list_hdr_of (vol w b) = \<lparr>next_abs = b, nr_ptrs = 0\<rparr>"
    and "length buf = blksz w"
  shows "\<not> (\<exists>r w'. resolve_loop cap buf b k w = Some (r, w') \<and> calm w w')"
proof -
  have "io_frame w w' \<and> \<not> calm w w'" if "resolve_loop cap buf b k w = Some (r, w')" for r w'
    using that assms cyclic_lookup by fastforce
  then show ?thesis by blast
qed

theorem cyclic_list_traps_lookup_witness:
  "\<not> (\<exists>r w'. resolve_loop 126 (replicate 512 0) 5 0 (demo_on BC_Disabled (sample(5 := list_node_image 512 5 []))) = Some (r, w') \<and>
     calm (demo_on BC_Disabled (sample(5 := list_node_image 512 5 []))) w')"
proof -
  let ?img = "sample(5 := list_node_image 512 5 [])"
  have img: "demo_image ?img" using sample_image list_node_image_facts(1) [of "[]" 512 5] by (simp add: demo_image_def)
  have "list_hdr_of (vol (demo_on BC_Disabled ?img) 5) = \<lparr>next_abs = 5, nr_ptrs = 0\<rparr>"
    using list_node_image_facts(2,3) [of "[]" 512 5] by (simp add: demo_on_vol [OF img] list_hdr_of_def unat_eq_zero)
  moreover have "data_blk (sp_blk (demo_on BC_Disabled ?img)) 5" by (simp add: data_blk_def)
  moreover have "length (replicate 512 (0 :: byte)) = blksz (demo_on BC_Disabled ?img)" by simp
  ultimately show ?thesis using cyclic_list_traps_lookup [OF demo_on_fs_ok [OF img]] by blast
qed

end
