(* ===== verification/Mofs_Filedata.thy ===== *)
theory Mofs_Filedata
  imports Mofs_Fs Mofs_File
begin

text \<open>
  The content of files. \<open>file_bytes sb V ds n\<close> are the first \<open>n\<close> bytes of the blocks \<open>ds\<close> of a
  volume; reading and writing the data blocks of a file, \<open>read_file_data_block\<close> and
  \<open>write_file_data_block\<close> of \<open>src/core/modules/mofs_file.c\<close>, are specified by it.
\<close>

section \<open>One block\<close>

lemma runs_read_one:
  assumes "length buf = bsz E" and b: "in_vol (en_sb E) b"
  shows "runs E V (bind (gets dev_fd) (\<lambda>fd. read_continuous_blocks fd buf 1 b)) (\<lambda>V' r c. V' = V \<and>
    (case r of Inl _ \<Rightarrow> \<not> c
     | Inr (blk, cnt, frac) \<Rightarrow> length blk = bsz E \<and>
         (cnt = 1 \<and> frac = 0 \<and> blk = V b \<or> cnt = 0 \<and> unat frac < bsz E \<and> \<not> c)))"
  (is "runs E V ?m ?P")
proof (rule runsI)
  fix w assume w: "fs_ok w" "env_of w = E" "vol w = V" "sp_blk w = en_sb E"
  have inv: "bc_inv w" and len: "length buf = blksz w" using w assms(1) by (simp_all add: fs_ok_def)
  have fit: "fits w b" using in_vol_fits [OF w(1)] b w(4) by simp
  have Vb: "bc_view w b = V b" using b w(3,4) by (auto simp: vol_def)
  show "wp ?m (\<lambda>r w'. fs_ok w' \<and> io_frame w w' \<and> ?P (vol w') r False \<and> (calm w w' \<longrightarrow> ?P (vol w') r True)) w"
    unfolding wp_bind wp_gets sum.case
  proof (rule wp_mono [OF bc_read_law [OF inv len]], unfold rd_post_def, elim conjE, goal_cases)
    case (1 r w')
    have V': "vol w' = V" using vol_same [OF w(1) 1(2,3)] w(3) by simp
    show ?case
      using 1 fit Vb V' fs_ok_frame [OF w(1) 1(2,1)] w(4) by (cases r) (auto split: prod.splits)
  qed
qed

lemma runs_write_one:
  assumes "length src = bsz E" and b: "in_vol (en_sb E) b"
  shows "runs E V (bind (gets dev_fd) (\<lambda>fd. write_continuous_blocks fd src 1 b)) (\<lambda>V' r c.
    (\<exists>d. length d = bsz E \<and> V' = V(b := d)) \<and> (r = Inr (1, 0) \<longrightarrow> V' = V(b := src)) \<and> (c \<longrightarrow> r = Inr (1, 0)))"
  (is "runs E V ?m ?P")
proof (rule runsI)
  fix w assume w: "fs_ok w" "env_of w = E" "vol w = V" "sp_blk w = en_sb E"
  have inv: "bc_inv w" and len: "length src = blksz w" using w assms(1) by (simp_all add: fs_ok_def)
  have fit: "fits w b" using in_vol_fits [OF w(1)] b w(4) by simp
  show "wp ?m (\<lambda>r w'. fs_ok w' \<and> io_frame w w' \<and> ?P (vol w') r False \<and> (calm w w' \<longrightarrow> ?P (vol w') r True)) w"
    unfolding wp_bind wp_gets sum.case
  proof (rule wp_mono [OF bc_write_law [OF inv len fit]], unfold wr_post_def, elim conjE, goal_cases)
    case (1 r w')
    have up: "vol w' = V(b := bc_view w' b)" using vol_update [OF w(1) 1(2) _ 1(3)] b w(3,4) by simp
    have "length (bc_view w' b) = bsz E"
      using bc.view_length [OF 1(1) fits_frame [OF 1(2) fit]] io_frame_ctx [OF 1(2)] w(4) by simp
    then show ?case
      using 1 up fs_ok_frame [OF w(1) 1(2,1)] by auto
  qed
qed


text \<open>The same as rules for the first step of a sequence.\<close>

lemma bind_assoc: "bind (bind m f) g = bind m (\<lambda>x. bind (f x) g)"
  by (rule ext) (simp add: bind_def split: option.splits sum.splits)

lemma runs_read_then:
  assumes "length buf = bsz E" and "in_vol (en_sb E) b"
    and err: "\<And>e. R V (Inl e) False" and ok: "runs E V (f (V b, 1, 0)) R"
    and short: "\<And>blk frac. length blk = bsz E \<Longrightarrow> unat frac < bsz E \<Longrightarrow> runs E V (f (blk, 0, frac)) (\<lambda>V' r c. R V' r False)"
  shows "runs E V (bind (gets dev_fd) (\<lambda>fd. bind (read_continuous_blocks fd buf 1 b) f)) R"
  unfolding bind_assoc [symmetric]
proof (rule runs_bind [OF runs_read_one [OF assms(1,2)]], goal_cases)
  case (1 V' e c)
  then show ?case using err by auto
next
  case (2 V' x)
  obtain blk cnt frac where x: "x = (blk, cnt, frac)" by (metis prod_cases3)
  show ?case
  proof (cases "cnt = 1 \<and> frac = 0 \<and> blk = V b")
    case True
    then show ?thesis using 2 ok unfolding x by (auto elim: runs_mono)
  next
    case False
    then have "cnt = 0" "length blk = bsz E" "unat frac < bsz E" "V' = V" using 2 unfolding x by auto
    then show ?thesis using False short [of blk frac] unfolding x by (auto elim: runs_mono)
  qed
qed

lemma runs_write_then:
  assumes "length src = bsz E" and "in_vol (en_sb E) b"
    and err: "\<And>e d. length d = bsz E \<Longrightarrow> R (V(b := d)) (Inl e) False" and ok: "runs E (V(b := src)) (f (1, 0)) R"
    and short: "\<And>d x. length d = bsz E \<Longrightarrow> x \<noteq> (1, 0) \<Longrightarrow> runs E (V(b := d)) (f x) (\<lambda>V' r c. R V' r False)"
  shows "runs E V (bind (gets dev_fd) (\<lambda>fd. bind (write_continuous_blocks fd src 1 b) f)) R"
  unfolding bind_assoc [symmetric]
proof (rule runs_bind [OF runs_write_one [OF assms(1,2)]], goal_cases)
  case (1 V' e c)
  then show ?case using err by auto
next
  case (2 V' x)
  then obtain d where d: "V' = V(b := d)" "length d = bsz E" by blast
  show ?case
  proof (cases "x = (1, 0)")
    case True
    then have "V' = V(b := src)" using 2 by simp
    then show ?thesis using ok True by (auto elim: runs_mono)
  next
    case False
    then show ?thesis using short [OF d(2) False] unfolding d(1) by (auto elim: runs_mono)
  qed
qed

section \<open>Runs of blocks\<close>

text \<open>\<open>chunk i k ds\<close> are \<open>k\<close> blocks of a file from block \<open>i\<close> on; \<open>blocks_of V ds\<close> is their content.\<close>

definition blocks_of :: "disk \<Rightarrow> u32 list \<Rightarrow> byte list" where
  "blocks_of V ds = concat (map V ds)"

definition file_bytes :: "disk \<Rightarrow> u32 list \<Rightarrow> nat \<Rightarrow> byte list" where
  "file_bytes V ds n = take n (blocks_of V ds)"

lemma blocks_of_length:
  "(\<And>x. x \<in> set ds \<Longrightarrow> length (V x) = k) \<Longrightarrow> length (blocks_of V ds) = length ds * k"
  by (induction ds) (simp_all add: blocks_of_def)

lemma blocks_of_append: "blocks_of V (xs @ ys) = blocks_of V xs @ blocks_of V ys"
  by (simp add: blocks_of_def)

lemma blocks_of_chunk:
  assumes "\<And>x. x \<in> set ds \<Longrightarrow> length (V x) = k"
  shows "blocks_of V (chunk i n ds) = chunk (i * k) (n * k) (blocks_of V ds)"
proof -
  have d: "blocks_of V (drop i ds) = drop (i * k) (blocks_of V ds)" if "\<And>x. x \<in> set ds \<Longrightarrow> length (V x) = k" for i ds
    using that by (induction ds arbitrary: i) (auto simp: blocks_of_def drop_Cons split: nat.splits)
  have t: "blocks_of V (take n ds) = take (n * k) (blocks_of V ds)" if "\<And>x. x \<in> set ds \<Longrightarrow> length (V x) = k" for n ds
    using that by (induction ds arbitrary: n) (auto simp: blocks_of_def take_Cons split: nat.splits)
  have "x \<in> set (drop i ds) \<Longrightarrow> length (V x) = k" for x using assms by (meson in_set_dropD)
  then show ?thesis unfolding chunk_def using t d assms by simp
qed

lemma owned_lengths:
  assumes "layout_ok sb" and "wf_disk sb V" and "owned sb V n ns ds" and "x \<in> set ds"
  shows "length (V x) = unat (sb_blk_size sb)" and "in_vol sb x"
  using assms(3,4) wf_diskD [OF assms(2) data_blk_vol] data_blk_vol by (auto simp: owned_def)

section \<open>Reading the blocks of a file\<close>

lemma chunk_Cons: "i < length xs \<Longrightarrow> chunk i (Suc n) xs = xs ! i # chunk (Suc i) n xs"
  unfolding chunk_def by (subst Cons_nth_drop_Suc [symmetric]) simp_all

lemma overwrite_blocks_step:
  fixes bs :: nat
  assumes lens: "\<And>x. x \<in> set ds \<Longrightarrow> length (V x) = bs" and b: "b = ds ! (s + j)"
    and j: "j < m" and fit: "s + m \<le> length ds" and buf: "m * bs \<le> length buf"
  shows "overwrite (Suc j * bs) (blocks_of V (chunk (s + Suc j) (m - Suc j) ds)) (overwrite (j * bs) (V b) buf) =
    overwrite (j * bs) (blocks_of V (chunk (s + j) (m - j) ds)) buf"
proof -
  have idx: "s + j < length ds" using j fit by simp
  have lV: "length (V b) = bs" using lens nth_mem [OF idx] b by simp
  have ch: "chunk (s + j) (m - j) ds = b # chunk (s + Suc j) (m - Suc j) ds"
    using chunk_Cons [OF idx, of "m - Suc j"] j b by (simp add: Suc_diff_Suc)
  have "length (blocks_of V (chunk (s + Suc j) (m - Suc j) ds)) = (m - Suc j) * bs"
    using fit j lens by (subst blocks_of_length [where k = bs]) (auto simp: chunk_def dest!: in_set_takeD in_set_dropD)
  moreover have "bs + (m - Suc j) * bs = (m - j) * bs" using j by (simp add: Suc_diff_Suc [symmetric])
  moreover have "j * bs + (m - j) * bs = m * bs" using j by (simp flip: add_mult_distrib)
  ultimately have "j * bs + length (V b) + length (blocks_of V (chunk (s + Suc j) (m - Suc j) ds)) \<le> length buf"
    using buf lV by simp
  from overwrite_append [OF this] show ?thesis unfolding ch lV by (simp add: blocks_of_def add.commute)
qed

lemma file_idx:
  assumes "unat (start :: u32) + j < n" and "n \<le> 1024"
  shows "unat (start + word_of_nat j) = unat start + j"
  using assms by (simp add: unat_word_ariths(1) unat_word_of_nat)

lemma runs_read_file_loop:
  fixes E :: env
  defines "sb \<equiv> en_sb E" and "bs \<equiv> bsz E"
  assumes n: "inode_num_ok sb n" and own: "owned sb V n ns ds" and max: "length ds \<le> 1024"
    and fit: "unat start + m \<le> length ds" and j: "j \<le> m" "unat cnt = j" and buf: "m * bs \<le> length buf"
  shows "runs E V (read_file_loop sb n start [j..<m] buf cnt) (\<lambda>V' r c. V' = V \<and> (case r of
      Inl _ \<Rightarrow> \<not> c
    | Inr (buf', k, frac) \<Rightarrow> length buf' = length buf \<and>
        (frac = 0 \<and> unat k = m \<and> buf' = overwrite (j * bs) (blocks_of V (chunk (unat start + j) (m - j) ds)) buf \<or>
         \<not> c \<and> frac \<noteq> 0 \<and> unat frac < bs \<and> unat k < m)))"
  using j buf
proof (induction "m - j" arbitrary: j cnt buf)
  case 0
  then show ?case by (simp add: runs_ret chunk_def blocks_of_def)
next
  case (Suc k)
  let ?b = "ds ! (unat start + j)"
  have jm: "j < m" using Suc.hyps by simp
  have idx: "unat start + j < length ds" using jm fit by simp
  note un = file_idx [OF idx max]
  have b: "in_vol (en_sb E) ?b" using own nth_mem [OF idx] data_blk_vol unfolding sb_def by (auto simp: owned_def)
  have fb: "file_blocks (en_sb E) V (inode_in (en_sb E) V n) ns ds" using own by (simp add: owned_def sb_def)
  have room: "j * bs + bs \<le> m * bs" using jm mult_le_mono1 [of "Suc j" m bs] by simp
  then have roomb: "\<not> length buf < j * bs + bs" using Suc.prems(3) by simp
  have lb: "length (chunk (j * bs) bs buf) = bsz E" using roomb by (simp add: bs_def)
  have upt: "[j..<m] = j # [Suc j..<m]" using jm by (rule upt_conv_Cons)
  have c1: "unat (cnt + 1) = Suc j" using Suc.prems(2) idx max by (simp add: unat_word_ariths(1))
  show ?case
    unfolding upt read_file_loop.simps Let_def bs_def [symmetric, unfolded sb_def [symmetric]]
  proof (rule runs_wf, rule runs_bind [OF runs_resolve [OF n [unfolded sb_def] fb]], unfold un, goal_cases)
    case (1 V' e c)
    then show ?case using idx by simp
  next
    case (2 V' abs)
    note wf = 2(2)
    have abs: "V' = V" "abs = ?b" using 2 idx by simp_all
    have lV: "length (V ?b) = bs" using wf_diskD [OF wf b] by (simp add: bs_def)
    have ih: "runs E V (read_file_loop sb n start [Suc j..<m] (overwrite (j * bs) (V ?b) buf) (cnt + 1)) (\<lambda>V' r c. V' = V \<and> (case r of
        Inl _ \<Rightarrow> \<not> c
      | Inr (buf', k, frac) \<Rightarrow> length buf' = length buf \<and>
          (frac = 0 \<and> unat k = m \<and> buf' = overwrite (j * bs) (blocks_of V (chunk (unat start + j) (m - j) ds)) buf \<or>
           \<not> c \<and> frac \<noteq> 0 \<and> unat frac < bs \<and> unat k < m)))"
    proof -
      have eq: "overwrite (Suc j * bs) (blocks_of V (chunk (unat start + Suc j) (m - Suc j) ds)) (overwrite (j * bs) (V ?b) buf) =
          overwrite (j * bs) (blocks_of V (chunk (unat start + j) (m - j) ds)) buf"
        by (rule overwrite_blocks_step [OF _ _ jm fit Suc.prems(3)])
          (use owned_lengths(1) [OF 2(1,2) own [unfolded sb_def]] in \<open>auto simp: bs_def\<close>)
      have lo: "length (overwrite (j * bs) (V ?b) buf) = length buf" using roomb lV by simp
      have pre: "Suc j \<le> m" "k = m - Suc j" "m * bs \<le> length (overwrite (j * bs) (V ?b) buf)"
        using jm Suc.hyps(2) Suc.prems(3) roomb lV by simp_all
      show ?thesis
        using Suc.hyps(1) [OF pre(2,1) c1 pre(3)] unfolding eq lo .
    qed
    show ?case
      unfolding abs if_not_P [OF roomb]
    proof (rule runs_read_then [OF lb b], goal_cases)
      case (1 e)
      then show ?case by simp
    next
      case 2
      then show ?case using ih by (auto elim: runs_mono)
    next
      case (3 blk frac)
      show ?case
      proof (cases "frac = 0")
        case True
        then show ?thesis by (auto intro!: runs_throw)
      next
        case False
        then show ?thesis using 3 roomb jm Suc.prems(2) by (auto intro!: runs_ret simp: bs_def)
      qed
    qed
  qed
qed

text \<open>The number of blocks that \<open>n\<close> bytes need.\<close>

definition blks_for :: "nat \<Rightarrow> nat \<Rightarrow> nat" where
  "blks_for bs n = (n + bs - 1) div bs"

lemma blks_for_le: "0 < bs \<Longrightarrow> n \<le> m * bs \<Longrightarrow> blks_for bs n \<le> m"
proof -
  assume "0 < bs" "n \<le> m * bs"
  then have "(n + bs - 1) div bs < Suc m" by (intro div_less_iff_less_mult [THEN iffD2]) auto
  then show ?thesis by (simp add: blks_for_def)
qed

lemma blks_for_bound: "0 < bs \<Longrightarrow> n \<le> blks_for bs n * bs"
  using ceil_div(1) [of n bs] by (cases "n = 0") (simp_all add: blks_for_def mult.commute)

lemma blks_for_div: "0 < bs \<Longrightarrow> blks_for bs n = n div bs + (if n mod bs = 0 then 0 else 1)"
proof -
  assume bs: "0 < bs"
  define q r where "q = n div bs" and "r = n mod bs"
  have n: "n = q * bs + r" and r: "r < bs" using bs by (simp_all add: q_def r_def)
  have "(q * bs + r + bs - 1) div bs = (if r = 0 then q else q + 1)"
  proof (cases "r = 0")
    case True
    then show ?thesis using bs by simp (intro div_nat_eqI, simp_all add: mult.commute)
  next
    case False
    have "(q * bs + r + bs - 1) = (q + 1) * bs + (r - 1)" using False by simp
    moreover have "((q + 1) * bs + (r - 1)) div bs = q + 1" using r bs by (simp add: div_add1_eq)
    ultimately show ?thesis using False by simp
  qed
  then show ?thesis by (simp add: blks_for_def n [symmetric] q_def r_def)
qed

lemma unat_blks_for:
  assumes "layout_ok sb" and "unat sz \<le> 2 ^ 26"
  shows "unat ((sz + sb_blk_size sb - 1) div sb_blk_size sb) = blks_for (unat (sb_blk_size sb)) (unat sz)"
proof -
  note b = layout_blk_size [OF assms(1)]
  have "unat (sz + sb_blk_size sb) = unat sz + unat (sb_blk_size sb)"
    using b assms(2) by (simp add: unat_word_ariths(1))
  moreover from this have "unat (sz + sb_blk_size sb - 1) = unat (sz + sb_blk_size sb) - 1"
    using b(1) unat_sub_le [of 1 "sz + sb_blk_size sb"] by simp
  ultimately show ?thesis by (simp add: blks_for_def unat_div)
qed

text \<open>How much of the file a request of whole blocks gives.\<close>

lemma read_extent:
  fixes S bs s m :: nat
  assumes bs: "0 < bs" and m: "0 < m" "s + m \<le> blks_for bs S"
  shows "(if S div bs < s + m then (m - 1) * bs + S mod bs else m * bs) = min S ((s + m) * bs) - s * bs"
proof -
  define q r where "q = S div bs" and "r = S mod bs"
  have S: "S = q * bs + r" and r: "r < bs" using bs by (simp_all add: q_def r_def)
  have bf: "blks_for bs S = q + (if r = 0 then 0 else 1)" using blks_for_div [OF bs] by (simp add: q_def r_def)
  have dm: "S div bs = q" "S mod bs = r" by (simp_all add: q_def r_def)
  show ?thesis
  proof (cases "q < s + m")
    case True
    then have q: "q = s + m - 1" using m(2) bf by (auto split: if_splits)
    then have "S = s * bs + (m - 1) * bs + r" using S m(1) by (simp add: add_mult_distrib [symmetric])
    moreover have "(s + m) * bs = s * bs + (m - 1) * bs + bs" using m(1) by (cases m) (simp_all add: add_mult_distrib)
    ultimately show ?thesis using True dm r by simp
  next
    case False
    then have "(s + m) * bs \<le> q * bs" by (intro mult_le_mono1) simp
    then show ?thesis using False dm S by (simp add: add_mult_distrib)
  qed
qed


lemma runs_read_file:
  fixes E :: env
  defines "sb \<equiv> en_sb E" and "bs \<equiv> bsz E"
  assumes n: "inode_num_ok sb n" and own: "owned sb V n ns ds" and max: "length ds \<le> 1024"
    and S: "S = unat (i_size (inode_in sb V n))" "S \<le> length ds * bs"
    and small: "unat start + unat req < 2 ^ 32" and m: "m = min (unat req) (blks_for bs S - unat start)"
    and buf: "m * bs \<le> length buf"
  shows "runs E V (read_file_data_block n buf start req) (\<lambda>V' r c. V' = V \<and> (case r of
      Inl _ \<Rightarrow> \<not> c
    | Inr (buf', k, frac) \<Rightarrow> length buf' = length buf \<and> unat k * bs + unat frac \<le> m * bs \<and> unat frac < bs \<and>
        (unat k * bs + unat frac = min S ((unat start + m) * bs) - unat start * bs \<and>
         buf' = overwrite 0 (blocks_of V (chunk (unat start) m ds)) buf \<or> \<not> c)))"
    (is "runs E V _ ?P")
proof (rule runs_wf)
  assume "layout_ok (en_sb E)" then have lay: "layout_ok sb" by (simp add: sb_def)
  let ?i = "inode_in sb V n" and ?s = "unat start"
  let ?sblk = "(i_size ?i + sb_blk_size sb - 1) div sb_blk_size sb"
  have bs: "bs = unat (sb_blk_size sb)" "512 \<le> bs" "bs \<le> 65536" using layout_blk_size [OF lay] by (simp_all add: bs_def sb_def)
  have len: "length ds = unat (i_nr_blocks ?i)" using own by (simp add: owned_def file_blocks_def)
  have "length ds * bs \<le> 1024 * 65536" using max bs(3) by (rule mult_le_mono)
  then have S26: "unat (i_size ?i) \<le> 2 ^ 26" using S by simp
  have sblk: "unat ?sblk = blks_for bs S" using unat_blks_for [OF lay S26] by (simp add: bs(1) S(1))
  have bl: "blks_for bs S \<le> length ds" by (rule blks_for_le) (use bs S(2) in auto)
  have nil: "?P V (Inr (buf, 0, 0)) c" if "m = 0" for c
    using that bs(2) by (auto simp: chunk_def blocks_of_def min_def)
  show ?thesis
    unfolding read_file_data_block_def
  proof (intro runs_gets_sb runs_throw_if runs_if, fold sb_def, goal_cases)
    case (1 c)
    then show ?case using n by (simp add: inode_num_ok_def)
  next
    case 2
    then show ?case using nil m by (intro runs_ret) simp
  next
    case 3
    show ?case
    proof (rule runs_bind [OF runs_read_inode], fold sb_def, unfold if_P [OF n], goal_cases)
      case (1 V' e c)
      then show ?case by simp
    next
      case (2 V1 i)
      then have V1: "V1 = V" "i = ?i" by simp_all
      have stop: "i_nr_blocks ?i \<le> start \<or> ?sblk \<le> start \<longleftrightarrow> blks_for bs S \<le> ?s"
        using bl by (auto simp: word_le_nat_alt sblk len [symmetric])
      show ?case
        unfolding V1 Let_def stop
      proof (intro runs_if, goal_cases)
        case 1
        then show ?case using nil m by (intro runs_ret) auto
      next
        case 2
        let ?r = "if ?sblk < start + req then ?sblk - start else req"
        have sum: "unat (start + req) = ?s + unat req" using small by (simp add: unat_word_ariths(1))
        have r: "unat ?r = m"
          using 2 sblk unat_sub_le [of start ?sblk] by (auto simp: m word_less_nat_alt sum min_def)
        have fit: "?s + unat ?r \<le> length ds" using 2 bl r m by simp
        have m0: "0 < m" using 2 \<open>req \<noteq> 0\<close> m by (simp add: unat_gt_0)
        have buf': "unat ?r * bsz E \<le> length buf" using buf r by (simp add: bs_def)
        have ext: "(if S div bs < ?s + m then (m - 1) * bs + S mod bs else m * bs) = min S ((?s + m) * bs) - ?s * bs"
          by (rule read_extent) (use bs m0 2 m in auto)
        have sm: "(m - 1) * bs + S mod bs \<le> m * bs" "S mod bs < bs"
        proof -
          show "S mod bs < bs" using bs(2) by simp
          then show "(m - 1) * bs + S mod bs \<le> m * bs" using m0 by (cases m) simp_all
        qed
        show ?case
        proof (rule runs_bind [OF runs_read_file_loop [OF n [unfolded sb_def] own [unfolded sb_def] max fit le0 unsigned_0 buf', folded sb_def bs_def]],
            unfold r, goal_cases)
          case (1 V' e c)
          then show ?case by simp
        next
          case (2 V' x)
          obtain buf1 k frac where x: "x = (buf1, k, frac)" by (metis prod_cases3)
          have V': "V' = V" and l1: "length buf1 = length buf" using 2 unfolding x by auto
          show ?case
          proof (cases "frac = 0 \<and> unat k = m \<and> buf1 = overwrite (0 * bs) (blocks_of V (chunk (?s + 0) (m - 0) ds)) buf")
            case True
            have un: "unat (start + k) = ?s + m" using True fit r max by (simp add: unat_word_ariths(1))
            have k1: "unat (k - 1) = m - 1" using True m0 unat_sub_le [of 1 k] by simp
            have dm: "i_size ?i div sb_blk_size sb < start + k \<longleftrightarrow> S div bs < ?s + m"
              "unat (i_size ?i mod sb_blk_size sb) = S mod bs"
              by (simp_all add: word_less_nat_alt un unat_div unat_mod S(1) bs(1))
            show ?thesis
              unfolding x prod.case V' dm(1) using True ext sm k1 dm(2) l1
              by (intro runs_if runs_ret) (auto split: if_splits)
          next
            case False
            then have f: "frac \<noteq> 0" "unat frac < bs" "unat k < m" using 2 unfolding x by auto
            have "unat k * bs + bs \<le> m * bs" using f(3) mult_le_mono1 [of "Suc (unat k)" m bs] by simp
            then show ?thesis
              unfolding x prod.case V' using f l1 False by (intro runs_if runs_ret) auto
          qed
        qed
      qed
    qed
  qed
qed

section \<open>Writing the blocks of a file\<close>

text \<open>Data blocks of a file may change without an effect on its block list.\<close>

lemma owned_data_off:
  assumes lay: "layout_ok sb" and n: "inode_num_ok sb n" and own: "owned sb V n ns ds"
    and off: "eq_off (\<lambda>b. b \<in> set ds) V V'"
  shows "inode_in sb V' n = inode_in sb V n" and "owned sb V' n ns ds"
proof -
  have blk: "data_blk sb x" if "x \<in> set ns \<or> x \<in> set ds" for x using own that by (auto simp: owned_def)
  show ino: "inode_in sb V' n = inode_in sb V n"
    by (rule inode_in_off [OF lay n off]) (use blk data_blk_regions(3) [OF lay] in blast)
  have used: "blk_used sb V' x" if "x \<in> set ns \<or> x \<in> set ds" for x
  proof -
    have "blk_used sb V' x = blk_used sb V x"
      by (rule data_used_off [OF lay off]) (use blk data_blk_regions(1) [OF lay] that in \<open>auto intro: abs_to_data_idx_ok(3)\<close>)
    then show ?thesis using own that by (auto simp: owned_def)
  qed
  show "owned sb V' n ns ds"
    by (rule owned_off [OF lay n own ino _ used]) (use own off in \<open>auto simp: owned_def eq_off_def\<close>)
qed

lemma data_region: "layout_ok sb \<Longrightarrow> data_blk sb b \<Longrightarrow> \<not> outside_data_region sb b"
  using layout_okD(6) [of sb]
  by (auto simp: outside_data_region_def data_blk_def word_less_nat_alt word_le_nat_alt unat_word_ariths(1))

lemma eq_off_first:
  assumes "eq_off (\<lambda>x. x \<in> A) (V(b := d)) V'" and "b \<notin> A"
  shows "eq_off (\<lambda>x. x = b \<or> x \<in> A) V V'" and "V' b = d"
  using assms by (auto simp: eq_off_def)

lemma runs_write_file_loop:
  fixes E :: env
  defines "sb \<equiv> en_sb E" and "bs \<equiv> bsz E"
  assumes n: "inode_num_ok sb n" and own: "owned sb V n ns ds" and max: "length ds \<le> 1024"
    and fit: "unat start + m \<le> length ds" and j: "j \<le> m" "unat cnt = j" and buf: "m * bs \<le> length buf"
  shows "runs E V (write_file_loop sb n buf start [j..<m] cnt) (\<lambda>V' r c.
      eq_off (\<lambda>b. b \<in> set (chunk (unat start + j) (m - j) ds)) V V' \<and> (case r of
        Inl _ \<Rightarrow> \<not> c
      | Inr (k, frac) \<Rightarrow> \<not> c \<or> frac = 0 \<and> unat k = m \<and>
          map V' (chunk (unat start + j) (m - j) ds) = map (\<lambda>i. chunk (i * bs) bs buf) [j..<m]))"
  using own j
proof (induction "m - j" arbitrary: j cnt V)
  case 0
  then show ?case by (simp add: runs_ret chunk_def)
next
  case (Suc k)
  let ?b = "ds ! (unat start + j)"
  have jm: "j < m" using Suc.hyps by simp
  have idx: "unat start + j < length ds" using jm fit by simp
  note un = file_idx [OF idx max]
  have blk: "data_blk sb ?b" using Suc.prems(1) nth_mem [OF idx] by (auto simp: owned_def)
  have b: "in_vol (en_sb E) ?b" using data_blk_vol [OF blk] by (simp add: sb_def)
  have fb: "file_blocks (en_sb E) V (inode_in (en_sb E) V n) ns ds" using Suc.prems(1) by (simp add: owned_def sb_def)
  have "j * bs + bs \<le> m * bs" using jm mult_le_mono1 [of "Suc j" m bs] by simp
  then have roomb: "\<not> length buf < j * bs + bs" using buf by simp
  have lb: "length (chunk (j * bs) bs buf) = bsz E" using roomb by (simp add: bs_def)
  have upt: "[j..<m] = j # [Suc j..<m]" using jm by (rule upt_conv_Cons)
  have c1: "unat (cnt + 1) = Suc j" using Suc.prems(3) idx max by (simp add: unat_word_ariths(1))
  have ch: "chunk (unat start + j) (m - j) ds = ?b # chunk (unat start + Suc j) (m - Suc j) ds"
    using chunk_Cons [OF idx, of "m - Suc j"] jm by (simp add: Suc_diff_Suc)
  have "distinct (chunk (unat start + j) (m - j) ds)" using Suc.prems(1) by (simp add: owned_def chunk_def)
  then have nb: "?b \<notin> set (chunk (unat start + Suc j) (m - Suc j) ds)" unfolding ch by simp
  show ?case
    unfolding ch upt write_file_loop.simps Let_def bs_def [symmetric, unfolded sb_def [symmetric]]
  proof (rule runs_wf, rule runs_bind [OF runs_resolve [OF n [unfolded sb_def] fb]], unfold un, goal_cases)
    case (1 V' e c)
    then show ?case using idx by simp
  next
    case (2 V' abs)
    have lay: "layout_ok sb" using 2(1) by (simp add: sb_def)
    have abs: "V' = V" "abs = ?b" using 2 idx by simp_all
    show ?case
      unfolding abs if_not_P [OF roomb]
    proof (intro runs_throw_if runs_write_then [OF lb b], goal_cases)
      case (1 c)
      then show ?case using data_region [OF lay blk] by simp
    next
      case (2 e d)
      then show ?case by (simp add: eq_off_def)
    next
      case 3
      let ?V = "V(?b := chunk (j * bs) bs buf)"
      have own': "owned sb ?V n ns ds"
        by (rule owned_data_off(2) [OF lay n Suc.prems(1)]) (use nth_mem [OF idx] in \<open>auto simp: eq_off_def\<close>)
      have "k = m - Suc j" "Suc j \<le> m" using Suc.hyps(2) jm by simp_all
      note ih = Suc.hyps(1) [OF this(1) own' this(2) c1]
      have go: "\<not> (0 :: u32) \<noteq> 0" "\<not> (1 :: u32) \<noteq> 1" by simp_all
      show ?case
        unfolding prod.case if_not_P [OF go(1)] if_not_P [OF go(2)]
      proof (rule runs_mono [OF ih], elim conjE, goal_cases)
        case (1 V' r c)
        have "eq_off (\<lambda>b. b \<in> set (?b # chunk (unat start + Suc j) (m - Suc j) ds)) V V'" "V' ?b = chunk (j * bs) bs buf"
          using eq_off_first [OF 1(1) nb] by simp_all
        then show ?case using 1(2) by (auto split: sum.splits prod.splits)
      qed
    next
      case (4 d x)
      then show ?case
        by (auto intro!: runs_if runs_ret runs_throw simp: eq_off_def split: prod.splits)
    qed
  qed
qed

lemma concat_chunks: "concat (map (\<lambda>i. chunk (i * bs) bs buf) [0..<m]) = take (m * bs) buf"
  by (induction m) (simp_all add: chunk_def take_add add.commute [of bs])

lemma blocks_of_written:
  assumes len: "\<And>x. x \<in> set ds \<Longrightarrow> length (V x) = bs" and ds: "distinct ds" and fit: "s + m \<le> length ds"
    and off: "eq_off (\<lambda>b. b \<in> set (chunk s m ds)) V V'" and new: "blocks_of V' (chunk s m ds) = d" and d: "length d = m * bs"
  shows "blocks_of V' ds = overwrite (s * bs) d (blocks_of V ds)"
proof -
  have split: "ds = take s ds @ chunk s m ds @ drop (s + m) ds"
    by (simp add: chunk_def add.commute flip: take_drop drop_drop)
  have dis: "distinct (take s ds @ chunk s m ds @ drop (s + m) ds)" using ds split by simp
  then have "x \<notin> set (chunk s m ds)" if "x \<in> set (take s ds) \<or> x \<in> set (drop (s + m) ds)" for x using that by auto
  then have keep: "blocks_of V' (take s ds) = blocks_of V (take s ds)" "blocks_of V' (drop (s + m) ds) = blocks_of V (drop (s + m) ds)"
    using off by (auto simp: blocks_of_def eq_off_def intro!: arg_cong [where f = concat] map_cong)
  have l: "length (blocks_of V (take s ds)) = s * bs" "length (blocks_of V (chunk s m ds)) = m * bs"
    using fit len by (subst blocks_of_length [where k = bs]; auto simp: chunk_def dest!: in_set_takeD in_set_dropD)+
  have e: "blocks_of W ds = blocks_of W (take s ds) @ blocks_of W (chunk s m ds) @ blocks_of W (drop (s + m) ds)" for W
    by (subst split) (simp add: blocks_of_append)
  show ?thesis unfolding e keep new using l d by (simp add: overwrite_def)
qed

lemma runs_write_file:
  fixes E :: env
  defines "sb \<equiv> en_sb E" and "bs \<equiv> bsz E"
  assumes n: "inode_num_ok sb n" and own: "owned sb V n ns ds" and max: "length ds \<le> 1024" and req: "req \<noteq> 0"
    and m: "m = min (unat req) (length ds - unat start)" and buf: "m * bs \<le> length buf"
  shows "runs E V (write_file_data_block n buf start req) (\<lambda>V' r c.
      eq_off (\<lambda>b. b \<in> set (chunk (unat start) m ds)) V V' \<and> (case r of
        Inl e \<Rightarrow> c \<longrightarrow> e = MOFS_EINVAL \<and> length ds \<le> unat start
      | Inr (k, frac) \<Rightarrow> unat start < length ds \<and> (\<not> c \<or> frac = 0 \<and> unat k = m \<and>
          blocks_of V' ds = overwrite (unat start * bs) (take (m * bs) buf) (blocks_of V ds))))"
proof (rule runs_wf)
  assume lay0: "layout_ok (en_sb E)" and wf: "wf_disk (en_sb E) V"
  then have lay: "layout_ok sb" by (simp add: sb_def)
  let ?i = "inode_in sb V n" and ?s = "unat start"
  have len: "unat (i_nr_blocks ?i) = length ds" using own by (simp add: owned_def file_blocks_def)
  show ?thesis
    unfolding write_file_data_block_def if_not_P [OF req]
  proof (intro runs_gets_sb runs_throw_if, fold sb_def, goal_cases)
    case (1 c)
    then show ?case using n by (simp add: inode_num_ok_def)
  next
    case 2
    show ?case
    proof (rule runs_bind [OF runs_read_inode], fold sb_def, unfold if_P [OF n], goal_cases)
      case (1 V' e c)
      then show ?case by simp
    next
      case (2 V1 i)
      then have V1: "V1 = V" "i = ?i" by simp_all
      have bad: "i_nr_blocks ?i \<le> start \<longleftrightarrow> length ds \<le> ?s" by (simp add: word_le_nat_alt len)
      show ?case
        unfolding V1 Let_def
      proof (intro runs_throw_if, goal_cases)
        case (1 c)
        then show ?case by (simp add: bad)
      next
        case 2
        let ?r = "if i_nr_blocks ?i - start < req then i_nr_blocks ?i - start else req"
        have lt: "?s < length ds" using 2 bad by simp
        have "unat (i_nr_blocks ?i - start) = length ds - ?s"
          using lt unat_sub_le [of start "i_nr_blocks ?i"] by (simp add: len word_le_nat_alt)
        then have r: "unat ?r = m" by (auto simp: m word_less_nat_alt min_def)
        have fit: "?s + unat ?r \<le> length ds" using lt r m by simp
        have buf': "unat ?r * bsz E \<le> length buf" using buf r by (simp add: bs_def)
        show ?case
        proof (rule runs_mono [OF runs_write_file_loop [OF n [unfolded sb_def] own [unfolded sb_def] max fit le0 unsigned_0 buf', folded sb_def bs_def]],
            unfold r, elim conjE, goal_cases)
          case (1 V' x c)
          have "blocks_of V' ds = overwrite (?s * bs) (take (m * bs) buf) (blocks_of V ds)"
            if "map V' (chunk ?s m ds) = map (\<lambda>i. chunk (i * bs) bs buf) [0..<m]"
          proof (rule blocks_of_written [where m = m])
            show "length (V y) = bs" if "y \<in> set ds" for y using owned_lengths(1) [OF lay wf [folded sb_def] own that] by (simp add: bs_def sb_def)
            show "blocks_of V' (chunk ?s m ds) = take (m * bs) buf" unfolding blocks_of_def that by (rule concat_chunks)
            show "distinct ds" using own by (simp add: owned_def)
          qed (use 1(1) fit r buf in simp_all)
          then show ?case using 1 lt by (auto split: sum.splits)
        qed
      qed
    qed
  qed
qed

lemma bind_throw: "bind (throw e) f = throw e"
  by (simp add: bind_def throw_def)

section \<open>Loading the blocks a write changes in part\<close>

text \<open>The two loops that load blocks of a file into a buffer, up to a number of blocks that have
  content: \<open>load_post\<close> is the contract of what remains from block \<open>j\<close> of the request on.\<close>

definition load_post :: "disk \<Rightarrow> u32 list \<Rightarrow> nat \<Rightarrow> nat \<Rightarrow> nat \<Rightarrow> nat \<Rightarrow> byte list \<Rightarrow> disk \<Rightarrow> byte list res \<Rightarrow> bool \<Rightarrow> bool" where
  "load_post V ds bs s p j buf V' r c = (V' = V \<and> (case r of
      Inl _ \<Rightarrow> \<not> c
    | Inr buf' \<Rightarrow> length buf' = length buf \<and> buf' = overwrite (j * bs) (blocks_of V (chunk (s + j) (p - j) ds)) buf))"

lemma load_post_skip: "p \<le> j \<Longrightarrow> load_post V ds bs s p j buf V (Inr buf) c"
  by (simp add: load_post_def chunk_def blocks_of_def)

lemma load_post_step:
  assumes "load_post V ds bs s p (Suc j) (overwrite (j * bs) (V (ds ! (s + j))) buf) V' r c"
    and lens: "\<And>x. x \<in> set ds \<Longrightarrow> length (V x) = bs"
    and j: "j < p" and fit: "s + p \<le> length ds" and buf: "p * bs \<le> length buf"
  shows "load_post V ds bs s p j buf V' r c"
proof -
  have "j * bs + bs \<le> p * bs" using j mult_le_mono1 [of "Suc j" p bs] by simp
  moreover have "length (V (ds ! (s + j))) = bs" using lens j fit by simp
  ultimately show ?thesis
    using assms(1) overwrite_blocks_step [OF lens refl j fit buf] buf
    by (simp add: load_post_def split: sum.splits)
qed

lemma load_post_later:
  assumes "load_post V ds bs s p (Suc j) buf V' r c" and "p \<le> j"
  shows "load_post V ds bs s p j buf V' r c"
  using assms by (simp add: load_post_def chunk_def blocks_of_def split: sum.splits)

lemma runs_load_loop:
  fixes E :: env and start cur :: u32
  defines "sb \<equiv> en_sb E" and "bs \<equiv> bsz E"
  assumes own: "owned sb V n ns ds" and max: "length ds \<le> 1024"
    and fit: "unat start + m \<le> length ds" and p: "p = min m (unat cur - unat start)"
    and j: "j \<le> m" and buf: "m * bs \<le> length buf"
    and nil: "\<And>buf. load [] buf = ret buf"
    and skip: "\<And>i rest buf. cur \<le> start + word_of_nat i \<Longrightarrow> load (i # rest) buf = load rest buf"
    and step: "\<And>i rest buf Q. \<lbrakk>layout_ok sb; \<not> cur \<le> start + word_of_nat i; unat start + i < length ds; i * bs + bs \<le> length buf;
      runs E V (load rest (overwrite (i * bs) (V (ds ! (unat start + i))) buf)) Q; \<And>e. Q V (Inl e) False\<rbrakk> \<Longrightarrow> runs E V (load (i # rest) buf) Q"
  shows "runs E V (load [j..<m] buf) (load_post V ds bs (unat start) p j buf)"
  using j buf
proof (induction "m - j" arbitrary: j buf)
  case 0
  then show ?case by (simp add: runs_ret load_post_skip p nil)
next
  case (Suc k)
  let ?b = "ds ! (unat start + j)"
  have jm: "j < m" using Suc.hyps by simp
  have idx: "unat start + j < length ds" using jm fit by simp
  have room: "j * bs + bs \<le> length buf" using jm mult_le_mono1 [of "Suc j" m bs] Suc.prems(2) by simp
  have upt: "[j..<m] = j # [Suc j..<m]" using jm by (rule upt_conv_Cons)
  have past: "cur \<le> start + word_of_nat j \<longleftrightarrow> p \<le> j" using jm by (auto simp: word_le_nat_alt file_idx [OF idx max] p)
  have kj: "k = m - Suc j" "Suc j \<le> m" using Suc.hyps(2) jm by simp_all
  show ?case
  proof (cases "p \<le> j")
    case True
    show ?thesis
      unfolding upt skip [OF past [THEN iffD2, OF True]]
      by (rule runs_mono [OF Suc.hyps(1) [OF kj Suc.prems(2)]]) (rule load_post_later [OF _ True])
  next
    case False
    show ?thesis
    proof (rule runs_wf)
      assume "layout_ok (en_sb E)" "wf_disk (en_sb E) V"
      then have lay: "layout_ok sb" and wf: "wf_disk sb V" by (simp_all add: sb_def)
      have fit': "unat start + p \<le> length ds" using fit p by simp
      have buf': "p * bs \<le> length buf" by (rule order.trans [OF mult_le_mono1 Suc.prems(2)]) (simp add: p)
      have lens: "length (V x) = bs" if "x \<in> set ds" for x using owned_lengths(1) [OF lay wf own that] by (simp add: bs_def sb_def)
      have mb: "m * bs \<le> length (overwrite (j * bs) (V ?b) buf)" using Suc.prems(2) room lens nth_mem [OF idx] by simp
      show ?thesis
        unfolding upt
      proof (rule step [OF lay _ idx room runs_mono [OF Suc.hyps(1) [OF kj mb] load_post_step [OF _ lens _ fit' buf']]], goal_cases)
        case (5 e)
        then show ?case by (simp add: load_post_def)
      qed (use False past in auto)
    qed
  qed
qed

lemma runs_preload_loop:
  fixes E :: env
  defines "sb \<equiv> en_sb E" and "bs \<equiv> bsz E"
  assumes n: "inode_num_ok sb n" and own: "owned sb V n ns ds" and max: "length ds \<le> 1024"
    and fit: "unat start + m \<le> length ds" and p: "p = min m (unat cur - unat start)" and buf: "m * bs \<le> length buf"
  shows "runs E V (preload_loop sb n start cur [0..<m] buf) (load_post V ds bs (unat start) p 0 buf)"
proof (rule runs_load_loop [OF own [unfolded sb_def] max fit p le0 buf [unfolded bs_def], folded sb_def bs_def], goal_cases)
  case (3 i rest buf Q)
  let ?b = "ds ! (unat start + i)"
  have blk: "data_blk sb ?b" using own nth_mem [OF 3(3)] by (auto simp: owned_def)
  have b: "in_vol (en_sb E) ?b" using data_blk_vol [OF blk] by (simp add: sb_def)
  have fb: "file_blocks (en_sb E) V (inode_in (en_sb E) V n) ns ds" using own by (simp add: owned_def sb_def)
  have roomb: "\<not> length buf < i * bs + bs" using 3(4) by simp
  have lb: "length (chunk (i * bs) bs buf) = bsz E" using roomb by (simp add: bs_def)
  show ?case
    unfolding preload_loop.simps Let_def if_not_P [OF 3(2)] bs_def [symmetric, unfolded sb_def [symmetric]]
  proof (rule runs_bind [OF runs_resolve [OF n [unfolded sb_def] fb]], unfold file_idx [OF 3(3) max] if_P [OF 3(3)], goal_cases)
    case (1 V' e c)
    then show ?case using 3(6) by (cases c) auto
  next
    case (2 V' abs)
    then have abs: "V' = V" "abs = ?b" by simp_all
    show ?case
      unfolding abs if_not_P [OF roomb]
      by (intro runs_throw_if runs_read_then [OF lb b])
        (use data_region [OF 3(1) blk] 3(5,6) in \<open>auto simp: throw_if_def bind_ret runs_throw bind_throw elim: runs_mono\<close>)
  qed
qed simp_all

text \<open>A caller that looks at the outcome of the transfer itself and goes on with the descriptor.\<close>

lemma runs_fd_bind:
  assumes "runs E V (bind (gets dev_fd) m) P"
    and "\<And>V' e c. P V' (Inl e) c \<Longrightarrow> R V' (Inl e) c"
    and "\<And>V' x. P V' (Inr x) False \<Longrightarrow> runs E V' (bind (gets dev_fd) (\<lambda>fd. f fd x)) (\<lambda>V'' r c. P V' (Inr x) c \<longrightarrow> R V'' r c)"
  shows "runs E V (bind (gets dev_fd) (\<lambda>fd. bind (m fd) (f fd))) R"
proof (rule runsI)
  fix w assume w: "fs_ok w" "env_of w = E" "vol w = V"
  let ?Q = "\<lambda>r w'. fs_ok w' \<and> io_frame w w' \<and> R (vol w') r False \<and> (calm w w' \<longrightarrow> R (vol w') r True)"
  have one: "wp (m (dev_fd w)) (\<lambda>r w'. fs_ok w' \<and> io_frame w w' \<and> P (vol w') r False \<and> (calm w w' \<longrightarrow> P (vol w') r True)) w"
    using runsD [OF assms(1) w] by (simp add: wp_bind wp_gets)
  show "wp (bind (gets dev_fd) (\<lambda>fd. bind (m fd) (f fd))) ?Q w"
    unfolding wp_bind wp_gets sum.case
  proof (rule wp_mono [OF one], elim conjE, goal_cases)
    case (1 r w1)
    note fr = 1(2)
    show ?case
    proof (cases r)
      case (Inl e)
      then show ?thesis using 1 assms(2) by auto
    next
      case (Inr x)
      have env: "env_of w1 = E" using fr w(2) env_frame by simp
      have P: "P (vol w1) (Inr x) False" using 1 Inr by simp
      have "wp (f (dev_fd w1) x) (\<lambda>r' w2. fs_ok w2 \<and> io_frame w1 w2 \<and> (P (vol w1) (Inr x) False \<longrightarrow> R (vol w2) r' False) \<and>
          (calm w1 w2 \<longrightarrow> P (vol w1) (Inr x) True \<longrightarrow> R (vol w2) r' True)) w1"
        using runsD [OF assms(3) [OF P] 1(1) env refl] by (simp add: wp_bind wp_gets)
      then have "wp (f (dev_fd w1) x) ?Q w1"
      proof (rule wp_mono, goal_cases)
        case (1 r' w2)
        then show ?case
          using \<open>calm w w1 \<longrightarrow> _\<close> P fr Inr calm_split [of w w2 w1] io_frame_trans [OF fr, of w2] by blast
      qed
      moreover have "dev_fd w1 = dev_fd w" using io_frame_ctx [OF fr] by simp
      ultimately show ?thesis using Inr by simp
    qed
  qed
qed

lemma runs_fd_attempt:
  assumes "runs E V (bind (gets dev_fd) m) P"
  shows "runs E V (bind (gets dev_fd) (\<lambda>fd. attempt (m fd))) (\<lambda>V' r c. case r of Inl _ \<Rightarrow> False | Inr r' \<Rightarrow> P V' r' c)"
  using assms unfolding runs_def by (auto simp: wp_simps)

lemma runs_read_attempt:
  assumes "length buf = bsz E" and "in_vol (en_sb E) b"
    and ok: "runs E V (bind (gets dev_fd) (\<lambda>fd. f fd (Inr (V b, 1, 0)))) R"
    and bad: "\<And>r. r \<noteq> Inr (V b, 1, 0) \<Longrightarrow> (\<And>d k frac. r = Inr (d, k, frac) \<Longrightarrow> k = 0) \<Longrightarrow>
      runs E V (bind (gets dev_fd) (\<lambda>fd. f fd r)) (\<lambda>V' r c. R V' r False)"
  shows "runs E V (bind (gets dev_fd) (\<lambda>fd. bind (attempt (read_continuous_blocks fd buf 1 b)) (f fd))) R"
proof (rule runs_fd_bind [OF runs_fd_attempt [OF runs_read_one [OF assms(1,2)]]], goal_cases)
  case (1 V' e c)
  then show ?case by simp
next
  case (2 V' r)
  then have V': "V' = V" by simp
  show ?case
  proof (cases "r = Inr (V b, 1, 0)")
    case True
    then show ?thesis using ok V' by (auto elim: runs_mono)
  next
    case False
    have "runs E V (bind (gets dev_fd) (\<lambda>fd. f fd r)) (\<lambda>V' r c. R V' r False)"
      by (rule bad [OF False]) (use 2 False in auto)
    then show ?thesis
      unfolding V' by (rule runs_mono) (use False in \<open>auto split: sum.splits\<close>)
  qed
qed

lemma runs_zero_preload_loop:
  fixes E :: env
  defines "sb \<equiv> en_sb E" and "bs \<equiv> bsz E"
  assumes n: "inode_num_ok sb n" and own: "owned sb V n ns ds" and max: "length ds \<le> 1024"
    and fit: "unat start + m \<le> length ds" and p: "p = min m (unat cur - unat start)" and buf: "m * bs \<le> length buf"
  shows "runs E V (zero_preload_loop sb n start cur [0..<m] buf) (load_post V ds bs (unat start) p 0 buf)"
proof (rule runs_load_loop [OF own [unfolded sb_def] max fit p le0 buf [unfolded bs_def], folded sb_def bs_def], goal_cases)
  case (3 i rest buf Q)
  let ?b = "ds ! (unat start + i)"
  have blk: "data_blk sb ?b" using own nth_mem [OF 3(3)] by (auto simp: owned_def)
  have b: "in_vol (en_sb E) ?b" using data_blk_vol [OF blk] by (simp add: sb_def)
  have fb: "file_blocks (en_sb E) V (inode_in (en_sb E) V n) ns ds" using own by (simp add: owned_def sb_def)
  have roomb: "\<not> length buf < i * bs + bs" using 3(4) by simp
  have lb: "length (chunk (i * bs) bs buf) = bsz E" using roomb by (simp add: bs_def)
  show ?case
    unfolding zero_preload_loop.simps Let_def if_not_P [OF 3(2)] bs_def [symmetric, unfolded sb_def [symmetric]]
  proof (rule runs_bind [OF runs_resolve [OF n [unfolded sb_def] fb]], unfold file_idx [OF 3(3) max] if_P [OF 3(3)], goal_cases)
    case (1 V' e c)
    then show ?case using 3(6) by (cases c) auto
  next
    case (2 V' abs)
    then have abs: "V' = V" "abs = ?b" by simp_all
    show ?case
      unfolding abs if_not_P [OF roomb]
    proof (rule runs_read_attempt [OF lb b], goal_cases)
      case 1
      show ?case using 3(5) by (intro runs_any_world) (auto elim: runs_mono)
    next
      case (2 r)
      then show ?case using 3(6) by (intro runs_any_world) (auto simp: runs_throw split: sum.splits)
    qed
  qed
qed simp_all

end
