(* ===== verification/Mofs_Access.thy ===== *)
theory Mofs_Access
  imports Mofs_Filedata
begin

text \<open>
  Who the caller is and what the caller may do: contracts of \<open>src/os/linux/service/os_user.c\<close> and
  \<open>src/core/modules/mofs_perm.c\<close>. \<open>caller_of\<close> are the credentials in force and \<open>may_access\<close> is
  the reference for the permission checks: the owner, group or other bits of the mode, by class.
\<close>

unbundle bit_operations_syntax

section \<open>The caller\<close>

definition caller_of :: "env \<Rightarrow> mofs_user_ctx" where
  "caller_of E = (if u_valid (en_user E) then en_user E
     else \<lparr>u_uid = en_euid E, u_gid = en_egid E, u_pid = en_pid E,
            u_supp_groups = take MOFS_SUPP_GROUP_MAX (en_groups E), u_valid = True\<rparr>)"

lemma sys_errno_pos: "sys_errno n \<noteq> 0"
  by (simp add: sys_errno_def)

lemma runs_getgroups: "runs E V sys_getgroups (\<lambda>V' r c. V' = V \<and> (case r of Inl _ \<Rightarrow> \<not> c | Inr gs \<Rightarrow> gs = en_groups E))"
  (is "runs E V _ ?P")
proof (rule runsI)
  fix w assume w: "fs_ok w" "env_of w = E" "vol w = V"
  have st: "same_store w (w\<lparr>w_os := os_tick (w_os w)\<rparr>)"
    "same_store w (w\<lparr>w_os := (os_tick (w_os w))\<lparr>os_errno := n\<rparr>\<rparr>)" for n
    by (simp_all add: same_store_def)
  show "wp sys_getgroups (\<lambda>r w'. fs_ok w' \<and> io_frame w w' \<and> ?P (vol w') r False \<and> (calm w w' \<longrightarrow> ?P (vol w') r True)) w"
    using w os_ok_now [of w]
    by (auto simp: sys_getgroups_def set_os_errno_def return_errno_def get_errno_def wp_simps vol_store [OF st(1)] vol_store [OF st(2)]
        fs_ok_store [OF st(1)] fs_ok_store [OF st(2)] calm_def env_of_def sys_errno_pos split: os_fault.splits option.splits)
qed

lemma runs_get_caller:
  "runs E V mofs_get_caller_user (\<lambda>V' r c. V' = V \<and> (case r of Inl _ \<Rightarrow> \<not> c | Inr u \<Rightarrow> u = caller_of E))"
proof (cases "u_valid (en_user E)")
  case True
  then show ?thesis
    unfolding mofs_get_caller_user_def
    by (intro runs_gets [where x = "en_user E"]) (auto simp: env_of_def caller_of_def intro!: runs_ret)
next
  case False
  let ?u = "\<lparr>u_uid = en_euid E, u_gid = en_egid E, u_pid = en_pid E, u_supp_groups = [], u_valid = True\<rparr>"
  have u: "caller_of E = ?u\<lparr>u_supp_groups := take MOFS_SUPP_GROUP_MAX (en_groups E)\<rparr>" using False by (simp add: caller_of_def)
  have "runs E V (read_supp_groups_from_os ?u) (\<lambda>V' r c. V' = V \<and> (case r of Inl _ \<Rightarrow> \<not> c | Inr u \<Rightarrow> u = caller_of E))"
    unfolding read_supp_groups_from_os_def
    by (rule runs_bind [OF runs_getgroups], simp, intro runs_if runs_with_malloc runs_bind [OF runs_getgroups] runs_ret)
      (auto simp: u)
  then show ?thesis
    unfolding mofs_get_caller_user_def runs_def using False by (auto simp: wp_simps env_of_def)
qed

lemma runs_require_caller:
  "runs E V require_caller (\<lambda>V' r c. V' = V \<and> (case r of Inl _ \<Rightarrow> \<not> c | Inr u \<Rightarrow> u = caller_of E))"
  unfolding require_caller_def
  by (rule runs_bind [OF runs_get_caller]) (auto intro!: runs_throw_if runs_ret simp: caller_of_def)

lemma runs_in_group:
  "runs E V (mofs_is_caller_in_group g) (\<lambda>V' r c. V' = V \<and> (case r of Inl _ \<Rightarrow> \<not> c
     | Inr b \<Rightarrow> b = (g = u_gid (caller_of E) \<or> g \<in> set (u_supp_groups (caller_of E)))))"
  unfolding mofs_is_caller_in_group_def
  by (rule runs_bind [OF runs_get_caller]) (auto intro!: runs_if runs_ret simp: list_ex_iff)

section \<open>The permission bits\<close>

text \<open>The reference: the access bits of the open flags ask for reading, writing or execution, one of
  the three classes of the mode applies to the caller, and every right asked for must be there.\<close>

definition wanted :: "u32 \<Rightarrow> (bool \<times> bool \<times> bool) option" where
  "wanted flags = (let a = flags AND MOFS_OFLAG_ACCMODE in
     if a = MOFS_OFLAG_RDONLY then Some (True, False, False)
     else if a = MOFS_OFLAG_WRONLY then Some (False, True, False)
     else if a = MOFS_OFLAG_RDWR then Some (True, True, False)
     else if a = MOFS_OFLAG_EXEC \<or> a = MOFS_OFLAG_SEARCH then Some (False, False, True)
     else None)"

definition perm_class :: "mofs_user_ctx \<Rightarrow> mofs_inode \<Rightarrow> nat" where
  "perm_class u i = (if u_uid u = i_uid i then 6
     else if i_gid i = u_gid u \<or> i_gid i \<in> set (u_supp_groups u) then 3 else 0)"

definition granted :: "mofs_user_ctx \<Rightarrow> mofs_inode \<Rightarrow> bool \<times> bool \<times> bool \<Rightarrow> bool" where
  "granted u i rights = (case rights of (r, w, x) \<Rightarrow> let k = perm_class u i in
     (r \<longrightarrow> bit (i_mode i) (k + 2)) \<and> (w \<longrightarrow> bit (i_mode i) (k + 1)) \<and> (x \<longrightarrow> bit (i_mode i) k))"

definition may_access :: "env \<Rightarrow> u32 \<Rightarrow> mofs_inode \<Rightarrow> bool" where
  "may_access E flags i = (case wanted flags of None \<Rightarrow> False | Some rights \<Rightarrow> granted (caller_of E) i rights)"

lemma nibble_cases:
  assumes "(a :: u32) \<le> 15"
  shows "a = 0 \<or> a = 1 \<or> a = 2 \<or> a = 3 \<or> a = 4 \<or> a = 5 \<or> a = 6 \<or> a = 7 \<or>
    a = 8 \<or> a = 9 \<or> a = 10 \<or> a = 11 \<or> a = 12 \<or> a = 13 \<or> a = 14 \<or> a = 15"
proof -
  have "unat a < 16" using assms by (simp add: word_le_nat_alt)
  then have "unat a = 0 \<or> unat a = 1 \<or> unat a = 2 \<or> unat a = 3 \<or> unat a = 4 \<or> unat a = 5 \<or> unat a = 6 \<or> unat a = 7 \<or>
    unat a = 8 \<or> unat a = 9 \<or> unat a = 10 \<or> unat a = 11 \<or> unat a = 12 \<or> unat a = 13 \<or> unat a = 14 \<or> unat a = 15"
    by presburger
  then show ?thesis by (simp add: word_unat_eq_iff)
qed

lemma access_kind_eq:
  "access_kind flags = (let a = flags AND 15 in if a \<in> {1, 2, 3, 4, 8} then Inr a else Inl MOFS_EINVAL)"
proof -
  define a where "a = flags AND 15"
  have m: "flags AND 1 = a AND 1" "flags AND 2 = a AND 2" "flags AND 4 = a AND 4" "flags AND 8 = a AND 8"
    by (simp_all add: a_def and.assoc)
  have "a \<le> 15" unfolding a_def by (rule word_and_le1)
  have c: "MOFS_OFLAG_RDONLY = 1" "MOFS_OFLAG_WRONLY = 2" "MOFS_OFLAG_RDWR = 3" "MOFS_OFLAG_EXEC = 4" "MOFS_OFLAG_SEARCH = 8"
    "MOFS_OFLAG_ACCMODE = 15"
    by (simp_all add: flag_defs)
  from nibble_cases [OF \<open>a \<le> 15\<close>] show ?thesis
    by (elim disjE) (simp_all add: access_kind_def c m flip: a_def)
qed

lemma mode_has_bit: "mode_has i (2 ^ k) = bit (i_mode i) k" if "k < 16" for k :: nat
  using that by (simp add: mode_has_def and_exp_eq_0_iff_not_bit bit_simps)

lemma mode_bits:
  "mode_has i MOFS_S_IRUSR = bit (i_mode i) 8" "mode_has i MOFS_S_IWUSR = bit (i_mode i) 7" "mode_has i MOFS_S_IXUSR = bit (i_mode i) 6"
  "mode_has i MOFS_S_IRGRP = bit (i_mode i) 5" "mode_has i MOFS_S_IWGRP = bit (i_mode i) 4" "mode_has i MOFS_S_IXGRP = bit (i_mode i) 3"
  "mode_has i MOFS_S_IROTH = bit (i_mode i) 2" "mode_has i MOFS_S_IWOTH = bit (i_mode i) 1" "mode_has i MOFS_S_IXOTH = bit (i_mode i) 0"
  using mode_has_bit [of 8 i] mode_has_bit [of 7 i] mode_has_bit [of 6 i] mode_has_bit [of 5 i] mode_has_bit [of 4 i]
    mode_has_bit [of 3 i] mode_has_bit [of 2 i] mode_has_bit [of 1 i] mode_has_bit [of 0 i]
  by (simp_all add: mode_defs)

lemma class_bits:
  assumes "(if u_uid u = i_uid i then (MOFS_S_IRUSR, MOFS_S_IWUSR, MOFS_S_IXUSR)
       else if i_gid i = u_gid u \<or> i_gid i \<in> set (u_supp_groups u) then (MOFS_S_IRGRP, MOFS_S_IWGRP, MOFS_S_IXGRP)
       else (MOFS_S_IROTH, MOFS_S_IWOTH, MOFS_S_IXOTH)) = (r, w, x)"
  shows "mode_has i r = bit (i_mode i) (perm_class u i + 2)" "mode_has i w = bit (i_mode i) (perm_class u i + 1)"
    "mode_has i x = bit (i_mode i) (perm_class u i)"
  using assms by (auto simp: perm_class_def mode_bits numeral_2_eq_2 split: if_splits)

lemma access_denied_eq:
  assumes "wanted flags = Some rights"
  shows "access_denied (flags AND 15) i
      (if u_uid u = i_uid i then (MOFS_S_IRUSR, MOFS_S_IWUSR, MOFS_S_IXUSR)
       else if i_gid i = u_gid u \<or> i_gid i \<in> set (u_supp_groups u) then (MOFS_S_IRGRP, MOFS_S_IWGRP, MOFS_S_IXGRP)
       else (MOFS_S_IROTH, MOFS_S_IWOTH, MOFS_S_IXOTH)) = (\<not> granted u i rights)"
    (is "access_denied _ _ ?t = _")
proof -
  obtain r w x where t: "?t = (r, w, x)" by (metis prod_cases3)
  show ?thesis
    unfolding t using assms
    by (auto simp: access_denied_def wanted_def granted_def class_bits [OF t] flag_defs Let_def split: if_splits)
qed

lemma from_res_Inl: "from_res (Inl e) = throw e"
  by (rule ext) (simp add: from_res_def throw_def)

lemma runs_check_open:
  "runs E V (mofs_check_open_permission flags (caller_of E) i) (\<lambda>V' r c. V' = V \<and>
    (if wanted flags = None then r = Inl MOFS_EINVAL
     else case r of Inl e \<Rightarrow> c \<longrightarrow> e = MOFS_EACCES \<and> \<not> may_access E flags i | Inr _ \<Rightarrow> may_access E flags i))"
proof (cases "wanted flags")
  case None
  then have "access_kind flags = Inl MOFS_EINVAL"
    by (auto simp: access_kind_eq wanted_def flag_defs Let_def split: if_splits)
  then show ?thesis unfolding mofs_check_open_permission_def using None by (simp add: from_res_Inl runs_throw bind_throw)
next
  case (Some rights)
  then have k: "access_kind flags = Inr (flags AND 15)" "flags AND 15 \<noteq> 0"
    by (auto simp: access_kind_eq wanted_def flag_defs Let_def split: if_splits)
  show ?thesis
    unfolding mofs_check_open_permission_def k(1) from_res_Inr bind_ret if_not_P [OF k(2)] Let_def
  proof (rule runs_bind [OF runs_in_group], goal_cases)
    case (1 V' e c)
    then show ?case by (simp add: Some)
  next
    case (2 V' b)
    then show ?case
      using access_denied_eq [OF Some, of i "caller_of E"]
      by (auto simp: Some may_access_def throw_if_def intro!: runs_throw runs_ret)
  qed
qed

end
