(* ===== verification/Mofs_Handle.thy ===== *)
theory Mofs_Handle
  imports Mofs_Access
begin

text \<open>
  Contracts for the routines that also change the handle pools. \<open>hruns\<close> is \<open>runs\<close> of \<open>Mofs_Disk\<close>
  with the environment after the routine: only the two pools of handles may differ in it. Both
  contracts imply that the routine returns, frees what it allocates and releases the locks it takes.
\<close>

section \<open>Contracts with handles\<close>

definition handle_frame :: "world \<Rightarrow> world \<Rightarrow> bool" where
  "handle_frame w w' = io_frame (w\<lparr>w_files := w_files w', w_dirs := w_dirs w'\<rparr>) w'"

definition hruns :: "env \<Rightarrow> disk \<Rightarrow> 'a mofs \<Rightarrow> (env \<Rightarrow> disk \<Rightarrow> 'a res \<Rightarrow> bool \<Rightarrow> bool) \<Rightarrow> bool" where
  "hruns E V m P = (\<forall>w. fs_ok w \<and> env_of w = E \<and> vol w = V \<longrightarrow>
     wp m (\<lambda>r w'. fs_ok w' \<and> handle_frame w w' \<and> P (env_of w') (vol w') r False \<and>
       (calm w w' \<longrightarrow> P (env_of w') (vol w') r True)) w)"

lemma hrunsI:
  assumes "\<And>w. fs_ok w \<Longrightarrow> env_of w = E \<Longrightarrow> vol w = V \<Longrightarrow>
    wp m (\<lambda>r w'. fs_ok w' \<and> handle_frame w w' \<and> P (env_of w') (vol w') r False \<and> (calm w w' \<longrightarrow> P (env_of w') (vol w') r True)) w"
  shows "hruns E V m P"
  using assms by (simp add: hruns_def)

lemma hrunsD:
  assumes "hruns E V m P" and "fs_ok w" and "env_of w = E" and "vol w = V"
  shows "wp m (\<lambda>r w'. fs_ok w' \<and> handle_frame w w' \<and> P (env_of w') (vol w') r False \<and> (calm w w' \<longrightarrow> P (env_of w') (vol w') r True)) w"
  using assms by (simp add: hruns_def)

lemma handle_frame_io: "io_frame w w' \<Longrightarrow> handle_frame w w'"
  by (auto simp: handle_frame_def io_frame_def fd_ok_def)

lemma handle_frame_trans: "handle_frame w w' \<Longrightarrow> handle_frame w' w'' \<Longrightarrow> handle_frame w w''"
  by (auto simp: handle_frame_def io_frame_def fd_ok_def intro: os_frame_trans)

lemma handle_frame_calm:
  assumes "calm w w''" and "handle_frame w w'" and "handle_frame w' w''"
  shows "calm w w'" and "calm w' w''"
  using assms by (auto simp: handle_frame_def io_frame_def os_frame_def calm_def os_ok_def young_def)

lemma handle_frame_env: "handle_frame w w' \<Longrightarrow> env_of w' = (env_of w)\<lparr>en_files := w_files w', en_dirs := w_dirs w'\<rparr>"
  by (simp add: handle_frame_def env_of_def io_frame_def os_frame_def)

lemma hruns_mono: "hruns E V m P \<Longrightarrow> (\<And>E' V' r c. P E' V' r c \<Longrightarrow> Q E' V' r c) \<Longrightarrow> hruns E V m Q"
  unfolding hruns_def by (blast intro: wp_mono)

lemma hruns_wf:
  assumes "layout_ok (en_sb E) \<Longrightarrow> wf_disk (en_sb E) V \<Longrightarrow> hruns E V m P"
  shows "hruns E V m P"
proof (rule hrunsI)
  fix w assume w: "fs_ok w" "env_of w = E" "vol w = V"
  have sb: "sp_blk w = en_sb E" using w(2) by (auto simp: env_of_def)
  have "hruns E V m P" by (rule assms) (use fs_ok_layout [OF w(1)] vol_wf [OF w(1)] w(3) sb in simp_all)
  then show "wp m (\<lambda>r w'. fs_ok w' \<and> handle_frame w w' \<and> P (env_of w') (vol w') r False \<and> (calm w w' \<longrightarrow> P (env_of w') (vol w') r True)) w"
    using w by (rule hrunsD)
qed

lemma hruns_runs:
  assumes "runs E V m (\<lambda>V' r c. P E V' r c)"
  shows "hruns E V m P"
proof (rule hrunsI)
  fix w assume w: "fs_ok w" "env_of w = E" "vol w = V"
  show "wp m (\<lambda>r w'. fs_ok w' \<and> handle_frame w w' \<and> P (env_of w') (vol w') r False \<and> (calm w w' \<longrightarrow> P (env_of w') (vol w') r True)) w"
    by (rule wp_mono [OF runsD [OF assms w]]) (use env_frame [of w] w(2) handle_frame_io [of w] in auto)
qed

lemma hruns_ret: "(\<And>c. P E V (Inr x) c) \<Longrightarrow> hruns E V (ret x) P"
  by (rule hruns_runs) (simp add: runs_ret)

lemma hruns_throw: "(\<And>c. P E V (Inl e) c) \<Longrightarrow> hruns E V (throw e) P"
  by (rule hruns_runs) (simp add: runs_throw)

lemma hruns_if: "(b \<Longrightarrow> hruns E V m P) \<Longrightarrow> (\<not> b \<Longrightarrow> hruns E V n P) \<Longrightarrow> hruns E V (if b then m else n) P"
  by simp

lemma hruns_gets:
  assumes "\<And>w. env_of w = E \<Longrightarrow> g w = x" and "hruns E V (f x) P"
  shows "hruns E V (bind (gets g) f) P"
  using assms by (intro hrunsI) (simp add: wp_simps hruns_def)

lemma hruns_gets_sb: "hruns E V (f (en_sb E)) P \<Longrightarrow> hruns E V (bind (gets sp_blk) f) P"
  by (rule hruns_gets) (auto simp: env_of_def)

lemma hruns_throw_if:
  assumes "b \<Longrightarrow> (\<And>c. P E V (Inl e) c)" and "\<not> b \<Longrightarrow> hruns E V (f ()) P"
  shows "hruns E V (bind (throw_if b e) f) P"
  using assms by (auto simp: throw_if_def bind_throw bind_ret intro: hruns_throw)

lemma hruns_hbind:
  assumes "hruns E V m P"
    and "\<And>E' V' e c. P E' V' (Inl e) c \<Longrightarrow> R E' V' (Inl e) c"
    and "\<And>E' V' x. P E' V' (Inr x) False \<Longrightarrow> hruns E' V' (f x) (\<lambda>E'' V'' r c. P E' V' (Inr x) c \<longrightarrow> R E'' V'' r c)"
  shows "hruns E V (bind m f) R"
proof (rule hrunsI)
  fix w assume w: "fs_ok w" "env_of w = E" "vol w = V"
  let ?Q = "\<lambda>r w'. fs_ok w' \<and> handle_frame w w' \<and> R (env_of w') (vol w') r False \<and> (calm w w' \<longrightarrow> R (env_of w') (vol w') r True)"
  show "wp (bind m f) ?Q w"
  proof (rule wp_bind_rule [OF hrunsD [OF assms(1) w]], goal_cases)
    case (1 e w')
    then show ?case using assms(2) by blast
  next
    case (2 x w1)
    then have fr: "handle_frame w w1" and P: "P (env_of w1) (vol w1) (Inr x) False" and ok: "fs_ok w1" by blast+
    show ?case
    proof (rule wp_mono [OF hrunsD [OF assms(3) [OF P] ok refl refl]], goal_cases)
      case (1 r w2)
      then show ?case using 2 P handle_frame_trans [OF fr, of w2] handle_frame_calm [OF _ fr, of w2] by blast
    qed
  qed
qed

lemma hruns_bind:
  assumes "runs E V m P"
    and "\<And>V' e c. P V' (Inl e) c \<Longrightarrow> R E V' (Inl e) c"
    and "\<And>V' x. P V' (Inr x) False \<Longrightarrow> hruns E V' (f x) (\<lambda>E'' V'' r c. P V' (Inr x) c \<longrightarrow> R E'' V'' r c)"
  shows "hruns E V (bind m f) R"
  by (rule hruns_hbind [OF hruns_runs [where P = "\<lambda>E' V' r c. E' = E \<and> P V' r c"]]) (use assms in \<open>auto elim: hruns_mono runs_mono\<close>)

lemma hruns_attempt_bind:
  assumes "runs E V m P" and "\<And>V' r. P V' r False \<Longrightarrow> hruns E V' (f r) (\<lambda>E'' V'' r' c. P V' r c \<longrightarrow> R E'' V'' r' c)"
  shows "hruns E V (bind (attempt m) f) R"
  by (rule hruns_bind [OF runs_attempt [OF assms(1)]]) (use assms(2) in auto)

lemma hruns_set_filehandle:
  assumes "hruns (E\<lparr>en_files := (en_files E)[i := h]\<rparr>) V (f ()) P"
  shows "hruns E V (bind (set_filehandle i h) f) P"
proof (rule hrunsI)
  fix w assume w: "fs_ok w" "env_of w = E" "vol w = V"
  let ?w = "w\<lparr>w_files := (w_files w)[i := h]\<rparr>"
  have st: "same_store w ?w" by (simp add: same_store_def)
  have env: "env_of ?w = E\<lparr>en_files := (en_files E)[i := h]\<rparr>" using w(2) by (auto simp: env_of_def)
  have fr: "handle_frame w w'" "calm w w' \<longrightarrow> calm ?w w'" if "handle_frame ?w w'" for w'
    using that by (auto simp: handle_frame_def calm_def os_ok_def io_frame_def fd_ok_def)
  have "wp (f ()) (\<lambda>r w'. fs_ok w' \<and> handle_frame ?w w' \<and> P (env_of w') (vol w') r False \<and> (calm ?w w' \<longrightarrow> P (env_of w') (vol w') r True)) ?w"
    by (rule hrunsD [OF assms fs_ok_store [OF st w(1)] env]) (simp add: vol_store [OF st] w(3))
  then show "wp (bind (set_filehandle i h) f) (\<lambda>r w'. fs_ok w' \<and> handle_frame w w' \<and> P (env_of w') (vol w') r False \<and> (calm w w' \<longrightarrow> P (env_of w') (vol w') r True)) w"
    unfolding set_filehandle_def wp_bind wp_modify sum.case by (rule wp_mono) (use fr in blast)
qed

lemma handle_frame_freed:
  assumes "alloc_frame w w1" and "handle_frame w1 w2"
  shows "handle_frame w (freed w2)" and "calm w (freed w2) \<longrightarrow> calm w1 w2" and "env_of (freed w2) = env_of w2"
  using assms
  by (auto simp: alloc_frame_def handle_frame_def io_frame_def os_frame_def freed_def fd_ok_def calm_def os_ok_def young_def env_of_def)

lemma hruns_with_malloc:
  assumes "P E V (Inl MOFS_ENOMEM) False"
    and "\<And>buf. length buf = n \<Longrightarrow> hruns E V (body buf) P"
  shows "hruns E V (with_malloc n body) P"
proof (rule hrunsI)
  fix w assume w: "fs_ok w" "env_of w = E" "vol w = V"
  show "wp (with_malloc n body) (\<lambda>r w'. fs_ok w' \<and> handle_frame w w' \<and> P (env_of w') (vol w') r False \<and> (calm w w' \<longrightarrow> P (env_of w') (vol w') r True)) w"
  proof (rule wp_with_malloc, goal_cases)
    case (1 w1)
    then show ?case
      using assms(1) w vol_store [OF 1(1)] fs_ok_store [OF 1(1) w(1)] env_frame [OF 1(2)] handle_frame_io by (simp add: calm_def)
  next
    case (2 buf w1)
    have env: "env_of w1 = E"
      using 2(3) w(2) by (auto simp: alloc_frame_def io_frame_def os_frame_def env_of_def)
    show ?case
    proof (rule wp_mono [OF hrunsD [OF assms(2) [OF 2(1)] fs_ok_store [OF 2(2) w(1)] env]], goal_cases)
      case 1
      then show ?case using vol_store [OF 2(2)] w(3) by simp
    next
      case (2 r w2)
      then show ?case
        using fs_ok_store [of w2 "freed w2"] vol_store [of w2 "freed w2"] handle_frame_freed [OF \<open>alloc_frame w w1\<close>, of w2] by auto
    qed
  qed
qed

lemma hruns_with_malloc_opt:
  assumes fail: "hruns E V (body None) (\<lambda>E' V' r c. P E' V' r False)"
    and ok: "\<And>buf. length buf = n \<Longrightarrow> hruns E V (body (Some buf)) P"
  shows "hruns E V (with_malloc_opt n body) P"
proof (rule hrunsI)
  fix w assume w: "fs_ok w" "env_of w = E" "vol w = V"
  show "wp (with_malloc_opt n body) (\<lambda>r w'. fs_ok w' \<and> handle_frame w w' \<and> P (env_of w') (vol w') r False \<and>
      (calm w w' \<longrightarrow> P (env_of w') (vol w') r True)) w"
    unfolding with_malloc_opt_def wp_bind wp_ensuring
  proof (rule wp_mofs_malloc, goal_cases)
    case (1 w1)
    have "wp (body None) (\<lambda>r w'. fs_ok w' \<and> handle_frame w1 w' \<and> P (env_of w') (vol w') r False \<and> (calm w1 w' \<longrightarrow> P (env_of w') (vol w') r False)) w1"
      by (rule hrunsD [OF fail fs_ok_store [OF 1(1) w(1)]]) (use w 1 env_frame [OF 1(2)] vol_store [OF 1(1)] in simp_all)
    then show ?case
      unfolding sum.case free_opt_def option.case wp_ret
      by (rule wp_mono) (use 1 handle_frame_trans [OF handle_frame_io [OF 1(2)]] in \<open>auto simp: calm_def\<close>)
  next
    case (2 buf w1)
    have env: "env_of w1 = E"
      using 2(3) w(2) by (auto simp: alloc_frame_def io_frame_def os_frame_def env_of_def)
    have "wp (body (Some buf)) (\<lambda>r w'. fs_ok w' \<and> handle_frame w1 w' \<and> P (env_of w') (vol w') r False \<and> (calm w1 w' \<longrightarrow> P (env_of w') (vol w') r True)) w1"
      by (rule hrunsD [OF ok [OF 2(1)] fs_ok_store [OF 2(2) w(1)] env]) (use vol_store [OF 2(2)] w(3) in simp)
    then show ?case
      unfolding sum.case free_opt_def option.case wp_mofs_free
    proof (rule wp_mono, goal_cases)
      case (1 r w2)
      then show ?case
        using fs_ok_store [of w2 "freed w2"] vol_store [of w2 "freed w2"] handle_frame_freed [OF \<open>alloc_frame w w1\<close>, of w2] by auto
    qed
  qed
qed

lemma hruns_used_filehandle:
  assumes i: "i < length (en_files E)"
    and free: "\<And>c. \<not> fh_used (en_files E ! i) \<Longrightarrow> P E V (Inl MOFS_EINVAL) c"
    and used: "fh_used (en_files E ! i) \<Longrightarrow> hruns E V (f (i, en_files E ! i)) P"
  shows "hruns E V (bind (used_filehandle (Some i)) f) P"
  unfolding used_filehandle_def option.case bind_assoc
  by (rule hruns_gets [where x = "en_files E"])
    (use assms in \<open>auto simp: env_of_def throw_if_def bind_throw bind_ret intro: hruns_throw\<close>)

end
