(* ===== verification/Mofs_Read.thy ===== *)
theory Mofs_Read
  imports Mofs_Handle
begin

text \<open>
  Reading a file through a handle, \<open>mofs_read_core\<close> of \<open>src/core/modules/mofs_file.c\<close>: it returns
  the bytes of the file that the request covers. \<open>read_refusal\<close> lists the requests it refuses.
\<close>

unbundle bit_operations_syntax

section \<open>Reading\<close>

text \<open>The error a read through an open handle is refused with, if any.\<close>

definition read_refusal :: "env \<Rightarrow> mofs_filehandle \<Rightarrow> mofs_inode \<Rightarrow> u32 \<Rightarrow> int \<Rightarrow> mofs_error option" where
  "read_refusal E h ino sz offset =
     (if \<not> fh_used h \<or> sz = 0 \<or> offset < 0 then Some MOFS_EINVAL
      else if fh_open_flags h AND MOFS_OFLAG_RDONLY = 0 then Some MOFS_EBADF
      else if wanted (fh_open_flags h) = None then Some MOFS_EINVAL
      else if \<not> may_access E (fh_open_flags h) ino then Some MOFS_EACCES
      else if mode_has ino MOFS_FTYPE_DIR then Some MOFS_EISDIR
      else None)"

text \<open>Whole blocks around the request, cut at the end of the file, give what the request asks for.\<close>

lemma read_amount:
  fixes bs s pos sz S :: nat
  assumes bs: "0 < bs" and pos: "pos < bs" and req: "req = (pos + sz + bs - 1) div bs" and m: "m = min req (blks_for bs S - s)"
  shows "min sz (min S ((s + m) * bs) - (s * bs + pos)) = min sz (S - (s * bs + pos))"
proof -
  have up: "S \<le> blks_for bs S * bs" by (rule blks_for_bound [OF bs])
  have "pos + sz \<le> req * bs" using blks_for_bound [OF bs, of "pos + sz"] by (simp add: req blks_for_def)
  consider "m = req" | "s < blks_for bs S" "s + m = blks_for bs S" | "m = 0" "blks_for bs S \<le> s"
    using m by (cases "s < blks_for bs S"; cases "m = req") auto
  then show ?thesis
  proof cases
    case 1
    then show ?thesis using \<open>pos + sz \<le> req * bs\<close> by (simp add: add_mult_distrib)
  next
    case 2
    then show ?thesis using up by simp
  next
    case 3
    have "S \<le> s * bs" using up mult_le_mono1 [OF 3(2), of bs] by (rule order.trans)
    then show ?thesis using 3 by simp
  qed
qed

lemma chunk_take: "chunk a k (take n xs) = chunk a (min k (n - a)) xs"
  by (simp add: chunk_def drop_take)

lemma read_bytes:
  assumes lens: "\<And>x. x \<in> set ds \<Longrightarrow> length (V x) = bs" and fit: "m = 0 \<or> s + m \<le> length ds" and buf: "m * bs \<le> length buf"
    and k: "k = 0 \<or> pos + k \<le> m * bs" "k = min sz (S - (s * bs + pos))"
  shows "chunk pos k (overwrite 0 (blocks_of V (chunk s m ds)) buf) = chunk (s * bs + pos) sz (file_bytes V ds S)"
proof (cases "k = 0")
  case True
  then have "min sz (S - (s * bs + pos)) = 0" using k(2) by simp
  then show ?thesis unfolding file_bytes_def chunk_take True by (simp add: chunk_def)
next
  case False
  then have fit: "s + m \<le> length ds" and k1: "pos + k \<le> m * bs" using fit k(1) by auto
  have l: "length (blocks_of V (chunk s m ds)) = m * bs"
    using fit lens by (subst blocks_of_length [where k = bs]) (auto simp: chunk_def dest!: in_set_takeD in_set_dropD)
  have "chunk pos k (overwrite 0 (blocks_of V (chunk s m ds)) buf) = chunk pos k (blocks_of V (chunk s m ds))"
    using chunk_overwrite_inside [of 0 "blocks_of V (chunk s m ds)" buf pos k] k1 l buf by simp
  also have "\<dots> = chunk (s * bs + pos) k (blocks_of V ds)"
    by (simp add: blocks_of_chunk [OF lens] chunk_chunk k1)
  finally show ?thesis by (simp add: file_bytes_def chunk_take k(2))
qed

lemma stamp_atime: "stamp_inode t MOFS_INODE_TIME_ATIME i = i\<lparr>i_atime := t\<rparr>"
  by (simp add: stamp_inode_def mofs_consts)

text \<open>The checks that reading and writing share.\<close>

lemma hruns_checked_inode:
  fixes E :: env
  defines "sb \<equiv> en_sb E"
  assumes n: "inode_num_ok sb n" and ino: "ino = inode_in sb V n"
    and fault: "\<And>e. P E V (Inl e) False"
    and kind: "\<And>c. wanted flags = None \<Longrightarrow> P E V (Inl MOFS_EINVAL) c"
    and denied: "\<And>c. wanted flags \<noteq> None \<Longrightarrow> \<not> may_access E flags ino \<Longrightarrow> P E V (Inl MOFS_EACCES) c"
    and dir: "\<And>c. may_access E flags ino \<Longrightarrow> mode_has ino MOFS_FTYPE_DIR \<Longrightarrow> P E V (Inl MOFS_EISDIR) c"
    and ok: "may_access E flags ino \<Longrightarrow> \<not> mode_has ino MOFS_FTYPE_DIR \<Longrightarrow> hruns E V (f ino) P"
  shows "hruns E V (bind (mofs_read_inode n) (\<lambda>inode. bind require_caller (\<lambda>user.
      bind (mofs_check_open_permission flags user inode) (\<lambda>_. bind (throw_if (mode_has inode MOFS_FTYPE_DIR) MOFS_EISDIR) (\<lambda>_. f inode))))) P"
proof (rule hruns_bind [OF runs_read_inode], fold sb_def, unfold if_P [OF n] ino [symmetric], goal_cases)
  case (1 V' e c)
  then show ?case using fault by (cases c) auto
next
  case (2 V1 i1)
  then have V1: "V1 = V" "i1 = ino" by (simp_all add: ino)
  have "hruns E V (bind (mofs_check_open_permission flags (caller_of E) ino) (\<lambda>_. bind (throw_if (mode_has ino MOFS_FTYPE_DIR) MOFS_EISDIR) (\<lambda>_. f ino))) P"
  proof (rule hruns_bind [OF runs_check_open], goal_cases)
    case (1 V' e c)
    then show ?case using kind [of c] denied [of c] fault by (cases c) (auto split: if_splits)
  next
    case (2 V' x)
    then have V': "V' = V" "may_access E flags ino" by (auto split: if_splits)
    show ?case unfolding V'(1) by (intro hruns_throw_if) (use dir ok V'(2) in \<open>auto elim: hruns_mono\<close>)
  qed
  then have "hruns E V (bind require_caller (\<lambda>user. bind (mofs_check_open_permission flags user ino)
      (\<lambda>_. bind (throw_if (mode_has ino MOFS_FTYPE_DIR) MOFS_EISDIR) (\<lambda>_. f ino)))) P"
    by (intro hruns_bind [OF runs_require_caller]) (use fault in \<open>auto elim: hruns_mono\<close>)
  then show ?case unfolding V1 by (rule hruns_mono) simp
qed

text \<open>The numbers of a request, without wrap-around.\<close>

lemma read_numbers:
  fixes offset :: int and sz :: u32
  defines "o' \<equiv> nat offset"
  assumes lay: "layout_ok sb" and bs: "bs = unat (sb_blk_size sb)" and off: "0 \<le> offset" "offset < 2 ^ 32"
    and small: "unat sz + 2 * bs \<le> 2 ^ 32"
  shows "offset mod uint (sb_blk_size sb) = int (o' mod bs)"
    and "unat (word_of_int (offset div uint (sb_blk_size sb)) :: u32) = o' div bs"
    and "unat (word_of_int ((int (o' mod bs) + uint sz + uint (sb_blk_size sb) - 1) div uint (sb_blk_size sb)) :: u32) =
      (o' mod bs + unat sz + bs - 1) div bs"
    and "o' div bs + (o' mod bs + unat sz + bs - 1) div bs < 2 ^ 32"
    and "(o' mod bs + unat sz + bs - 1) div bs * bs < 2 ^ 32"
proof -
  have b: "512 \<le> bs" "bs \<le> 65536" "uint (sb_blk_size sb) = int bs" using layout_blk_size [OF lay] by (simp_all add: bs)
  have o: "offset = int o'" "o' < 2 ^ 32" using off by (auto simp: o'_def)
  have sz: "uint sz = int (unat sz)" by simp
  let ?r = "o' mod bs + unat sz + bs - 1"
  have m: "o' mod bs < bs" using b by simp
  then have r: "?r < 2 ^ 32" using small by linarith
  have "?r div bs \<le> ?r div 512" "o' div bs \<le> o' div 512" using b by (auto intro: div_le_mono2)
  then have lt: "?r div bs < 2 ^ 24" "o' div bs < 2 ^ 24" using r o(2) by auto
  show "offset mod uint (sb_blk_size sb) = int (o' mod bs)" by (simp add: o b flip: zmod_int)
  show "unat (word_of_int (offset div uint (sb_blk_size sb)) :: u32) = o' div bs"
    using lt by (simp add: o b unat_word_of_nat flip: zdiv_int)
  have "int (o' mod bs) + uint sz + uint (sb_blk_size sb) - 1 = int ?r"
    using b by (simp add: b(3) of_nat_diff)
  then show "unat (word_of_int ((int (o' mod bs) + uint sz + uint (sb_blk_size sb) - 1) div uint (sb_blk_size sb)) :: u32) = ?r div bs"
    using lt by (simp add: b(3) unat_word_of_nat flip: zdiv_int)
  show "o' div bs + ?r div bs < 2 ^ 32" using lt by simp
  show "?r div bs * bs < 2 ^ 32" using r by (meson div_times_less_eq_dividend le_less_trans)
qed

lemma read_size_word:
  fixes sz total :: u32
  assumes "rs = (if sz < (if uint total < int pos then 0 else word_of_int (uint total - int pos)) then sz
      else if uint total < int pos then 0 else word_of_int (uint total - int pos))"
  shows "unat rs = min (unat sz) (unat total - pos)"
proof -
  have ut: "uint total = int (unat total)" by simp
  have "unat (if uint total < int pos then 0 else word_of_int (uint total - int pos) :: u32) = unat total - pos"
  proof (cases "uint total < int pos")
    case True
    then have "unat total < pos" unfolding ut by linarith
    then show ?thesis using True by simp
  next
    case False
    then have "pos \<le> unat total" unfolding ut by linarith
    then have "uint total - int pos = int (unat total - pos)" by (simp add: of_nat_diff)
    moreover have "unat total - pos < 2 ^ 32" using unat_u32_less [of total] by simp
    ultimately show ?thesis using False by (simp add: unat_word_of_nat)
  qed
  then show ?thesis by (auto simp: assms word_less_nat_alt min_def)
qed

lemma hruns_read_finish:
  fixes E :: env
  defines "sb \<equiv> en_sb E"
  assumes n: "inode_num_ok sb n" and ino: "ino = inode_in sb V n" and rs: "unat rs = length data"
  shows "hruns E V (bind (if upd then set_filehandle i h else ret ()) (\<lambda>_.
      bind (if 0 < rs then mofs_inode_stamp_persist n MOFS_INODE_TIME_ATIME else ret ()) (\<lambda>_. ret data)))
    (\<lambda>E' V' r c. eq_off (inode_table_own sb) V V' \<and> (case r of
      Inl e \<Rightarrow> \<not> c
    | Inr d \<Rightarrow> d = data \<and> E' = (if upd then E\<lparr>en_files := (en_files E)[i := h]\<rparr> else E) \<and>
        (if data = [] then V' = V else \<exists>t. V' = put_inode sb n (ino\<lparr>i_atime := t\<rparr>) V)))"
    (is "hruns E V _ ?P")
proof -
  have z: "0 < rs \<longleftrightarrow> data \<noteq> []" using rs by (simp add: word_less_nat_alt)
  have fin: "hruns E' V (bind (if data \<noteq> [] then mofs_inode_stamp_persist n MOFS_INODE_TIME_ATIME else ret ()) (\<lambda>_. ret data)) ?P"
    if E': "en_sb E' = sb" "E' = (if upd then E\<lparr>en_files := (en_files E)[i := h]\<rparr> else E)" for E'
  proof (cases "data = []")
    case True
    then show ?thesis using E' by (auto simp: bind_ret intro!: hruns_ret)
  next
    case False
    have go: "inode_num_ok sb n \<and> MOFS_INODE_TIME_ATIME \<noteq> 0" using n by (simp add: mofs_consts)
    have off: "layout_ok sb \<Longrightarrow> eq_off (inode_table_own sb) V (put_inode sb n i V)" for i
      using it.put_off [of sb n V i] n by simp
    show ?thesis
      unfolding if_P [OF False]
      by (rule hruns_wf, rule hruns_bind [OF runs_stamp_persist], unfold E'(1) if_P [OF go] stamp_atime ino [symmetric])
        (use False E'(2) off in \<open>auto intro!: hruns_ret simp: E'(1)\<close>)
  qed
  show ?thesis
  proof (cases upd)
    case True
    show ?thesis
      unfolding z if_P [OF True]
      by (rule hruns_set_filehandle, rule hruns_mono [OF fin]) (use True in \<open>auto simp: sb_def split: sum.splits\<close>)
  next
    case False
    show ?thesis
      unfolding z if_not_P [OF False] bind_ret
      by (rule hruns_mono [OF fin]) (use False in \<open>auto simp: sb_def split: sum.splits\<close>)
  qed
qed

lemma hruns_read_blocks:
  fixes E :: env
  defines "sb \<equiv> en_sb E" and "bs \<equiv> bsz E"
  assumes h: "i < length (en_files E)" "n = fh_inode_num h" and n: "inode_num_ok sb n"
    and own: "owned sb V n ns ds" and max: "length ds \<le> 1024" and ino: "ino = inode_in sb V n"
    and S: "S = unat (i_size ino)" "S \<le> length ds * bs"
    and small: "0 \<le> offset" "offset < 2 ^ 32" "unat sz + 2 * bs \<le> 2 ^ 32"
  shows "hruns E V (read_blocks_of sb i h sz offset upd) (\<lambda>E' V' r c. eq_off (inode_table_own sb) V V' \<and> (case r of
      Inl e \<Rightarrow> \<not> c
    | Inr data \<Rightarrow> length data \<le> unat sz \<and>
        E' = (if upd then E\<lparr>en_files := (en_files E)[i := h\<lparr>fh_file_offset := word_of_int (offset + int (length data))\<rparr>]\<rparr> else E) \<and>
        (if data = [] then V' = V else \<exists>t. V' = put_inode sb n (ino\<lparr>i_atime := t\<rparr>) V) \<and>
        (c \<longrightarrow> data = chunk (nat offset) (unat sz) (file_bytes V ds S))))"
    (is "hruns E V _ ?P")
proof -
  let ?o = "nat offset"
  define pos s req m where "pos = ?o mod bs" and "s = ?o div bs" and "req = (pos + unat sz + bs - 1) div bs"
    and "m = min req (blks_for bs S - s)"
  let ?start = "word_of_int (offset div uint (sb_blk_size sb)) :: u32"
  let ?req = "word_of_int ((int pos + uint sz + uint (sb_blk_size sb) - 1) div uint (sb_blk_size sb)) :: u32"
  show ?thesis
  proof (rule hruns_wf, fold sb_def)
    assume lay: "layout_ok sb" and wf: "wf_disk sb V"
    have bsb: "bs = unat (sb_blk_size sb)" by (simp add: bs_def sb_def)
    note num = read_numbers [OF lay bsb small, folded pos_def s_def, folded req_def]
    have b: "512 \<le> bs" "bs \<le> 65536" using layout_blk_size [OF lay] by (simp_all add: bsb)
    have o: "?o = s * bs + pos" "pos < bs" using b by (simp_all add: pos_def s_def)
    have lb: "unat (?req * sb_blk_size sb) = req * bs" using num(5) by (simp add: unat_word_ariths(2) num(3) bsb)
    have mm: "m = min (unat ?req) (blks_for bs S - unat ?start)" by (simp add: m_def num)
    have mreq: "m * bs \<le> req * bs" by (rule mult_le_mono1) (simp add: m_def)
    have bl: "blks_for bs S \<le> length ds" by (rule blks_for_le) (use b S(2) in auto)
    have "m \<le> 1024" using bl max by (simp add: m_def)
    then have m26: "m * bs \<le> 2 ^ 26" using mult_le_mono [OF _ b(2), of m 1024] by simp
    show "hruns E V (read_blocks_of sb i h sz offset upd) ?P"
      unfolding read_blocks_of_def Let_def num(1) unfolding lb
    proof (intro hruns_with_malloc, goal_cases)
      case 1
      then show ?case by simp
    next
      case (2 buf)
      show ?case
        unfolding h(2) [symmetric]
      proof (rule hruns_bind [OF runs_read_file [OF n [unfolded sb_def] own [unfolded sb_def] max S(1) [unfolded ino sb_def]
              S(2) [unfolded bs_def] _ mm [unfolded bs_def sb_def], folded sb_def bs_def]], goal_cases)
        case 1
        then show ?case using num by simp
      next
        case 2
        then show ?case using mreq \<open>length buf = req * bs\<close> by simp
      next
        case (3 V' e c)
        then show ?case by simp
      next
        case (4 V' x)
        obtain buf' k frac where x: "x = (buf', k, frac)" by (metis prod_cases3)
        have V': "V' = V" and lb': "length buf' = req * bs" and kf: "unat k * bs + unat frac \<le> m * bs"
          using 4 \<open>length buf = req * bs\<close> unfolding x by auto
        define total where "total = k * sb_blk_size sb + frac"
        define rs where "rs = (if sz < (if uint total < int pos then 0 else word_of_int (uint total - int pos)) then sz
            else if uint total < int pos then 0 else word_of_int (uint total - int pos))"
        have tot: "unat total = unat k * bs + unat frac"
          using kf m26 by (simp add: total_def unat_word_ariths bsb [symmetric])
        note rsz = read_size_word [OF rs_def, unfolded tot]
        have "pos + unat sz \<le> req * bs" using blks_for_bound [of bs "pos + unat sz"] b by (simp add: req_def blks_for_def)
        then have fits: "\<not> length buf' < nat (int pos) + unat rs" using kf mreq rsz lb' by simp
        show ?case
          unfolding x prod.case total_def [symmetric] rs_def [symmetric] if_not_P [OF fits] V'
        proof (rule hruns_mono [OF hruns_read_finish [OF n [unfolded sb_def] ino [unfolded sb_def], where data = "chunk (nat (int pos)) (unat rs) buf'", folded sb_def]], goal_cases)
          case 1
          then show ?case using fits by simp
        next
          case (2 E' V'' r c)
          define d where "d = chunk pos (unat rs) buf'"
          have ld: "length d = unat rs" using fits by (simp add: d_def)
          have good: "d = chunk ?o (unat sz) (file_bytes V ds S)"
            if "unat k * bs + unat frac = min S ((s + m) * bs) - s * bs" "buf' = overwrite 0 (blocks_of V (chunk s m ds)) buf"
            unfolding that(2) o(1) d_def
          proof (rule read_bytes)
            show "length (V y) = bs" if "y \<in> set ds" for y using owned_lengths(1) [OF lay wf own that] by (simp add: bsb)
            show "unat rs = min (unat sz) (S - (s * bs + pos))"
              using read_amount [OF _ o(2) req_def m_def] b rsz that(1) by simp
          qed (use bl m_def kf rsz \<open>length buf = req * bs\<close> mreq in auto)
          have le: "length d \<le> unat sz" using ld rsz by simp
          have int: "uint rs = int (length d)" by (simp add: ld)
          show ?case
            using 2 unfolding nat_int d_def [symmetric] int num(2) sum.case prod.case
            by (cases r) (use le good in auto)
        qed
      qed
    qed
  qed
qed

lemma hruns_read_core:
  fixes E :: env
  defines "sb \<equiv> en_sb E" and "bs \<equiv> bsz E"
  assumes h: "i < length (en_files E)" "h = en_files E ! i" "n = fh_inode_num h" and n: "inode_num_ok sb n"
    and own: "owned sb V n ns ds" and max: "length ds \<le> 1024" and ino: "ino = inode_in sb V n"
    and S: "S = unat (i_size ino)" "S \<le> length ds * bs"
    and small: "offset < 2 ^ 32" "unat sz + 2 * bs \<le> 2 ^ 32"
  shows "hruns E V (mofs_read_core (Some i) sz offset upd) (\<lambda>E' V' r c. eq_off (inode_table_own sb) V V' \<and> (case r of
      Inl e \<Rightarrow> c \<longrightarrow> E' = E \<and> V' = V \<and> read_refusal E h ino sz offset = Some e
    | Inr data \<Rightarrow> read_refusal E h ino sz offset = None \<and> length data \<le> unat sz \<and>
        E' = (if upd then E\<lparr>en_files := (en_files E)[i := h\<lparr>fh_file_offset := word_of_int (offset + int (length data))\<rparr>]\<rparr> else E) \<and>
        (if data = [] then V' = V else \<exists>t. V' = put_inode sb n (ino\<lparr>i_atime := t\<rparr>) V) \<and>
        (c \<longrightarrow> data = chunk (nat offset) (unat sz) (file_bytes V ds S))))"
    (is "hruns E V _ ?P")
  unfolding mofs_read_core_def
proof (intro hruns_gets_sb hruns_used_filehandle [OF h(1)], fold sb_def h(2), unfold prod.case h(3) [symmetric], goal_cases)
  case (1 c)
  then show ?case by (simp add: read_refusal_def)
next
  case 2
  note used = 2
  show ?case
  proof (intro hruns_throw_if, goal_cases)
    case 3
    note args = 3
    show ?case
    proof (rule hruns_checked_inode [OF n [unfolded sb_def] ino [unfolded sb_def]], goal_cases)
      case 5
      then have ok: "read_refusal E h ino sz offset = None" using used args by (auto simp: read_refusal_def may_access_def split: option.splits)
      show ?case
        by (rule hruns_mono [OF hruns_read_blocks [OF h(1,3) n [unfolded sb_def] own [unfolded sb_def] max ino [unfolded sb_def] S [unfolded bs_def]
                _ small [unfolded bs_def], folded sb_def bs_def]])
          (use args ok in \<open>auto split: sum.splits\<close>)
    qed (use used args in \<open>auto simp: read_refusal_def may_access_def split: option.splits\<close>)
  qed (use used in \<open>auto simp: read_refusal_def\<close>)
qed

end
