(* ===== verification/Mofs_Write.thy ===== *)
theory Mofs_Write
  imports Mofs_Read
begin

text \<open>
  Writing a file through a handle, \<open>mofs_write_core\<close> of \<open>src/core/modules/mofs_file.c\<close>. The
  function \<open>written\<close> says what a write makes of the bytes of a file; the contracts of
  the loading, composing and storing of the blocks of a request lead up to it. The contract of the
  whole routine is in \<open>Mofs_Write_Core\<close>.
\<close>

unbundle bit_operations_syntax

section \<open>What a write makes of the bytes of a file\<close>

text \<open>\<open>S\<close> is the old size and \<open>X\<close> the content of all blocks. The blocks of the request are composed in
  a buffer: those that have content are loaded, the others are zero, the gap between the old end
  and the write is cleared as far as it lies in the buffer, and the data is put in.\<close>

definition write_image :: "nat \<Rightarrow> nat \<Rightarrow> nat \<Rightarrow> nat \<Rightarrow> byte list \<Rightarrow> byte list \<Rightarrow> byte list" where
  "write_image bs m S off data X =
     (let s = off div bs; p = min m (blks_for bs S - s);
          buf = overwrite 0 (chunk (s * bs) (p * bs) X) (replicate (m * bs) 0);
          buf = (if S < off then zero_gap (s * bs) S off buf else buf)
      in overwrite (off mod bs) data buf)"

text \<open>The specification: the file is extended to the end of the write if need be, zeros go from the
  old end of the file, or the first block of the write if that is later, to the write.\<close>

definition written :: "nat \<Rightarrow> nat \<Rightarrow> nat \<Rightarrow> byte list \<Rightarrow> byte list \<Rightarrow> byte list" where
  "written bs S off data X = overwrite off data
     (zero_gap 0 (max S (off div bs * bs)) off (take (max S (off + length data)) X))"

lemma length_zero_gap: "to_off - s \<le> length buf \<Longrightarrow> length (zero_gap s f to_off buf) = length buf"
  by (auto simp: zero_gap_def Let_def)

lemma nth_zero_gap:
  assumes "to_off - s \<le> length buf" and "k < length buf"
  shows "zero_gap s f to_off buf ! k = (if f \<le> k + s \<and> k + s < to_off then 0 else buf ! k)"
  using assms by (auto simp: zero_gap_def Let_def nth_overwrite max_def split: if_splits)

lemma write_image_spec:
  fixes bs S off m :: nat
  assumes bs: "0 < bs" and data: "off mod bs + length data \<le> m * bs" and S: "S \<le> length X"
    and X: "off div bs * bs + m * bs \<le> length X" and bX: "blks_for bs S * bs \<le> length X"
  shows "length (write_image bs m S off data X) = m * bs"
    and "take (max S (off + length data)) (overwrite (off div bs * bs) (write_image bs m S off data X) X) = written bs S off data X"
proof -
  define s a M where "s = off div bs" and "a = s * bs" and "M = m * bs"
  define p where "p = min m (blks_for bs S - s)"
  define B where "B = overwrite 0 (chunk a (p * bs) X) (replicate M 0)"
  have o: "off = a + off mod bs" "off mod bs < bs" using bs by (simp_all add: a_def s_def)
  have aM: "a + M \<le> length X" using X by (simp add: a_def s_def M_def)
  have pM: "p * bs \<le> M" unfolding M_def by (rule mult_le_mono1) (simp add: p_def)
  have lB: "length B = M" and nB: "k < p * bs \<Longrightarrow> B ! k = X ! (a + k)" for k
    using pM aM by (simp_all add: B_def nth_overwrite nth_chunk)
  have gap: "off - a \<le> M" using data o by (simp add: M_def)
  have old: "k < p * bs" if "a + k < S" "k < M" for k
  proof -
    have "S \<le> blks_for bs S * bs" by (rule blks_for_bound [OF bs])
    then have "a + k < blks_for bs S * bs" using that(1) by simp
    then have "k < (blks_for bs S - s) * bs" by (simp add: a_def diff_mult_distrib)
    then show ?thesis using that(2) by (simp add: p_def M_def min_def)
  qed
  define G where "G = (if S < off then zero_gap a S off B else B)"
  have lG: "length G = M" using lB gap by (simp add: G_def length_zero_gap)
  have nG: "G ! k = (if S \<le> a + k \<and> a + k < off then 0 else B ! k)" if "k < M" for k
    using that lB gap by (auto simp: G_def nth_zero_gap add.commute)
  have W: "write_image bs m S off data X = overwrite (off mod bs) data G"
    by (simp add: write_image_def Let_def G_def B_def p_def a_def s_def M_def)
  have lW: "length (write_image bs m S off data X) = M" unfolding W using lG data by (simp add: M_def)
  then show "length (write_image bs m S off data X) = m * bs" by (simp add: M_def)
  have nW: "write_image bs m S off data X ! k = (if off \<le> a + k \<and> a + k < off + length data then data ! (a + k - off)
      else if S \<le> a + k \<and> a + k < off then 0 else B ! k)" if "k < M" for k
  proof -
    have "a + k - off = k - off mod bs" using o(1) by linarith
    then show ?thesis unfolding W using that lG data nG [OF that] o by (subst nth_overwrite) (auto simp: M_def)
  qed
  let ?T = "max S (off + length data)"
  have T: "?T \<le> length X" using S data aM o by (simp add: M_def)
  show "take ?T (overwrite (off div bs * bs) (write_image bs m S off data X) X) = written bs S off data X"
    unfolding s_def [symmetric] a_def [symmetric]
  proof (rule nth_equalityI, goal_cases)
    case 1
    show ?case using lW aM T by (simp add: written_def length_zero_gap)
  next
    case (2 x)
    then have x: "x < ?T" "x < length X" using lW aM T by simp_all
    have z: "length (zero_gap 0 (max S a) off (take ?T X)) = ?T" using T by (simp add: length_zero_gap)
    have r: "written bs S off data X ! x = (if off \<le> x \<and> x < off + length data then data ! (x - off)
        else if S \<le> x \<and> a \<le> x \<and> x < off then 0 else X ! x)"
      using x z T by (auto simp: written_def nth_overwrite nth_zero_gap a_def [symmetric] s_def [symmetric])
    have l: "overwrite a (write_image bs m S off data X) X ! x =
        (if a \<le> x \<and> x < a + M then write_image bs m S off data X ! (x - a) else X ! x)"
      using x aM lW by (simp add: nth_overwrite)
    have "x < a \<Longrightarrow> x < off" using o by simp
    moreover have "off + length data \<le> a + M" using data o by (simp add: M_def)
    ultimately show ?case
      using x(1) nW [of "x - a"] nB [of "x - a"] old [of "x - a"] by (auto simp: l r)
  qed
qed

text \<open>In general the bytes between the old end and the write are the old content of the blocks up to the
  block of the write, and zeros from there.\<close>

definition gap_bytes :: "nat \<Rightarrow> nat \<Rightarrow> nat \<Rightarrow> byte list \<Rightarrow> byte list" where
  "gap_bytes bs S off X = chunk S (max S (off div bs * bs) - S) X @ replicate (off - max S (off div bs * bs)) 0"

lemma length_gap_bytes:
  assumes "off \<le> length X"
  shows "length (gap_bytes bs S off X) = off - S"
proof -
  have "off div bs * bs \<le> off" by simp
  then show ?thesis using assms unfolding gap_bytes_def length_append length_replicate length_chunk by linarith
qed

lemma nth_overwrite_grow:
  assumes "off \<le> length buf" and "x < max (length buf) (off + length data)"
  shows "overwrite off data buf ! x = (if off \<le> x \<and> x < off + length data then data ! (x - off) else buf ! x)"
proof (cases "x < off + length data")
  case True
  then have "\<not> x < off \<Longrightarrow> x - off < length data" by linarith
  then show ?thesis using True assms by (cases "x < off") (simp_all add: overwrite_def nth_append min.absorb2)
next
  case False
  then have "x - off - length data + (off + length data) = x" "\<not> x - off < length data" "\<not> x < off" "off + length data \<le> length buf"
    using assms by linarith+
  then show ?thesis
    using False assms(1) by (simp add: overwrite_def nth_append min.absorb2 add.commute)
qed

lemma written_gap:
  assumes T: "max S (off + length data) \<le> length X"
  shows "written bs S off data X = overwrite off data (take S X @ gap_bytes bs S off X)"
proof -
  let ?T = "max S (off + length data)" and ?a = "off div bs * bs" and ?G = "gap_bytes bs S off X"
  have a: "?a \<le> off" by simp
  have lg: "length ?G = off - S" by (rule length_gap_bytes) (use T in simp)
  have z: "length (zero_gap 0 (max S ?a) off (take ?T X)) = ?T" using T by (simp add: length_zero_gap)
  have ng: "?G ! k = (if S + k < ?a then X ! (S + k) else 0)" if "k < off - S" for k
    using that T a by (auto simp: gap_bytes_def nth_append chunk_def length_chunk)
  show ?thesis
  proof (rule nth_equalityI, goal_cases)
    case 1
    show ?case using z T lg by (simp add: written_def overwrite_def) linarith
  next
    case (2 x)
    then have x: "x < ?T" using z T by (simp add: written_def)
    have "S \<le> length X" using T by simp
    then have l: "overwrite off data (take S X @ ?G) ! x =
        (if off \<le> x \<and> x < off + length data then data ! (x - off) else if x < S then X ! x else ?G ! (x - S))"
      by (subst nth_overwrite_grow) (use x in \<open>simp_all add: lg nth_append\<close>)
    have zg: "zero_gap 0 (max S ?a) off (take ?T X) ! x = (if max S ?a \<le> x \<and> x < off then 0 else X ! x)"
      using x T by (simp add: nth_zero_gap)
    have r: "written bs S off data X ! x =
        (if off \<le> x \<and> x < off + length data then data ! (x - off) else zero_gap 0 (max S ?a) off (take ?T X) ! x)"
      using x z by (simp add: written_def nth_overwrite)
    consider "off \<le> x \<and> x < off + length data" | "x < S" "\<not> (off \<le> x \<and> x < off + length data)" | "S \<le> x" "x < off"
      using x by linarith
    then show ?case
      unfolding l r zg by cases (use ng [of "x - S"] in auto)
  qed
qed

lemma gap_bytes_near: "off div bs * bs \<le> S \<Longrightarrow> gap_bytes bs S off X = replicate (off - S) 0"
  by (simp add: gap_bytes_def chunk_def)

text \<open>A write that starts at most in the block after the last one leaves no old bytes in the gap, and a
  write inside the file only replaces bytes.\<close>

lemma written_near:
  assumes "off div bs * bs \<le> S" and "max S (off + length data) \<le> length X"
  shows "written bs S off data X = overwrite off data (take S X @ replicate (off - S) 0)"
  using written_gap [OF assms(2)] gap_bytes_near [OF assms(1)] by simp

lemma written_inside:
  assumes "off \<le> S" and "S \<le> length X" and "off + length data \<le> length X"
  shows "written bs S off data X = overwrite off data (take S X)"
  using written_near [of off bs S data X] assms order.trans [OF div_times_less_eq_dividend assms(1)] by simp

section \<open>The end of a write\<close>

lemma hruns_set_offset:
  assumes "hruns (if upd then E\<lparr>en_files := (en_files E)[i := h]\<rparr> else E) V (f ()) P"
  shows "hruns E V (bind (if upd then set_filehandle i h else ret ()) f) P"
  using assms by (cases upd) (auto simp: bind_ret intro: hruns_set_filehandle)

lemma stamp_mtime_ctime:
  "stamp_inode t (MOFS_INODE_TIME_MTIME OR MOFS_INODE_TIME_CTIME) i = i\<lparr>i_mtime := t, i_ctime := t\<rparr>"
  "MOFS_INODE_TIME_MTIME OR MOFS_INODE_TIME_CTIME \<noteq> 0"
  by (simp_all add: stamp_inode_def mofs_consts)

text \<open>Storing an inode with new times.\<close>

lemma runs_stamp_write_torn:
  fixes E :: env
  defines "sb \<equiv> en_sb E"
  assumes n: "inode_num_ok sb n"
  shows "runs E V (bind (mofs_inode_stamp_now i (MOFS_INODE_TIME_MTIME OR MOFS_INODE_TIME_CTIME)) (mofs_write_inode n))
    (\<lambda>V' r c. case r of Inl _ \<Rightarrow> \<not> c \<and> (\<exists>j t. torn_inode (i\<lparr>i_mtime := t, i_ctime := t\<rparr>) (inode_in sb V n) j \<and> V' = put_inode sb n j V)
       | Inr _ \<Rightarrow> \<exists>t. V' = put_inode sb n (i\<lparr>i_mtime := t, i_ctime := t\<rparr>) V)"
proof (rule runs_wf, rule runs_bind [OF runs_stamp_now], unfold if_not_P [OF stamp_mtime_ctime(2)] stamp_mtime_ctime(1), goal_cases)
  case (1 V' e c)
  then show ?case using put_inode_torn_same [OF _ n, of V "i\<lparr>i_mtime := 0, i_ctime := 0\<rparr>"] by (simp add: sb_def) blast
next
  case (2 V' i')
  then obtain t where i': "i' = i\<lparr>i_mtime := t, i_ctime := t\<rparr>" "V' = V" by auto
  show ?case
    unfolding i' by (intro runs_mono [OF runs_write_inode_torn]) (use n in \<open>auto simp: sb_def split: sum.splits\<close>)
qed

lemma runs_stamp_write:
  fixes E :: env
  defines "sb \<equiv> en_sb E"
  assumes n: "inode_num_ok sb n"
  shows "runs E V (bind (mofs_inode_stamp_now i (MOFS_INODE_TIME_MTIME OR MOFS_INODE_TIME_CTIME)) (mofs_write_inode n))
    (\<lambda>V' r c. eq_off (inode_table_own sb) V V' \<and> (case r of Inl _ \<Rightarrow> \<not> c
       | Inr _ \<Rightarrow> \<exists>t. V' = put_inode sb n (i\<lparr>i_mtime := t, i_ctime := t\<rparr>) V))"
proof (rule runs_wf, rule runs_mono [OF runs_stamp_write_torn [OF n [unfolded sb_def], folded sb_def]], fold sb_def, goal_cases)
  case (1 V' r c)
  then show ?case using it.put_off [OF 1(1) n] by (cases r) auto
qed

lemma hruns_finish_write:
  fixes E :: env
  defines "sb \<equiv> en_sb E" and "bs \<equiv> bsz E"
  assumes n: "inode_num_ok sb n" "n = fh_inode_num h"
    and nums: "0 \<le> offset" "0 < unat W" "nat offset + unat W < 2 ^ 32"
    and m: "nat offset mod bs + unat W \<le> m * bs" "m * bs < 2 ^ 32"
    and lay: "layout_ok sb"
  shows "hruns E V (finish_write sb i h ino W offset upd k frac) (\<lambda>E' V' r c. eq_off (inode_table_own sb) V V' \<and>
      (c \<and> frac = 0 \<and> unat k = m \<longrightarrow> r = Inr W \<and>
         E' = (if upd then E\<lparr>en_files := (en_files E)[i := h\<lparr>fh_file_offset := word_of_int (offset + int (unat W))\<rparr>]\<rparr> else E) \<and>
         (\<exists>t. V' = put_inode sb n (ino\<lparr>i_size := word_of_nat (max (unat (i_size ino)) (nat offset + unat W)), i_mtime := t, i_ctime := t\<rparr>) V)))"
proof -
  let ?o = "nat offset"
  define pos where "pos = (word_of_int (offset mod uint (sb_blk_size sb)) :: u32)"
  define tot where "tot = k * sb_blk_size sb + frac"
  define ws where "ws = (if tot < pos then 0 else min (tot - pos) W)"
  define we where "we = ?o + unat ws"
  define i' where "i' = (if unat (i_size ino) < we then ino\<lparr>i_size := word_of_nat we\<rparr> else ino)"
  have bsb: "bs = unat (sb_blk_size sb)" by (simp add: bs_def sb_def)
  have b: "512 \<le> bs" "bs \<le> 65536" using layout_blk_size [OF lay] by (simp_all add: bsb)
  have "offset mod uint (sb_blk_size sb) = int (?o mod bs)" using nums(1) by (simp add: bsb zmod_int)
  moreover have "?o mod bs < 2 ^ 32" by (rule less_trans [OF mod_less_divisor]) (use b in simp_all)
  ultimately have pos: "unat pos = ?o mod bs" by (simp add: pos_def unat_word_of_nat)
  have full: "ws = W \<and> i' = ino\<lparr>i_size := word_of_nat (max (unat (i_size ino)) (?o + unat W))\<rparr>" if "frac = 0" "unat k = m"
  proof -
    have "unat tot = m * bs" using that m(2) by (simp add: tot_def unat_word_ariths(2) bsb)
    then have "\<not> tot < pos" "unat (tot - pos) = m * bs - ?o mod bs"
      using m(1) pos unat_sub_le [of pos tot] by (simp_all add: word_less_nat_alt word_le_nat_alt)
    then have "ws = W" using m(1) by (auto simp: ws_def min_def word_le_nat_alt word_unat_eq_iff)
    then show ?thesis by (auto simp: i'_def we_def max_def)
  qed
  have fin: "hruns E V (bind (attempt (if 0 < ws then bind (mofs_inode_stamp_now i' (MOFS_INODE_TIME_MTIME OR MOFS_INODE_TIME_CTIME)) (mofs_write_inode n) else ret ())) (\<lambda>r.
      bind (if upd then set_filehandle i (h\<lparr>fh_file_offset := word_of_nat we\<rparr>) else ret ()) (\<lambda>_. bind (from_res r) (\<lambda>_. ret ws))))
    (\<lambda>E' V' r c. eq_off (inode_table_own sb) V V' \<and> (c \<and> 0 < ws \<longrightarrow> r = Inr ws \<and>
      E' = (if upd then E\<lparr>en_files := (en_files E)[i := h\<lparr>fh_file_offset := word_of_nat we\<rparr>]\<rparr> else E) \<and>
      (\<exists>t. V' = put_inode sb n (i'\<lparr>i_mtime := t, i_ctime := t\<rparr>) V)))"
  proof -
    let ?P = "\<lambda>V' r c. eq_off (inode_table_own sb) V V' \<and> (c \<and> 0 < ws \<longrightarrow> r = Inr () \<and> (\<exists>t. V' = put_inode sb n (i'\<lparr>i_mtime := t, i_ctime := t\<rparr>) V))"
    have st: "runs E V (if 0 < ws then bind (mofs_inode_stamp_now i' (MOFS_INODE_TIME_MTIME OR MOFS_INODE_TIME_CTIME)) (mofs_write_inode n) else ret ()) ?P"
      by (intro runs_if runs_ret runs_mono [OF runs_stamp_write [OF n(1) [unfolded sb_def], folded sb_def]]) (auto split: sum.splits)
    show ?thesis
      by (rule hruns_attempt_bind [OF st], rule hruns_set_offset, rule hruns_runs)
        (auto intro!: runs_pure_bind runs_ret)
  qed
  show ?thesis
    unfolding finish_write_def Let_def pos_def [symmetric] tot_def [symmetric]
    unfolding ws_def [symmetric]
    unfolding we_def [symmetric]
    unfolding i'_def [symmetric] n(2) [symmetric]
  proof (rule hruns_mono [OF fin], goal_cases)
    case (1 E' V' r c)
    have "word_of_int (offset + int (unat W)) = (word_of_nat (?o + unat W) :: u32)" using nums(1) by simp
    then show ?case using 1 full nums(2) by (auto simp: we_def word_less_nat_alt)
  qed
qed

section \<open>The blocks of a write\<close>

lemma write_numbers:
  fixes offset :: int and W :: u32
  defines "o' \<equiv> nat offset"
  assumes lay: "layout_ok sb" and bs: "bs = unat (sb_blk_size sb)" and off: "0 \<le> offset" and small: "o' + unat W \<le> 2 ^ 26"
    and m: "m = blks_for bs (o' mod bs + unat W)" "m \<le> 1024"
  shows "unat (word_of_int (offset div uint (sb_blk_size sb)) :: u32) = o' div bs"
    and "unat (word_of_int (offset mod uint (sb_blk_size sb)) :: u32) = o' mod bs"
    and "unat ((word_of_int (offset mod uint (sb_blk_size sb)) + W + sb_blk_size sb - 1) div sb_blk_size sb) = m"
    and "unat ((word_of_int (offset mod uint (sb_blk_size sb)) + W + sb_blk_size sb - 1) div sb_blk_size sb * sb_blk_size sb) = m * bs"
    and "m * bs \<le> 2 ^ 26"
proof -
  have b: "512 \<le> bs" "bs \<le> 65536" "uint (sb_blk_size sb) = int bs" using layout_blk_size [OF lay] by (simp_all add: bs)
  have o: "offset = int o'" using off by (simp add: o'_def)
  have "o' div bs \<le> o'" "o' mod bs \<le> o'" by simp_all
  moreover have "o' + unat W \<le> 67108864" using small by simp
  ultimately have lt: "o' div bs < 4294967296" "o' mod bs < 4294967296" "o' mod bs + unat W \<le> 67108864" by linarith+
  show "unat (word_of_int (offset div uint (sb_blk_size sb)) :: u32) = o' div bs"
    using lt by (simp add: o b(3) unat_word_of_nat flip: zdiv_int)
  show pos: "unat (word_of_int (offset mod uint (sb_blk_size sb)) :: u32) = o' mod bs"
    using lt by (simp add: o b(3) unat_word_of_nat flip: zmod_int)
  let ?pos = "word_of_int (offset mod uint (sb_blk_size sb)) :: u32"
  have u: "unat (?pos + W) = o' mod bs + unat W" using lt pos by (simp add: unat_word_ariths(1))
  show r: "unat ((?pos + W + sb_blk_size sb - 1) div sb_blk_size sb) = m"
    unfolding m using unat_blks_for [OF lay, of "?pos + W"] u lt by (simp add: bs)
  show mb: "m * bs \<le> 2 ^ 26" using mult_le_mono [OF m(2) b(2)] by simp
  show "unat ((?pos + W + sb_blk_size sb - 1) div sb_blk_size sb * sb_blk_size sb) = m * bs"
    using mb by (simp only: unat_word_ariths(2) r bs [symmetric]) simp
qed

lemma file_area_off:
  assumes "layout_ok sb" and "owned sb V n ns ds" and "eq_off (\<lambda>b. b \<in> set ds) V V1" and "eq_off (inode_table_own sb) V1 V'"
  shows "eq_off (file_area sb) V V'"
proof -
  have "eq_off (file_area sb) V V1" by (rule eq_off_mono [OF assms(3)]) (use assms(2) in \<open>auto simp: owned_def\<close>)
  moreover have "eq_off (file_area sb) V1 V'" by (rule eq_off_mono [OF assms(4)]) simp
  ultimately show ?thesis by (rule eq_off_trans)
qed

lemma hruns_write_blocks:
  fixes E :: env
  defines "sb \<equiv> en_sb E" and "bs \<equiv> bsz E"
  assumes n: "inode_num_ok sb n" "n = fh_inode_num h" and own: "owned sb V n ns ds" and max: "length ds \<le> 1024"
    and ino: "ino = inode_in sb V n" and S: "S = unat (i_size ino)" "blks_for bs S \<le> length ds"
    and off: "0 \<le> offset" "o' = nat offset" and W: "0 < unat W" "unat W \<le> length buf" "o' + unat W \<le> 2 ^ 26"
    and m: "m = blks_for bs (o' mod bs + unat W)" "o' div bs + m \<le> length ds"
    and undo: "runs E V undo (\<lambda>V' r c. eq_off (file_area sb) V V')"
  shows "hruns E V (write_blocks_of sb i h ino (i_size ino) buf W offset upd undo) (\<lambda>E' V' r c. eq_off (file_area sb) V V' \<and>
     (c \<longrightarrow> r = Inr W \<and>
       E' = (if upd then E\<lparr>en_files := (en_files E)[i := h\<lparr>fh_file_offset := word_of_int (offset + int (unat W))\<rparr>]\<rparr> else E) \<and>
       (\<exists>V1 t. eq_off (\<lambda>b. b \<in> set ds) V V1 \<and>
          V' = put_inode sb n (ino\<lparr>i_size := word_of_nat (max S (o' + unat W)), i_mtime := t, i_ctime := t\<rparr>) V1 \<and>
          file_bytes V1 ds (max S (o' + unat W)) = written bs S o' (take (unat W) buf) (blocks_of V ds))))"
    (is "hruns E V _ ?P")
proof (rule hruns_wf, fold sb_def)
  assume lay: "layout_ok sb" and wf: "wf_disk sb V"
  define s p X data where "s = o' div bs" and "p = min m (blks_for bs S - s)" and "X = blocks_of V ds" and "data = take (unat W) buf"
  have bsb: "bs = unat (sb_blk_size sb)" by (simp add: bs_def sb_def)
  have b: "512 \<le> bs" "bs \<le> 65536" using layout_blk_size [OF lay] by (simp_all add: bsb)
  have m1024: "m \<le> 1024" using m(2) max by simp
  note num = write_numbers [OF lay bsb off(1) W(3) [unfolded off(2)] m(1) [unfolded off(2)] m1024, folded off(2)]
  have lens: "length (V x) = bs" if "x \<in> set ds" for x using owned_lengths(1) [OF lay wf own that] by (simp add: bsb)
  have lX: "length X = length ds * bs" unfolding X_def by (rule blocks_of_length [OF lens])
  have Sb: "S \<le> blks_for bs S * bs" by (rule blks_for_bound) (use b in simp)
  have dsb: "blks_for bs S * bs \<le> length X" unfolding lX by (rule mult_le_mono1 [OF S(2)])
  have "S \<le> 1024 * 65536" using Sb mult_le_mono [OF order.trans [OF S(2) max] b(2)] by simp
  then have cur: "unat ((i_size ino + sb_blk_size sb - 1) div sb_blk_size sb) = blks_for bs S"
    using unat_blks_for [OF lay, of "i_size ino"] S(1) by (simp add: bsb)
  have fit: "unat (word_of_int (offset div uint (sb_blk_size sb)) :: u32) + m \<le> length ds" using m(2) num(1) by simp
  have mb: "o' mod bs + unat W \<le> m * bs" unfolding m(1) by (rule blks_for_bound) (use b in simp)
  have sX: "s * bs + m * bs \<le> length X" unfolding lX s_def using mult_le_mono1 [OF m(2), of bs] by (simp add: add_mult_distrib)
  have img: "length (write_image bs m S o' data X) = m * bs"
    "take (max S (o' + unat W)) (overwrite (s * bs) (write_image bs m S o' data X) X) = written bs S o' data X"
    using write_image_spec [of bs o' data m S X] b mb W(2) Sb dsb sX by (simp_all add: data_def s_def)
  show "hruns E V (write_blocks_of sb i h ino (i_size ino) buf W offset upd undo) ?P"
    unfolding write_blocks_of_def Let_def num(1-4) n(2) [symmetric] s_def [symmetric]
  proof (rule hruns_with_malloc_opt, goal_cases)
    case 1
    show ?case
      unfolding option.case
      by (intro hruns_runs runs_bind [OF runs_ignore [OF undo, where R = "\<lambda>V' r c. eq_off (file_area sb) V V'"]] runs_throw) simp_all
  next
    case (2 tmp)
    let ?st = "word_of_int (offset div uint (sb_blk_size sb)) :: u32"
    let ?Z = "overwrite 0 (chunk (s * bs) (p * bs) X) (replicate (m * bs) 0)"
    let ?R = "\<lambda>V' r c. case r of Inl _ \<Rightarrow> \<not> c \<and> eq_off (file_area sb) V V' | Inr B \<Rightarrow> V' = V \<and> B = ?Z"
    have pp: "p = min m (unat ((i_size ino + sb_blk_size sb - 1) div sb_blk_size sb) - unat ?st)" by (simp add: p_def cur num(1) s_def)
    have load: "runs E V (on_error (preload_loop sb n ?st ((i_size ino + sb_blk_size sb - 1) div sb_blk_size sb) [0..<m]
        (replicate (length tmp) 0)) undo) ?R"
    proof (rule runs_on_error [OF runs_preload_loop [OF n(1) [unfolded sb_def] own [unfolded sb_def] max fit [unfolded sb_def] pp [unfolded sb_def], folded sb_def bs_def]], goal_cases)
      case 1
      then show ?case using 2 by simp
    next
      case (2 V' B c)
      then show ?case using \<open>length tmp = m * bs\<close> by (simp add: load_post_def num(1) s_def X_def blocks_of_chunk [OF lens])
    next
      case (3 V' e)
      then have "V' = V" by (simp add: load_post_def)
      then show ?case using undo by (auto elim!: runs_mono simp: load_post_def)
    qed
    show ?case
      unfolding option.case
    proof (rule hruns_bind [OF load], goal_cases)
      case (1 V' e c)
      then show ?case by simp
    next
      case (2 V' B)
      then have V': "V' = V" and B: "B = ?Z" by simp_all
      define G where "G = (if int (unat (i_size ino)) < offset then zero_gap (s * bs) (unat (i_size ino)) o' B else B)"
      have G: "overwrite (o' mod bs) data G = write_image bs m S o' data X"
      proof -
        have "int (unat (i_size ino)) < offset \<longleftrightarrow> S < o'" by (simp only: off(2) S(1) zless_nat_eq_int_zless)
        then show ?thesis by (simp only: G_def B write_image_def Let_def s_def p_def S(1))
      qed
      have pm: "p * bs \<le> m * bs" by (rule mult_le_mono1) (simp add: p_def)
      then have "s * bs + p * bs \<le> length X" using sX by linarith
      then have "length (chunk (s * bs) (p * bs) X) = p * bs" by simp
      then have lB: "length B = m * bs" unfolding B by (subst length_overwrite) (use pm in simp_all)
      have "o' - s * bs = o' mod bs" by (simp add: s_def minus_div_mult_eq_mod)
      then have lG: "length G = m * bs" using lB mb by (simp add: G_def length_zero_gap)
      have room: "\<not> (length buf < unat W \<or> length G < o' mod bs + unat W)" using lG mb W(2) by simp
      have mm: "m = min (unat ((word_of_int (offset mod uint (sb_blk_size sb)) + W + sb_blk_size sb - 1) div sb_blk_size sb)) (length ds - unat ?st)"
        using fit num(3) by simp
      have m0: "(word_of_int (offset mod uint (sb_blk_size sb)) + W + sb_blk_size sb - 1) div sb_blk_size sb \<noteq> 0"
        using num(3) mb W(1) by auto
      have dat: "eq_off (\<lambda>b. b \<in> set ds) V V'" "eq_off (file_area sb) V V'" if "eq_off (\<lambda>b. b \<in> set (chunk (unat ?st) m ds)) V V'" for V'
      proof -
        show d: "eq_off (\<lambda>b. b \<in> set ds) V V'"
          by (rule eq_off_mono [OF that]) (auto simp: chunk_def dest!: in_set_takeD in_set_dropD)
        show "eq_off (file_area sb) V V'" by (rule file_area_off [OF lay own d]) simp
      qed
      have lw: "m * bs \<le> length (overwrite (o' mod bs) data G)" unfolding G by (simp add: img(1))
      show ?case
        unfolding bsb [symmetric] off(2) [symmetric] G_def [symmetric] if_not_P [OF room] data_def [symmetric] V'
      proof (rule hruns_bind [OF runs_write_file [OF n(1) [unfolded sb_def] own [unfolded sb_def] max m0 [unfolded sb_def] mm [unfolded sb_def]
              lw [unfolded bs_def], folded sb_def bs_def]], goal_cases)
        case (1 V' e c)
        have "length ds > unat ?st" using fit mb W(1) by (cases "m = 0") auto
        then show ?case using 1 dat by auto
      next
        case (2 V1 x)
        obtain k frac where x: "x = (k, frac)" by (cases x)
        have d1: "eq_off (\<lambda>b. b \<in> set ds) V V1" using 2 dat by simp
        have new: "file_bytes V1 ds (max S (o' + unat W)) = written bs S o' data X"
          if "blocks_of V1 ds = overwrite (unat ?st * bs) (take (m * bs) (overwrite (o' mod bs) data G)) (blocks_of V ds)"
          using img unfolding file_bytes_def that G num(1) s_def [symmetric] X_def [symmetric] by simp
        show ?case
          unfolding x prod.case
        proof (rule hruns_mono [OF hruns_finish_write [OF n [unfolded sb_def] off(1) W(1) _ _ _ lay [unfolded sb_def], where m = m, folded sb_def bs_def off(2)]], goal_cases)
          case 1
          then show ?case using W(3) by simp
        next
          case 2
          then show ?case using mb .
        next
          case 3
          then show ?case using num(5) by simp
        next
          case (4 E' V' r c)
          have "eq_off (file_area sb) V V'" by (rule file_area_off [OF lay own d1]) (use 4 in simp)
          then show ?case using 4 d1 new S(1) unfolding X_def data_def x by auto
        qed
      qed
    qed
  qed
qed

end
