(* ===== verification/Mofs_Write_Core.thy ===== *)
theory Mofs_Write_Core
  imports Mofs_Write
begin

text \<open>
  The contract of \<open>mofs_write_core\<close> of \<open>src/core/modules/mofs_file.c\<close> as a whole: the checks
  in their order (\<open>write_refusal\<close>), the blocks that are appended first when the write goes beyond
  the last block, the write of the blocks, the size and times of the inode and the offset of the
  handle. \<open>write_post\<close> says what a successful write makes of the volume.
\<close>

unbundle bit_operations_syntax

section \<open>Writing blocks and the inode of one file\<close>

lemma hruns_keeps_wf:
  assumes "hruns E V m P"
  shows "hruns E V m (\<lambda>E' V' r c. P E' V' r c \<and> wf_disk (en_sb E) V')"
proof (rule hrunsI)
  fix w assume w: "fs_ok w" "env_of w = E" "vol w = V"
  show "wp m (\<lambda>r w'. fs_ok w' \<and> handle_frame w w' \<and> (P (env_of w') (vol w') r False \<and> wf_disk (en_sb E) (vol w')) \<and>
      (calm w w' \<longrightarrow> P (env_of w') (vol w') r True \<and> wf_disk (en_sb E) (vol w'))) w"
  proof (rule wp_mono [OF hrunsD [OF assms w]], elim conjE, goal_cases)
    case (1 r w')
    have "sp_blk w' = en_sb E" using arg_cong [OF handle_frame_env [OF 1(2)], of en_sb] w(2) by (auto simp: env_of_def)
    then show ?case using 1 vol_wf [OF 1(1)] by simp
  qed
qed

text \<open>The content of one file and its inode change, not its list: what holds of the lists of all files
  still holds, and the other files are the same.\<close>

lemma fs_written:
  assumes lay: "layout_ok sb" and wf: "wf_disk sb V2" and inv: "fs_safe sb V L N D" and n: "n \<in> L"
    and off: "eq_off (\<lambda>b. b \<in> set (D n)) V V2" and V': "V' = put_inode sb n i V2"
    and i: "i_data_head i = i_data_head (inode_in sb V n)" "i_nr_blocks i = i_nr_blocks (inode_in sb V n)"
  shows "fs_safe sb V' L N D" and "same_files sb V V' (L - {n}) D" and "inode_in sb V' n = i" and "map V' (D n) = map V2 (D n)"
    and "fs_inv sb V L N D \<Longrightarrow> fs_inv sb V' L N D"
proof -
  note D = fs_safeD [OF inv]
  have blk: "data_blk sb x" if "x \<in> set (N m) \<or> x \<in> set (D m)" "m \<in> L" for x m using D(4) [OF that(2,1)] by simp
  have put: "eq_off (inode_table_own sb) V2 V'" unfolding V' by (rule it.put_off [OF lay D(1) [OF n]])
  have dat: "\<not> inode_table_own sb x" "\<not> data_bitmap_own sb x" if "data_blk sb x" for x
    using data_blk_regions [OF lay that] by blast+
  have tab: "\<not> inode_table_own sb b" if "b \<in> set (D n)" for b using dat(1) blk that n by blast
  have all: "eq_off (\<lambda>b. inode_table_own sb b \<or> b \<in> set (D n)) V V'" using off put by (auto simp: eq_off_def)
  have used: "data_used sb V' k = data_used sb V k" if "k < unat (sb_data_blk_num sb)" for k
    by (rule data_used_off [OF lay all _ that]) (use table_not_bitmap(1) [OF lay] blk [OF _ n] dat(2) in blast)
  then have u: "blk_used sb V' x = blk_used sb V x" if "data_blk sb x" for x using abs_to_data_idx_ok(3) [OF that] by blast
  have ino2: "inode_in sb V2 m = inode_in sb V m" if "m \<in> L" for m by (rule inode_in_off [OF lay D(1) [OF that] off tab])
  have ino: "inode_in sb V' m = (if m = n then i else inode_in sb V m)" if "m \<in> L" for m
    unfolding V' using it.get_put [OF lay D(1) [OF n] D(1) [OF that] wf] ino2 [OF that] by simp
  then show "inode_in sb V' n = i" using n by simp
  have same: "V' x = V2 x" if "data_blk sb x" for x using put dat(1) [OF that] by (auto simp: eq_off_def)
  have keep: "V' x = V x" if "data_blk sb x" "x \<notin> set (D n)" for x using same [OF that(1)] off that(2) by (auto simp: eq_off_def)
  show "map V' (D n) = map V2 (D n)" using same blk [OF _ n] by simp
  have nodes: "x \<notin> set (D n)" if "x \<in> set (N m)" "m \<in> L" for x m
    using D(2) [OF n] D(5) [OF that(2) n, of x] that by (cases "m = n") (auto simp: owned_def)
  have fb: "file_blocks sb V' j (N m) (D m)" if "file_blocks sb V j (N m) (D m)" "m \<in> L" for m j
    using that file_blocks_off [OF all] nodes dat(1) blk by blast
  have own: "owned sb V' m (N m) (D m)" if m: "m \<in> L" for m
  proof -
    have "file_blocks sb V (inode_in sb V' m) (N m) (D m)"
      using D(2) [OF m] ino [OF m] i by (auto simp: owned_def file_blocks_def)
    then show ?thesis using D(2) [OF m] fb [OF _ m] u by (auto simp: owned_def)
  qed
  then show safe: "fs_safe sb V' L N D" using inv by (simp add: fs_safe_def)
  then show "fs_inv sb V' L N D" if "fs_inv sb V L N D" using that u by (simp add: fs_inv_def)
  have "V' x = V x" if "m \<in> L" "m \<noteq> n" "x \<in> set (D m)" for m x
    using D(5) [OF n that(1), of x] that keep blk [of x m] by blast
  then show "same_files sb V V' (L - {n}) D" unfolding same_files_def using ino by auto
qed

lemma wf_between:
  assumes "layout_ok sb" and "wf_disk sb V" and "wf_disk sb V'"
    and "eq_off (\<lambda>b. b \<in> A) V V2" and "eq_off (inode_table_own sb) V2 V'" and "\<And>x. x \<in> A \<Longrightarrow> data_blk sb x"
  shows "wf_disk sb V2"
proof -
  have "V2 b = V b \<or> V2 b = V' b" for b
    using assms(4-6) data_blk_regions(3) [OF assms(1), of b] by (cases "b \<in> A") (auto simp: eq_off_def)
  then show ?thesis using assms(2,3) unfolding wf_disk_def by metis
qed

text \<open>What a successful write makes of a volume: the file \<open>n\<close> may have gained blocks, it has the written
  content and its size, every other file is as it was, and the allocation invariant holds.\<close>

definition write_post ::
  "mofs_superblock \<Rightarrow> disk \<Rightarrow> disk \<Rightarrow> int set \<Rightarrow> (int \<Rightarrow> u32 list) \<Rightarrow> (int \<Rightarrow> u32 list) \<Rightarrow> int \<Rightarrow> nat \<Rightarrow> byte list \<Rightarrow> bool" where
  "write_post sb V V' L N D n off data =
     (let S = unat (i_size (inode_in sb V n)); T = max S (off + length data) in
      \<exists>ns xs a nr t.
        fs_inv sb V' L (N(n := ns)) (D(n := D n @ xs)) \<and> same_files sb V V' (L - {n}) D \<and>
        inode_in sb V' n = (inode_in sb V n)\<lparr>i_size := word_of_nat T, i_data_head := a, i_nr_blocks := nr, i_mtime := t, i_ctime := t\<rparr> \<and>
        T \<le> length (D n @ xs) * unat (sb_blk_size sb) \<and>
        file_bytes V' (D n @ xs) T = written (unat (sb_blk_size sb)) S off data (blocks_of V (D n @ xs)))"

lemma write_postI:
  assumes lay: "layout_ok sb" and wf: "wf_disk sb V2" and inv: "fs_inv sb V1 L (N(n := ns)) (D(n := D n @ xs))" and n: "n \<in> L"
    and same: "same_files sb V V1 (L - {n}) D" "map V1 (D n @ xs) = map V (D n @ xs)"
    and ino: "inode_in sb V1 n = (inode_in sb V n)\<lparr>i_data_head := a, i_nr_blocks := nr\<rparr>"
    and off: "eq_off (\<lambda>b. b \<in> set (D n @ xs)) V1 V2"
    and T: "T = max (unat (i_size (inode_in sb V n))) (off + length data)" "T \<le> length (D n @ xs) * unat (sb_blk_size sb)"
    and V': "V' = put_inode sb n ((inode_in sb V1 n)\<lparr>i_size := word_of_nat T, i_mtime := t, i_ctime := t\<rparr>) V2"
    and new: "file_bytes V2 (D n @ xs) T = written (unat (sb_blk_size sb)) (unat (i_size (inode_in sb V n))) off data (blocks_of V1 (D n @ xs))"
  shows "write_post sb V V' L N D n off data"
proof -
  let ?D = "D(n := D n @ xs)"
  have off': "eq_off (\<lambda>b. b \<in> set (?D n)) V1 V2" using off by simp
  note w = fs_written [OF lay wf fs_inv_safe [OF inv] n off' V']
  have w4: "map V' (D n @ xs) = map V2 (D n @ xs)" using w(4) by simp
  have "same_files sb V V' (L - {n}) D"
    using same(1) w(2) by (auto simp: same_files_def)
  moreover have "inode_in sb V' n = (inode_in sb V n)\<lparr>i_size := word_of_nat T, i_data_head := a, i_nr_blocks := nr, i_mtime := t, i_ctime := t\<rparr>"
    using w(3) by (simp add: ino)
  moreover have "file_bytes V' (D n @ xs) T = file_bytes V2 (D n @ xs) T" "blocks_of V1 (D n @ xs) = blocks_of V (D n @ xs)"
    unfolding file_bytes_def blocks_of_def w4 same(2) by simp_all
  moreover have "fs_inv sb V' L (N(n := ns)) ?D" by (rule w(5) [OF _ _ inv]) simp_all
  ultimately show ?thesis using new T(2) unfolding write_post_def Let_def T(1) by metis
qed

lemma runs_undo_free:
  fixes E :: env
  defines "sb \<equiv> en_sb E"
  assumes n: "inode_num_ok sb n" and own: "owned sb V n ns ds" and max: "length ds \<le> 1024" and small: "unat start + unat req < 2 ^ 32"
  shows "runs E V (free_data_block n start req) (\<lambda>V' r c. eq_off (file_area sb) V V')"
proof (rule runs_mono [OF runs_free_data_block [OF n [unfolded sb_def] own [unfolded sb_def] max small refl refl, folded sb_def]], goal_cases)
  case (1 V' r c)
  have "data_blk sb x" if "x \<in> set ns \<or> x \<in> set (chunk (unat start) (min (unat req) (length ds - unat start)) ds)" for x
    using that own by (auto simp: owned_def chunk_def dest!: in_set_takeD in_set_dropD)
  then show ?case using 1 by (auto simp: fresh_def split: if_splits elim!: eq_off_mono)
qed

lemma runs_undo:
  fixes E :: env
  defines "sb \<equiv> en_sb E"
  assumes "inode_num_ok sb n" and "owned sb V n ns ds" and "length ds \<le> 1024" and "unat start + unat req < 2 ^ 32"
  shows "runs E V (ignore (free_data_block n start req)) (\<lambda>V' r c. eq_off (file_area sb) V V')"
  by (rule runs_ignore [OF runs_undo_free [OF assms(2-) [unfolded sb_def], folded sb_def]]) simp


text \<open>The blocks a write needs, as the code computes them.\<close>

lemma write_extent:
  fixes bs off W :: nat
  assumes "0 < bs" and "off + W \<le> 1024 * bs" and m: "m = blks_for bs (off mod bs + W)"
  shows "off div bs + m \<le> 1024" and "off div bs + m = blks_for bs (off + W)"
proof -
  have "off + W = off div bs * bs + (off mod bs + W)" by simp
  then have "off + W + bs - 1 = off div bs * bs + (off mod bs + W + bs - 1)" using assms(1) by linarith
  then have "blks_for bs (off + W) = (off div bs * bs + (off mod bs + W + bs - 1)) div bs" by (simp only: blks_for_def)
  then show e: "off div bs + m = blks_for bs (off + W)" using div_mult_self3 [of bs "off div bs" "off mod bs + W + bs - 1"] assms(1) unfolding m by (simp only: blks_for_def)
  show "off div bs + m \<le> 1024" unfolding e by (rule blks_for_le [OF assms(1,2)])
qed

lemma hruns_write_tail:
  fixes E :: env
  defines "sb \<equiv> en_sb E" and "bs \<equiv> bsz E"
  assumes n: "n \<in> L" "n = fh_inode_num h" and inv: "fs_inv sb V L N D"
    and ino: "ino = inode_in sb V n" and S: "S = unat (i_size ino)" "S \<le> length (D n) * bs"
    and off: "0 \<le> offset" "o' = nat offset" and W: "0 < unat W" "unat W \<le> length buf" "o' + unat W \<le> 1024 * bs"
    and cur: "cur = (i_size ino + sb_blk_size sb - 1) div sb_blk_size sb"
    and start: "start = word_of_int (offset div uint (sb_blk_size sb))"
    and req: "req = (word_of_int (offset mod uint (sb_blk_size sb)) + W + sb_blk_size sb - 1) div sb_blk_size sb"
  shows "hruns E V (if cur < start + req then
            let required_blk_num = start + req - cur;
                undo = ignore (free_data_block n cur required_blk_num)
            in
            bind (allocate_data_block n required_blk_num) (\<lambda>_.
            bind (on_error (mofs_read_inode n) undo) (\<lambda>inode.
            write_blocks_of sb i h inode (i_size ino) buf W offset upd undo))
          else write_blocks_of sb i h ino (i_size ino) buf W offset upd (ret ()))
     (\<lambda>E' V' r c. eq_off (file_area sb) V V' \<and> (c \<longrightarrow> (case r of
        Inl e \<Rightarrow> E' = E \<and> e = MOFS_ENOSPC \<and> fs_inv sb V' L N D \<and> same_files sb V V' L D
      | Inr k \<Rightarrow> k = W \<and>
          E' = (if upd then E\<lparr>en_files := (en_files E)[i := h\<lparr>fh_file_offset := word_of_int (offset + int (unat W))\<rparr>]\<rparr> else E) \<and>
          write_post sb V V' L N D n o' (take (unat W) buf))))"
    (is "hruns E V _ ?P")
proof (rule hruns_wf, fold sb_def)
  assume lay: "layout_ok sb" and wf: "wf_disk sb V"
  define m where "m = blks_for bs (o' mod bs + unat W)"
  have bsb: "bs = unat (sb_blk_size sb)" by (simp add: bs_def sb_def)
  have b: "512 \<le> bs" "bs \<le> 65536" using layout_blk_size [OF lay] by (simp_all add: bsb)
  note f = fs_invD [OF inv n(1)]
  have W26: "o' + unat W \<le> 2 ^ 26" using W(3) b(2) by simp
  have ext: "o' div bs + m \<le> 1024" by (rule write_extent(1) [OF _ W(3) m_def]) (use b in simp)
  have m1: "m \<le> 1024" using ext by simp
  note num = write_numbers [OF lay bsb off(1) W26 [unfolded off(2)] m_def [unfolded off(2)] m1, folded off(2) start req]
  have Sd: "blks_for bs S \<le> length (D n)" by (rule blks_for_le [OF _ S(2)]) (use b in simp)
  have "S \<le> 1024 * 65536" using S(2) mult_le_mono [OF f(3) b(2)] by simp
  then have ucur: "unat cur = blks_for bs S"
    unfolding cur using unat_blks_for [OF lay, of "i_size ino"] S(1) by (simp add: bsb)
  have sum: "unat (start + req) = o' div bs + m" using num(1,3) ext by (simp add: unat_word_ariths(1))
  have ld: "length (take (unat W) buf) = unat W" using W(2) by simp
  have fits: "max S (o' + unat W) \<le> length ds * bs" if "o' div bs + m \<le> length ds" "length (D n) \<le> length ds" for ds :: "u32 list"
  proof -
    have "o' + unat W \<le> (o' div bs + m) * bs"
      using blks_for_bound [of bs "o' + unat W"] write_extent(2) [OF _ W(3) m_def] b(1) by simp
    then show ?thesis using mult_le_mono1 [OF that(1), of bs] mult_le_mono1 [OF that(2), of bs] S(2) by linarith
  qed
  have wfb: "wf_disk sb V2" if "wf_disk sb V1" "wf_disk sb V'" "eq_off (\<lambda>b. b \<in> set ds) V1 V2" "V' = put_inode sb n j V2" "\<And>x. x \<in> set ds \<Longrightarrow> data_blk sb x" for V1 V2 V' ds j
    by (rule wf_between [OF lay that(1,2,3) _ that(5)]) (simp_all add: that(4) it.put_off [OF lay f(1)])
  show "hruns E V (if cur < start + req then
            let required_blk_num = start + req - cur;
                undo = ignore (free_data_block n cur required_blk_num)
            in
            bind (allocate_data_block n required_blk_num) (\<lambda>_.
            bind (on_error (mofs_read_inode n) undo) (\<lambda>inode.
            write_blocks_of sb i h inode (i_size ino) buf W offset upd undo))
          else write_blocks_of sb i h ino (i_size ino) buf W offset upd (ret ())) ?P"
    unfolding Let_def
  proof (rule hruns_if, goal_cases)
    case 1
    let ?q = "start + req - cur"
    have lt: "blks_for bs S < o' div bs + m" using 1 by (simp add: word_less_nat_alt sum ucur)
    have q: "unat ?q = o' div bs + m - blks_for bs S" using 1 by (simp add: unat_sub word_le_nat_alt word_less_nat_alt sum ucur)
    have q1: "length (D n) + unat ?q < 2 ^ 32" using q f(3) ext by simp
    have q2: "unat cur + unat ?q < 2 ^ 32" using q ucur ext lt by simp
    show ?case
    proof (rule hruns_bind [OF runs_keeps_wf [OF runs_allocate_fs [OF inv [unfolded sb_def] n(1) q1, folded sb_def]], folded sb_def], goal_cases)
      case (1 V' e c)
      then show ?case by simp
    next
      case (2 V1 x)
      define ff where "ff = first_free sb V (unat ?q)"
      let ?D = "D(n := D n @ ff)"
      obtain a ns where A: "length ff = unat ?q" "same_files sb V V1 (L - {n}) D" "map V1 (D n @ ff) = map V (D n @ ff)"
        "fs_safe sb V1 L (N(n := ns)) ?D" "wf_disk sb V1" "eq_off (file_area sb) V V1"
        and ino1: "inode_in sb V1 n = ino\<lparr>i_data_head := a, i_nr_blocks := i_nr_blocks ino + ?q\<rparr>"
        using 2 by (auto simp: Let_def ino ff_def)
      note f1 = fs_safeD [OF A(4) n(1), unfolded fun_upd_same]
      note un = runs_undo [OF f1(1) [unfolded sb_def] f1(2) [unfolded sb_def] f1(3) q2, folded sb_def]
      have S1: "S = unat (i_size (inode_in sb V1 n))" and sz: "i_size ino = i_size (inode_in sb V1 n)" by (simp_all add: ino1 S(1))
      have Sd1: "blks_for bs S \<le> length (D n @ ff)" and fit: "o' div bs + m \<le> length (D n @ ff)"
        using Sd lt A(1) q by simp_all
      have rd: "runs E V1 (on_error (mofs_read_inode n) (ignore (free_data_block n cur ?q)))
        (\<lambda>V' r c. case r of Inl _ \<Rightarrow> \<not> c \<and> eq_off (file_area sb) V1 V' | Inr j \<Rightarrow> V' = V1 \<and> j = inode_in sb V1 n)"
        by (rule runs_on_error [OF runs_read_inode]) (use f1(1) un in \<open>auto simp: sb_def elim!: runs_mono\<close>)
      show ?case
      proof (rule hruns_bind [OF rd], goal_cases)
        case (1 V' e c)
        then show ?case using eq_off_trans [OF A(6)] by auto
      next
        case (2 V' j)
        then have V': "V' = V1" "j = inode_in sb V1 n" by simp_all
        show ?case
          unfolding V' sz
        proof (rule hruns_mono [OF hruns_keeps_wf [OF hruns_write_blocks [OF f1(1) [unfolded sb_def] n(2) f1(2) [unfolded sb_def] f1(3) refl S1 [unfolded sb_def]
            Sd1 [unfolded bs_def] off W(1,2) W26 m_def [unfolded bs_def] fit [unfolded bs_def] un [unfolded sb_def]], folded sb_def bs_def]], goal_cases)
          case (1 E' V' r c)
          have off1: "eq_off (file_area sb) V V'" using 1 eq_off_trans [OF A(6)] by blast
          have "write_post sb V V' L N D n o' (take (unat W) buf)"
            if c: c and inv1: "fs_inv sb V1 L (N(n := ns')) ?D" for ns'
          proof -
            obtain V2 t where w: "eq_off (\<lambda>b. b \<in> set (D n @ ff)) V1 V2"
              "V' = put_inode sb n ((inode_in sb V1 n)\<lparr>i_size := word_of_nat (max S (o' + unat W)), i_mtime := t, i_ctime := t\<rparr>) V2"
              "file_bytes V2 (D n @ ff) (max S (o' + unat W)) = written bs S o' (take (unat W) buf) (blocks_of V1 (D n @ ff))"
              "wf_disk sb V'" using 1 c by blast
            have wf2: "wf_disk sb V2" by (rule wfb [OF A(5) w(4,1,2)]) (use f1(4) in auto)
            show ?thesis
              by (rule write_postI [OF lay wf2 inv1 n(1) A(2,3) ino1 [unfolded ino] w(1) _ fits [OF fit, unfolded bsb] w(2)])
                (use w(3) ino S(1) ld in \<open>simp_all add: bsb\<close>)
          qed
          then show ?case using 1 off1 unfolding ff_def [symmetric] Let_def by (cases r) auto
        qed
      qed
    qed
  next
    case 2
    then have ge: "o' div bs + m \<le> blks_for bs S" by (simp add: word_less_nat_alt sum ucur)
    have fit: "o' div bs + m \<le> length (D n)" using ge Sd by simp
    have un: "runs E V (ret ()) (\<lambda>V' r c. eq_off (file_area sb) V V')" by (rule runs_ret) simp
    show ?case
    proof (rule hruns_mono [OF hruns_keeps_wf [OF hruns_write_blocks [OF f(1) [unfolded sb_def] n(2) f(2) [unfolded sb_def] f(3) ino [unfolded sb_def] S(1)
            Sd [unfolded bs_def] off W(1,2) W26 m_def [unfolded bs_def] fit [unfolded bs_def] un [unfolded sb_def]], folded sb_def bs_def]], goal_cases)
      case (1 E' V' r c)
      have "write_post sb V V' L N D n o' (take (unat W) buf)" if c: c
      proof -
        obtain V2 t where w: "eq_off (\<lambda>b. b \<in> set (D n)) V V2"
          "V' = put_inode sb n (ino\<lparr>i_size := word_of_nat (max S (o' + unat W)), i_mtime := t, i_ctime := t\<rparr>) V2"
          "file_bytes V2 (D n) (max S (o' + unat W)) = written bs S o' (take (unat W) buf) (blocks_of V (D n))"
          "wf_disk sb V'" using 1 c by blast
        have "wf_disk sb V2" by (rule wfb [OF wf w(4,1,2)]) (use f(4) in blast)
        then show ?thesis
          by (rule write_postI [OF lay _ _ n(1), where ?V1.0 = V and ns = "N n" and xs = "[]" and t = t and
                a = "i_data_head ino" and nr = "i_nr_blocks ino"])
            (use inv w(1-3) ino S(1) ld fits [OF fit] in \<open>simp_all add: same_files_def bsb\<close>)
      qed
      then show ?case using 1 by (auto split: sum.splits)
    qed
  qed
qed

section \<open>The write routine\<close>

text \<open>The error a write through an open handle is refused with, if any.\<close>

definition write_refusal :: "env \<Rightarrow> mofs_filehandle \<Rightarrow> mofs_inode \<Rightarrow> u32 \<Rightarrow> int \<Rightarrow> mofs_error option" where
  "write_refusal E h ino sz offset =
     (if \<not> fh_used h \<or> sz = 0 \<or> offset < 0 then Some MOFS_EINVAL
      else if fh_open_flags h AND MOFS_OFLAG_WRONLY = 0 then Some MOFS_EBADF
      else if wanted (fh_open_flags h) = None then Some MOFS_EINVAL
      else if \<not> may_access E (fh_open_flags h) ino then Some MOFS_EACCES
      else if mode_has ino MOFS_FTYPE_DIR then Some MOFS_EISDIR
      else if 1024 * bsz E \<le> nat offset then Some MOFS_EFBIG
      else None)"

lemma wanted_accmode: "wanted (f AND MOFS_OFLAG_ACCMODE) = wanted f"
  by (simp add: wanted_def and.assoc)

lemma may_access_accmode: "may_access E (f AND MOFS_OFLAG_ACCMODE) i = may_access E f i"
  by (simp add: may_access_def wanted_accmode)

text \<open>A file has at most 1024 blocks: the part of a request beyond is cut off.\<close>

lemma write_limit:
  fixes sz :: u32
  assumes lay: "layout_ok sb" and bs: "bs = unat (sb_blk_size sb)" and off: "0 \<le> offset" "offset < 2 ^ 63"
  shows "mofs_max_file_bytes sb \<le> word_of_int offset \<longleftrightarrow> 1024 * bs \<le> nat offset"
    and "nat offset < 1024 * bs \<Longrightarrow> unat (min sz (ucast (mofs_max_file_bytes sb - word_of_int offset))) = min (unat sz) (1024 * bs - nat offset)"
proof -
  have b: "512 \<le> bs" "bs \<le> 65536" using layout_blk_size [OF lay] by (simp_all add: bs)
  have M: "unat (mofs_max_file_bytes sb) = 1024 * bs"
    using b by (simp add: mofs_max_file_bytes_def mofs_consts unat_word_ariths unsigned_ucast_eq take_bit_nat_eq_self bs [symmetric])
  have o: "unat (word_of_int offset :: u64) = nat offset"
    using off by (simp add: unat_eq_nat_uint uint_word_of_int_eq take_bit_int_eq_self)
  show "mofs_max_file_bytes sb \<le> word_of_int offset \<longleftrightarrow> 1024 * bs \<le> nat offset"
    by (simp add: word_le_nat_alt M o)
  assume lt: "nat offset < 1024 * bs"
  then have d: "unat (mofs_max_file_bytes sb - word_of_int offset) = 1024 * bs - nat offset"
    using unat_sub [of "word_of_int offset :: u64" "mofs_max_file_bytes sb"] M o by (simp add: word_le_nat_alt)
  then have "unat (ucast (mofs_max_file_bytes sb - word_of_int offset) :: u32) = 1024 * bs - nat offset"
    using b by (simp add: unsigned_ucast_eq take_bit_nat_eq_self)
  then show "unat (min sz (ucast (mofs_max_file_bytes sb - word_of_int offset))) = min (unat sz) (1024 * bs - nat offset)"
    by (simp add: min_def word_le_nat_alt)
qed

lemma hruns_write_core:
  fixes E :: env
  defines "sb \<equiv> en_sb E" and "bs \<equiv> bsz E"
  assumes h: "i < length (en_files E)" "h = en_files E ! i" "n = fh_inode_num h" and n: "n \<in> L"
    and inv: "fs_inv sb V L N D" and ino: "ino = inode_in sb V n"
    and S: "unat (i_size ino) \<le> length (D n) * bs" and off: "offset < 2 ^ 63" and buf: "unat sz \<le> length buf"
  shows "hruns E V (mofs_write_core (Some i) (Some buf) sz offset upd) (\<lambda>E' V' r c. eq_off (file_area sb) V V' \<and> (c \<longrightarrow> (case r of
      Inl e \<Rightarrow> E' = E \<and> (case write_refusal E h ino sz offset of Some e' \<Rightarrow> e = e' \<and> V' = V
        | None \<Rightarrow> e = MOFS_ENOSPC \<and> fs_inv sb V' L N D \<and> same_files sb V V' L D)
    | Inr k \<Rightarrow> write_refusal E h ino sz offset = None \<and> unat k = min (unat sz) (1024 * bs - nat offset) \<and>
        E' = (if upd then E\<lparr>en_files := (en_files E)[i := h\<lparr>fh_file_offset := word_of_int (offset + int (unat k))\<rparr>]\<rparr> else E) \<and>
        write_post sb V V' L N D n (nat offset) (take (unat k) buf))))"
    (is "hruns E V _ ?P")
  unfolding mofs_write_core_def
proof (rule hruns_wf, intro hruns_gets_sb hruns_used_filehandle [OF h(1)], fold sb_def h(2), unfold prod.case option.case h(3) [symmetric], goal_cases)
  case (1 c)
  then show ?case by (simp add: write_refusal_def)
next
  case 2
  note lay = 2(1) and used = 2(3)
  have bsb: "bs = unat (sb_blk_size sb)" by (simp add: bs_def sb_def)
  have b: "512 \<le> bs" "bs \<le> 65536" using layout_blk_size [OF lay] by (simp_all add: bsb)
  show ?case
  proof (intro hruns_throw_if, goal_cases)
    case 3
    note args = 3
    have off0: "0 \<le> offset" using args by simp
    note lim = write_limit [OF lay bsb off0 off]
    show ?case
    proof (rule hruns_checked_inode [OF fs_invD(1) [OF inv n, unfolded sb_def] ino [unfolded sb_def]], unfold wanted_accmode may_access_accmode, goal_cases)
      case 5
      then have ok: "wanted (fh_open_flags h) \<noteq> None" by (auto simp: may_access_def split: option.splits)
      show ?case
        unfolding Let_def
      proof (intro hruns_throw_if, unfold lim(1), goal_cases)
        case (1 c)
        then show ?case using 5 ok used args by (auto simp: write_refusal_def bs_def)
      next
        case 2
        then have lt: "nat offset < 1024 * bs" by simp
        let ?W = "min sz (ucast (mofs_max_file_bytes sb - word_of_int offset))"
        note W = lim(2) [OF lt, of sz]
        have Wp: "0 < unat ?W" using W lt args by (simp add: unat_gt_0)
        then have ne: "?W \<noteq> 0" by auto
        have Wb: "unat ?W \<le> length buf" "nat offset + unat ?W \<le> 1024 * bs" using W buf lt by simp_all
        have none: "write_refusal E h ino sz offset = None" using 5 ok used args lt by (simp add: write_refusal_def bs_def)
        show ?case
          unfolding if_not_P [OF ne]
        proof (rule hruns_mono [OF hruns_write_tail [OF n h(3) inv [unfolded sb_def] ino [unfolded sb_def] refl S [unfolded bs_def] off0 refl Wp Wb [unfolded bs_def]
                refl refl refl, folded sb_def bs_def, unfolded Let_def]], goal_cases)
          case (1 E' V' r c)
          show ?case
          proof (cases r)
            case (Inl e)
            then show ?thesis using 1 none by simp
          next
            case (Inr k)
            have "unat k = min (unat sz) (1024 * bs - nat offset)" if c using 1 W Inr that by simp
            then show ?thesis using 1 none unfolding Inr sum.case by blast
          qed
        qed
      qed
    qed (use used args in \<open>auto simp: write_refusal_def may_access_def split: option.splits\<close>)
  qed (use used in \<open>auto simp: write_refusal_def\<close>)
qed

end
