(* ===== verification/Mofs_Truncate.thy ===== *)
theory Mofs_Truncate
  imports Mofs_Write_Core
begin

text \<open>
  Changing the size of a file, \<open>mofs_truncate_core\<close> of \<open>src/core/modules/mofs_file.c\<close>, in both
  directions: a shorter file loses its last blocks and the rest of its last block is cleared, a
  longer one gains blocks and zeros up to the new end. \<open>trunc_post\<close> is the effect of a success;
  \<open>truncate_refusal\<close> lists the refusals. A failure of the device at any point, in the rollback
  of a failed extension too, leaves lists on which the routines return.
\<close>

unbundle bit_operations_syntax

section \<open>Changes of the data blocks of one file\<close>

lemma fs_data_change:
  assumes lay: "layout_ok sb" and inv: "fs_safe sb V L N D" and n: "n \<in> L" and off: "eq_off (\<lambda>b. b \<in> set (D n)) V V'"
  shows "fs_safe sb V' L N D" and "same_files sb V V' (L - {n}) D" and "inode_in sb V' n = inode_in sb V n"
    and "fs_inv sb V L N D \<Longrightarrow> fs_inv sb V' L N D"
proof -
  note D = fs_safeD [OF inv]
  have blk: "data_blk sb x" if "x \<in> set (N m) \<or> x \<in> set (D m)" "m \<in> L" for x m using D(4) [OF that(2,1)] by simp
  have tab: "\<not> inode_table_own sb b" "\<not> data_bitmap_own sb b" if "b \<in> set (D n)" for b
    using data_blk_regions [OF lay blk [OF _ n]] that by blast+
  have used: "data_used sb V' k = data_used sb V k" if "k < unat (sb_data_blk_num sb)" for k
    by (rule data_used_off [OF lay off _ that]) (rule tab(2))
  then have u: "blk_used sb V' x = blk_used sb V x" if "data_blk sb x" for x using abs_to_data_idx_ok(3) [OF that] by blast
  have ino: "inode_in sb V' m = inode_in sb V m" if "m \<in> L" for m by (rule inode_in_off [OF lay D(1) [OF that] off tab(1)])
  then show "inode_in sb V' n = inode_in sb V n" using n by simp
  have nodes: "x \<notin> set (D n)" if "x \<in> set (N m)" "m \<in> L" for x m
    using D(2) [OF n] D(5) [OF that(2) n, of x] that by (cases "m = n") (auto simp: owned_def)
  have "owned sb V' m (N m) (D m)" if m: "m \<in> L" for m
    by (rule owned_off [OF lay D(1,2) [OF m] ino [OF m]])
      (use off nodes [OF _ m] D(4) [OF m] u in \<open>auto simp: eq_off_def\<close>)
  then show safe: "fs_safe sb V' L N D" using inv by (simp add: fs_safe_def)
  then show "fs_inv sb V' L N D" if "fs_inv sb V L N D" using that u by (simp add: fs_inv_def)
  have "V' x = V x" if "m \<in> L" "m \<noteq> n" "x \<in> set (D m)" for m x
    using D(5) [OF n that(1), of x] that off unfolding eq_off_def by blast
  then show "same_files sb V V' (L - {n}) D" unfolding same_files_def using ino by auto
qed

lemma runs_write_attempt:
  assumes "length src = bsz E" and "in_vol (en_sb E) b"
    and ok: "runs E (V(b := src)) (bind (gets dev_fd) (\<lambda>fd. f fd (Inr (1, 0)))) R"
    and bad: "\<And>r d. r \<noteq> Inr (1, 0) \<Longrightarrow> length d = bsz E \<Longrightarrow>
      runs E (V(b := d)) (bind (gets dev_fd) (\<lambda>fd. f fd r)) (\<lambda>V' r c. R V' r False)"
  shows "runs E V (bind (gets dev_fd) (\<lambda>fd. bind (attempt (write_continuous_blocks fd src 1 b)) (f fd))) R"
proof (rule runs_fd_bind [OF runs_fd_attempt [OF runs_write_one [OF assms(1,2)]]], goal_cases)
  case (1 V' e c)
  then show ?case by simp
next
  case (2 V' r)
  then obtain d where d: "length d = bsz E" "V' = V(b := d)" by auto
  show ?case
  proof (cases "r = Inr (1, 0)")
    case True
    then have "V' = V(b := src)" using 2 by simp
    then show ?thesis using ok True by (auto elim: runs_mono)
  next
    case False
    show ?thesis unfolding d(2) by (rule runs_mono [OF bad [OF False d(1)]]) (use False in auto)
  qed
qed

lemma runs_zero_tail:
  fixes E :: env
  defines "sb \<equiv> en_sb E" and "bs \<equiv> bsz E"
  assumes n: "inode_num_ok sb n" and own: "owned sb V n ns ds" and k: "unat k < length ds" and t: "unat t < bs"
  shows "runs E V (zero_partial_block_tail n k t) (\<lambda>V' r c. eq_off (\<lambda>b. b \<in> set ds) V V' \<and> (case r of Inl _ \<Rightarrow> \<not> c
    | Inr _ \<Rightarrow> V' = V(ds ! unat k := take (unat t) (V (ds ! unat k)) @ replicate (bs - unat t) 0)))"
    (is "runs E V _ ?P")
proof (rule runs_wf)
  assume lay: "layout_ok (en_sb E)" and wf: "wf_disk (en_sb E) V"
  let ?b = "ds ! unat k"
  have bs: "unat (sb_blk_size sb) = bs" by (simp add: sb_def bs_def)
  have mem: "?b \<in> set ds" using k by simp
  have fb: "file_blocks (en_sb E) V (inode_in (en_sb E) V n) ns ds" using own by (simp add: owned_def sb_def)
  note o = owned_lengths [OF lay wf own [unfolded sb_def] mem]
  have up: "eq_off (\<lambda>b. b \<in> set ds) V (V(?b := d))" for d by (rule eq_off_upd) (rule mem)
  have new: "overwrite (unat t) (replicate (bs - unat t) 0) (V ?b) = take (unat t) (V ?b) @ replicate (bs - unat t) 0"
    using o(1) t by (simp add: overwrite_def bs_def)
  have len: "length (overwrite (unat t) (replicate (bs - unat t) 0) (V ?b)) = bs" using o(1) t by (simp add: bs_def)
  show "runs E V (zero_partial_block_tail n k t) ?P"
    unfolding zero_partial_block_tail_def
  proof (intro runs_gets_sb, fold sb_def, unfold Let_def bs, intro runs_throw_if runs_with_malloc, goal_cases)
    case (1 c)
    then show ?case using t bs by (simp add: word_le_nat_alt)
  next
    case 2
    then show ?case by simp
  next
    case (3 buf)
    show ?case
    proof (rule runs_bind [OF runs_resolve [OF n [unfolded sb_def] fb]], unfold if_P [OF k], goal_cases)
      case (1 V' e c)
      then show ?case by simp
    next
      case (2 V' b)
      then have b: "V' = V" "b = ?b" by simp_all
      show ?case
        unfolding b
      proof (rule runs_read_attempt [OF 3(2) [unfolded bs_def] o(2)], goal_cases)
        case 1
        show ?case
          unfolding sum.case prod.case
        proof (rule subst [of False "(1 :: u32) \<noteq> 1 \<or> (0 :: u32) \<noteq> 0"], simp, unfold if_False,
            rule runs_write_attempt [OF len [unfolded bs_def] o(2), folded bs_def], goal_cases)
          case 1
          show ?case by (intro runs_any_world) (use up in \<open>auto simp: throw_if_def new intro!: runs_ret\<close>)
        next
          case (2 r d)
          then show ?case
            using up by (intro runs_any_world) (auto simp: throw_if_def intro!: runs_throw runs_ret split: sum.splits)
        qed
      next
        case (2 r)
        then show ?case by (intro runs_any_world) (auto simp: runs_throw split: sum.splits)
      qed
    qed
  qed
qed


section \<open>Zeros up to a new end\<close>

lemma zero_image_spec:
  fixes bs S T m :: nat
  assumes bs: "0 < bs" and T: "S < T" "T \<le> (S div bs + m) * bs" and X: "(S div bs + m) * bs \<le> length X"
    and p: "p = min m (blks_for bs S - S div bs)"
  defines "B \<equiv> overwrite 0 (chunk (S div bs * bs) (p * bs) X) (replicate (m * bs) 0)"
  shows "length (zero_gap (S div bs * bs) S T B) = m * bs"
    and "take T (overwrite (S div bs * bs) (zero_gap (S div bs * bs) S T B) X) = take S X @ replicate (T - S) 0"
proof -
  define a M where "a = S div bs * bs" and "M = m * bs"
  have aM: "a + M \<le> length X" "T \<le> a + M" using X T(2) by (simp_all add: a_def M_def add_mult_distrib)
  have aS: "a \<le> S" by (simp add: a_def)
  have pM: "p * bs \<le> M" unfolding M_def by (rule mult_le_mono1) (simp add: p)
  have B: "B = overwrite 0 (chunk a (p * bs) X) (replicate M 0)" by (simp add: B_def a_def M_def)
  have lB: "length B = M" and nB: "k < p * bs \<Longrightarrow> B ! k = X ! (a + k)" for k
    unfolding B using pM aM by (simp_all add: nth_overwrite nth_chunk)
  have old: "k < p * bs" if "a + k < S" for k
  proof -
    have "a + k < blks_for bs S * bs" using that blks_for_bound [OF bs, of S] by linarith
    then have "k < (blks_for bs S - S div bs) * bs" by (simp add: a_def diff_mult_distrib)
    moreover have "k < M" using that T(1) aM(2) by linarith
    ultimately show ?thesis by (simp add: p M_def min_def)
  qed
  have gap: "T - a \<le> length B" using lB aM(2) by simp
  have lG: "length (zero_gap a S T B) = M" using length_zero_gap [OF gap] lB by simp
  then show "length (zero_gap (S div bs * bs) S T B) = m * bs" by (simp add: a_def M_def)
  show "take T (overwrite (S div bs * bs) (zero_gap (S div bs * bs) S T B) X) = take S X @ replicate (T - S) 0"
    unfolding a_def [symmetric]
  proof (rule nth_equalityI, goal_cases)
    case 1
    show ?case using lG aM T(1) by simp
  next
    case (2 x)
    then have x: "x < T" "x < length X" using lG aM by simp_all
    have "overwrite a (zero_gap a S T B) X ! x = (if a \<le> x then zero_gap a S T B ! (x - a) else X ! x)"
      using x aM lG by (simp add: nth_overwrite)
    moreover have "zero_gap a S T B ! (x - a) = (if S \<le> x then 0 else X ! x)" if "a \<le> x"
      using nth_zero_gap [OF gap, of "x - a" S] x aM(2) lB that nB [of "x - a"] old [of "x - a"] by auto
    ultimately show ?case using x aS by (auto simp: nth_append)
  qed
qed

lemma runs_zero_range:
  fixes E :: env
  defines "sb \<equiv> en_sb E" and "bs \<equiv> bsz E"
  assumes n: "inode_num_ok sb n" and own: "owned sb V n ns ds" and max: "length ds \<le> 1024"
    and S: "S = unat (i_size (inode_in sb V n))" "from_off = i_size (inode_in sb V n)"
    and T: "T = unat to_off" "S < T" "T \<le> length ds * bs"
  shows "runs E V (zero_file_byte_range n from_off to_off) (\<lambda>V' r c. eq_off (\<lambda>b. b \<in> set ds) V V' \<and> (case r of Inl _ \<Rightarrow> \<not> c
    | Inr _ \<Rightarrow> c \<longrightarrow> file_bytes V' ds T = file_bytes V ds S @ replicate (T - S) 0))"
    (is "runs E V _ ?P")
proof (rule runs_wf)
  assume "layout_ok (en_sb E)" and "wf_disk (en_sb E) V"
  then have lay: "layout_ok sb" and wf: "wf_disk sb V" by (simp_all add: sb_def)
  define s m p X where "s = S div bs" and "m = (T - 1) div bs - s + 1" and "p = min m (blks_for bs S - s)" and "X = blocks_of V ds"
  have bsb: "bs = unat (sb_blk_size sb)" by (simp add: bs_def sb_def)
  have b: "512 \<le> bs" "bs \<le> 65536" using layout_blk_size [OF lay] by (simp_all add: bsb)
  have lens: "length (V x) = bs" if "x \<in> set ds" for x using owned_lengths(1) [OF lay wf own that] by (simp add: bsb)
  have lX: "length X = length ds * bs" unfolding X_def by (rule blocks_of_length [OF lens])
  have sm: "s \<le> (T - 1) div bs" unfolding s_def using T(2) by (intro div_le_mono) simp
  then have e: "s + m = (T - 1) div bs + 1" by (simp add: m_def)
  have "T - 1 < ((T - 1) div bs + 1) * bs" using b(1) by (simp add: dividend_less_div_times)
  then have Tb: "T \<le> (s + m) * bs" using T(2) unfolding e by linarith
  have "(T - 1) div bs < length ds" using T(2,3) by (intro less_mult_imp_div_less) simp
  then have fit: "s + m \<le> length ds" unfolding e by simp
  have m1: "m \<le> 1024" using fit max by simp
  have small: "T \<le> 1024 * 65536" using T(3) mult_le_mono [OF max b(2)] by simp
  have us: "unat (from_off div sb_blk_size sb) = s" by (simp add: unat_div S s_def bsb)
  have ut: "unat ((to_off - 1) div sb_blk_size sb) = (T - 1) div bs"
    using T(1,2) by (simp add: unat_div bsb unat_sub word_le_nat_alt)
  let ?st = "from_off div sb_blk_size sb" and ?req = "(to_off - 1) div sb_blk_size sb - from_off div sb_blk_size sb + 1"
  have d: "unat ((to_off - 1) div sb_blk_size sb - ?st) = (T - 1) div bs - s" using us ut sm by (simp add: unat_sub word_le_nat_alt)
  have ur: "unat ?req = m" using m1 by (simp add: unat_word_ariths(1) d m_def)
  have mb: "m * bs \<le> 1024 * 65536" by (rule mult_le_mono [OF m1 b(2)])
  then have ub: "unat (?req * sb_blk_size sb) = m * bs" by (simp only: unat_word_ariths(2) ur bsb [symmetric]) simp
  have ucur: "unat ((from_off + sb_blk_size sb - 1) div sb_blk_size sb) = blks_for bs S"
    using unat_blks_for [OF lay, of from_off] S small T(2) by (simp add: bsb)
  have pp: "p = min m (unat ((from_off + sb_blk_size sb - 1) div sb_blk_size sb) - unat ?st)" by (simp add: p_def ucur us)
  have mm: "m = min (unat ?req) (length ds - unat ?st)" using fit by (simp add: ur us)
  have r0: "?req \<noteq> 0" using ur unfolding m_def by auto
  have ne: "\<not> to_off \<le> from_off" using T(1,2) S by (simp add: word_le_nat_alt)
  let ?B = "overwrite 0 (chunk (s * bs) (p * bs) X) (replicate (m * bs) 0)"
  note img = zero_image_spec [OF _ T(2) Tb [unfolded s_def] _ p_def [unfolded s_def], of X, folded s_def]
  have fX: "(s + m) * bs \<le> length X" unfolding lX by (rule mult_le_mono1 [OF fit])
  have sub: "eq_off (\<lambda>b. b \<in> set ds) V V'" if "eq_off (\<lambda>b. b \<in> set (chunk s m ds)) V V'" for V'
    by (rule eq_off_mono [OF that]) (auto simp: chunk_def dest!: in_set_takeD in_set_dropD)
  have gt: "s < length ds" using fit by (simp add: m_def)
  show "runs E V (zero_file_byte_range n from_off to_off) ?P"
    unfolding zero_file_byte_range_def
  proof (intro runs_gets_sb, fold sb_def, unfold if_not_P [OF ne], rule runs_bind [OF runs_read_inode], fold sb_def,
      unfold if_P [OF n] Let_def, goal_cases)
    case (1 V' e c)
    then show ?case by simp
  next
    case (2 V1 i)
    then have V1: "V1 = V" and i: "i_size i = from_off" by (simp_all add: S)
    show ?case
      unfolding V1 i ub ur us
    proof (rule runs_with_malloc, goal_cases)
      case 1
      then show ?case by simp
    next
      case (2 tmp)
      show ?case
      proof (rule runs_bind [OF runs_zero_preload_loop [OF n [unfolded sb_def] own [unfolded sb_def] max _ pp [unfolded sb_def], folded sb_def bs_def]], goal_cases)
        case 1
        then show ?case using fit us by simp
      next
        case 2
        then show ?case using \<open>length tmp = m * bs\<close> by simp
      next
        case (3 V' e c)
        then show ?case by (simp add: load_post_def)
      next
        case (4 V1 B)
        then have V1: "V1 = V" and B: "B = ?B"
          using \<open>length tmp = m * bs\<close> by (simp_all add: load_post_def us X_def blocks_of_chunk [OF lens])
        show ?case
          unfolding V1 B bsb [symmetric] S(1) [folded S(2), symmetric] T(1) [symmetric]
        proof (rule runs_bind [OF runs_write_file [OF n [unfolded sb_def] own [unfolded sb_def] max r0 [unfolded sb_def] mm [unfolded sb_def], folded sb_def bs_def],
              unfolded us], goal_cases)
          case 1
          show ?case using img(1) b(1) fX by simp
        next
          case (2 V' e c)
          then show ?case using sub gt by auto
        next
          case (3 V' x)
          obtain k frac where x: "x = (k, frac)" by (cases x)
          have "file_bytes V' ds T = file_bytes V ds S @ replicate (T - S) 0"
            if "blocks_of V' ds = overwrite (s * bs) (take (m * bs) (zero_gap (s * bs) S T ?B)) (blocks_of V ds)"
            using img b(1) fX unfolding file_bytes_def that X_def [symmetric] by simp
          then show ?case using 3 sub by (intro runs_ret) (auto simp: x)
        qed
      qed
    qed
  qed
qed

section \<open>A new size\<close>

text \<open>The bytes of a file after a change of its size, and the volume with the resized file.\<close>

definition resized :: "nat \<Rightarrow> byte list \<Rightarrow> byte list" where
  "resized T xs = take T xs @ replicate (T - length xs) 0"

definition trunc_post ::
  "mofs_superblock \<Rightarrow> disk \<Rightarrow> disk \<Rightarrow> int set \<Rightarrow> (int \<Rightarrow> u32 list) \<Rightarrow> (int \<Rightarrow> u32 list) \<Rightarrow> int \<Rightarrow> nat \<Rightarrow> bool" where
  "trunc_post sb V V' L N D n T =
     (\<exists>ns ds a nr t.
        fs_inv sb V' L (N(n := ns)) (D(n := ds)) \<and> same_files sb V V' (L - {n}) D \<and>
        inode_in sb V' n = (inode_in sb V n)\<lparr>i_size := word_of_nat T, i_data_head := a, i_nr_blocks := nr, i_mtime := t, i_ctime := t\<rparr> \<and>
        file_bytes V' ds T = resized T (file_bytes V (D n) (unat (i_size (inode_in sb V n)))))"

lemma trunc_postI:
  assumes lay: "layout_ok sb" and wf: "wf_disk sb V2" and n: "n \<in> L" and inv: "fs_inv sb V2 L (N(n := ns)) (D(n := ds))"
    and same: "same_files sb V V2 (L - {n}) D"
    and ino: "inode_in sb V2 n = (inode_in sb V n)\<lparr>i_data_head := a, i_nr_blocks := nr\<rparr>"
    and V': "V' = put_inode sb n ((inode_in sb V2 n)\<lparr>i_size := word_of_nat T, i_mtime := t, i_ctime := t\<rparr>) V2"
    and new: "file_bytes V2 ds T = resized T (file_bytes V (D n) (unat (i_size (inode_in sb V n))))"
  shows "trunc_post sb V V' L N D n T"
proof -
  let ?D = "D(n := ds)"
  note w = fs_written [OF lay wf fs_inv_safe [OF inv] n eq_off_refl V']
  have "map V' ds = map V2 ds" using w(4) by simp
  then have "file_bytes V' ds T = file_bytes V2 ds T" by (simp only: file_bytes_def blocks_of_def)
  moreover have "same_files sb V V' (L - {n}) D" using same w(2) by (auto simp: same_files_def)
  moreover have "inode_in sb V' n = (inode_in sb V n)\<lparr>i_size := word_of_nat T, i_data_head := a, i_nr_blocks := nr, i_mtime := t, i_ctime := t\<rparr>"
    using w(3) by (simp add: ino)
  moreover have "fs_inv sb V' L (N(n := ns)) ?D" by (rule w(5) [OF _ _ inv]) simp_all
  ultimately show ?thesis using new unfolding trunc_post_def by metis
qed

lemma length_file_bytes: "(\<And>x. x \<in> set ds \<Longrightarrow> length (V x) = bs) \<Longrightarrow> S \<le> length ds * bs \<Longrightarrow> length (file_bytes V ds S) = S"
  by (simp add: file_bytes_def blocks_of_length)

lemma file_bytes_tail:
  assumes lens: "\<And>x. x \<in> set ds \<Longrightarrow> length (V x) = bs" and "distinct ds" and k: "k < length ds" and t: "t \<le> bs"
  shows "file_bytes (V(ds ! k := take t (V (ds ! k)) @ z)) ds (k * bs + t) = file_bytes V ds (k * bs + t)"
proof -
  let ?V = "V(ds ! k := take t (V (ds ! k)) @ z)"
  have ds: "ds = take k ds @ ds ! k # drop (Suc k) ds" using k by (rule id_take_nth_drop)
  have "ds ! k \<notin> set (take k ds)" using assms(2) unfolding ds [symmetric] by (metis ds distinct.simps(2) distinct_append disjoint_insert(1) list.simps(15) not_distinct_conv_prefix)
  then have pre: "map ?V (take k ds) = map V (take k ds)" by auto
  have "length (blocks_of V (take k ds)) = k * bs"
    using k lens by (subst blocks_of_length [where k = bs]) (auto dest: in_set_takeD)
  then have len: "length (concat (map V (take k ds))) = k * bs" by (simp add: blocks_of_def)
  have lk: "length (V (ds ! k)) = bs" using lens k by simp
  have "take (k * bs + t) (concat (map ?V (take k ds @ ds ! k # drop (Suc k) ds))) =
      take (k * bs + t) (concat (map V (take k ds @ ds ! k # drop (Suc k) ds)))"
    unfolding map_append pre using len lk t by simp
  then show ?thesis unfolding file_bytes_def blocks_of_def ds [symmetric] .
qed

lemma file_bytes_take:
  assumes "\<And>x. x \<in> set ds \<Longrightarrow> length (V x) = bs" and "T \<le> k * bs" and "k \<le> length ds"
  shows "file_bytes V (take k ds) T = file_bytes V ds T"
proof -
  have "blocks_of V (take k ds) = take (k * bs) (blocks_of V ds)"
    using blocks_of_chunk [of ds V bs 0 k] assms by (simp add: chunk_def)
  then show ?thesis using assms(2) by (simp add: file_bytes_def min_def)
qed


text \<open>The last step of both directions: the inode is stored with the new size and times.\<close>

lemma runs_new_size:
  fixes E :: env
  defines "sb \<equiv> en_sb E"
  assumes n: "inode_num_ok sb n" and i: "i = inode_in sb V n"
  shows "runs E V (bind (mofs_inode_stamp_now (i\<lparr>i_size := sz\<rparr>) (MOFS_INODE_TIME_MTIME OR MOFS_INODE_TIME_CTIME)) (\<lambda>inode. mofs_write_inode n inode))
    (\<lambda>V' r c. eq_off (file_area sb) V V' \<and> (case r of
         Inl _ \<Rightarrow> \<not> c \<and> (\<exists>j. V' = put_inode sb n j V \<and> i_data_head j = i_data_head i \<and> i_nr_blocks j = i_nr_blocks i)
       | Inr _ \<Rightarrow> \<exists>t. V' = put_inode sb n (i\<lparr>i_size := sz, i_mtime := t, i_ctime := t\<rparr>) V))"
proof (rule runs_wf, rule runs_mono [OF runs_stamp_write_torn [OF n [unfolded sb_def], folded sb_def]], fold sb_def, goal_cases)
  case (1 V' r c)
  have off: "eq_off (file_area sb) V (put_inode sb n j V)" for j
    by (rule eq_off_mono [OF it.put_off [OF 1(1) n]]) simp
  show ?case
  proof (cases r)
    case (Inl e)
    then obtain j t where "torn_inode (i\<lparr>i_size := sz, i_mtime := t, i_ctime := t\<rparr>) (inode_in sb V n) j" "V' = put_inode sb n j V" "\<not> c"
      using 1 by auto
    then show ?thesis using off torn_inode_list [of _ "inode_in sb V n" j] Inl i by fastforce
  qed (use 1 off in auto)
qed

lemma runs_clear_tail:
  fixes E :: env
  defines "sb \<equiv> en_sb E" and "bs \<equiv> bsz E"
  assumes n: "inode_num_ok sb n" and own: "owned sb V n ns ds" and T: "unat T \<le> length ds * bs" and keep: "unat keep = blks_for bs (unat T)"
  shows "runs E V (if 0 < T \<and> T mod sb_blk_size sb \<noteq> 0 \<and> 0 < keep then zero_partial_block_tail n (keep - 1) (T mod sb_blk_size sb) else ret ())
    (\<lambda>V' r c. eq_off (\<lambda>b. b \<in> set ds) V V' \<and> (case r of Inl _ \<Rightarrow> \<not> c
       | Inr _ \<Rightarrow> file_bytes V' ds (unat T) = file_bytes V ds (unat T)))"
proof (rule runs_wf, rule runs_if, goal_cases)
  case 1
  note lay = 1(1) [folded sb_def] and wf = 1(2) [folded sb_def]
  have bsb: "bs = unat (sb_blk_size sb)" by (simp add: bs_def sb_def)
  have b: "0 < bs" using layout_blk_size [OF lay] by (simp add: bsb)
  have tm: "unat (T mod sb_blk_size sb) = unat T mod bs" by (simp add: unat_mod bsb)
  then have nz: "unat T mod bs \<noteq> 0" using 1 by (simp add: word_unat_eq_iff)
  have k: "unat (keep - 1) = unat T div bs"
    using 1 keep nz by (simp add: unat_sub word_le_nat_alt word_less_nat_alt blks_for_div [OF b])
  have e: "unat T = unat (keep - 1) * bs + unat (T mod sb_blk_size sb)" by (simp add: k tm)
  have lt: "unat (keep - 1) < length ds"
    using blks_for_le [OF b T] nz unfolding k by (simp add: blks_for_div [OF b])
  have t: "unat (T mod sb_blk_size sb) < bs" using b by (simp add: tm)
  have lens: "length (V x) = bs" if "x \<in> set ds" for x using owned_lengths(1) [OF lay wf own that] by (simp add: bsb)
  show ?case
  proof (rule runs_mono [OF runs_zero_tail [OF n [unfolded sb_def] own [unfolded sb_def] lt t [unfolded bs_def], folded sb_def bs_def]], goal_cases)
    case (1 V' r c)
    show ?case
    proof (cases r)
      case (Inr u)
      then show ?thesis
        using 1 file_bytes_tail [of ds V bs, OF lens _ lt less_imp_le [OF t], folded e] own by (auto simp: owned_def)
    qed (use 1 in simp)
  qed
next
  case 2
  show ?case by (rule runs_ret) simp
qed

lemma runs_release_end:
  fixes E :: env
  defines "sb \<equiv> en_sb E"
  assumes inv: "fs_inv sb V L N D" and n: "n \<in> L" and ino: "ino = inode_in sb V n" and keep: "unat keep \<le> length (D n)"
  shows "runs E V (if keep < i_nr_blocks ino then free_data_block n keep (i_nr_blocks ino - keep) else ret ())
    (\<lambda>V' r c. eq_off (file_area sb) V V' \<and> (case r of
        Inl e \<Rightarrow> c \<longrightarrow> e = MOFS_ENOSPC \<and> fs_inv sb V' L N D \<and> same_files sb V V' (L - {n}) D \<and> inode_in sb V' n = ino
      | Inr _ \<Rightarrow> same_files sb V V' (L - {n}) D \<and> map V' (take (unat keep) (D n)) = map V (take (unat keep) (D n)) \<and>
          (\<exists>a ns nr. fs_safe sb V' L (N(n := ns)) (D(n := take (unat keep) (D n))) \<and>
             (c \<longrightarrow> fs_inv sb V' L (N(n := ns)) (D(n := take (unat keep) (D n)))) \<and>
             inode_in sb V' n = ino\<lparr>i_data_head := a, i_nr_blocks := nr\<rparr>)))"
proof -
  have len: "unat (i_nr_blocks ino) = length (D n)" using fs_invD(2) [OF inv n] by (simp add: owned_def file_blocks_def ino)
  show ?thesis
  proof (rule runs_if, goal_cases)
    case 1
    then have lt: "unat keep < length (D n)" by (simp add: word_less_nat_alt len)
    let ?q = "i_nr_blocks ino - keep"
    have q: "unat ?q = length (D n) - unat keep" using 1 len by (simp add: unat_sub word_le_nat_alt word_less_nat_alt)
    have small: "unat keep + unat ?q < 2 ^ 32" using q lt fs_invD(3) [OF inv n] by simp
    have ds: "take (unat keep) (D n) @ drop (unat keep + (length (D n) - unat keep)) (D n) = take (unat keep) (D n)" using lt by simp
    have f: "length (D n) - unat keep = min (unat ?q) (length (D n) - unat keep)" by (simp add: q)
    have c: "?q \<noteq> 0" "\<not> length (D n) \<le> unat keep" using q lt by (auto simp: word_unat_eq_iff)
    show ?case
    proof (rule runs_mono [OF runs_free_fs [OF inv [unfolded sb_def] n small f, folded sb_def, unfolded Let_def ds if_not_P [OF c(1)] if_not_P [OF c(2)]]], goal_cases)
      case (1 V' r c)
      then show ?case by (cases r) (auto simp: ino)
    qed
  next
    case 2
    then have k: "take (unat keep) (D n) = D n" using keep by (simp add: word_less_nat_alt len)
    have "\<exists>a ns nr. fs_safe sb V L (N(n := ns)) (D(n := D n)) \<and> (c \<longrightarrow> fs_inv sb V L (N(n := ns)) (D(n := D n))) \<and>
        inode_in sb V n = ino\<lparr>i_data_head := a, i_nr_blocks := nr\<rparr>" for c
      by (rule exI [of _ "i_data_head ino"], rule exI [of _ "N n"], rule exI [of _ "i_nr_blocks ino"])
        (use inv fs_inv_safe [OF inv] ino in simp)
    then show ?case
      unfolding k by (intro runs_ret) (simp add: same_files_def)
  qed
qed


lemma runs_shrink_inode:
  fixes E :: env
  defines "sb \<equiv> en_sb E" and "bs \<equiv> bsz E"
  assumes inv: "fs_inv sb V L N D" and n: "n \<in> L" and ino: "ino = inode_in sb V n"
    and S: "unat (i_size ino) \<le> length (D n) * bs" and T: "unat T < unat (i_size ino)"
  shows "runs E V (shrink_inode sb n ino T) (\<lambda>V' r c. eq_off (file_area sb) V V' \<and> (c \<longrightarrow> (case r of
      Inl e \<Rightarrow> e = MOFS_ENOSPC \<and> fs_inv sb V' L N D \<and> same_files sb V V' (L - {n}) D \<and> inode_in sb V' n = ino
    | Inr _ \<Rightarrow> trunc_post sb V V' L N D n (unat T))))"
    (is "runs E V _ ?P")
proof (rule runs_wf)
  assume "layout_ok (en_sb E)" and "wf_disk (en_sb E) V"
  then have lay: "layout_ok sb" and wf: "wf_disk sb V" by (simp_all add: sb_def)
  note f = fs_invD [OF inv n]
  have bsb: "bs = unat (sb_blk_size sb)" by (simp add: bs_def sb_def)
  have b: "512 \<le> bs" "bs \<le> 65536" using layout_blk_size [OF lay] by (simp_all add: bsb)
  define keep where "keep = (if T = 0 then 0 else (T + sb_blk_size sb - 1) div sb_blk_size sb)"
  have small: "unat (i_size ino) \<le> 1024 * 65536" using S mult_le_mono [OF f(3) b(2)] by simp
  have keep: "unat keep = blks_for bs (unat T)"
    using unat_blks_for [OF lay, of T] small T b by (auto simp: keep_def bsb blks_for_def)
  have Tl: "unat T \<le> length (D n) * bs" using S T by simp
  have kl: "unat keep \<le> length (D n)" unfolding keep by (rule blks_for_le [OF _ Tl]) (use b in simp)
  have Tk: "unat T \<le> unat keep * bs" unfolding keep by (rule blks_for_bound) (use b in simp)
  have lens: "length (V x) = bs" if "x \<in> set (D n)" for x using owned_lengths(1) [OF lay wf f(2) that] by (simp add: bsb)
  have new: "resized (unat T) (file_bytes V (D n) (unat (i_size ino))) = file_bytes V (D n) (unat T)"
    using length_file_bytes [OF lens S] T by (simp add: resized_def file_bytes_def min_def)
  show "runs E V (shrink_inode sb n ino T) ?P"
    unfolding shrink_inode_def Let_def keep_def [symmetric]
  proof (rule runs_bind [OF runs_keeps_wf [OF runs_clear_tail [OF f(1) [unfolded sb_def] f(2) [unfolded sb_def] Tl [unfolded bs_def] keep [unfolded bs_def],
          folded sb_def bs_def]], folded sb_def], goal_cases)
    case (1 V' e c)
    then show ?case using f(4) by (auto elim!: eq_off_mono)
  next
    case (2 V1 u)
    then have off1: "eq_off (\<lambda>b. b \<in> set (D n)) V V1" and fb1: "file_bytes V1 (D n) (unat T) = file_bytes V (D n) (unat T)"
      and wf1: "wf_disk sb V1" by simp_all
    note d1 = fs_data_change [OF lay fs_inv_safe [OF inv] n off1]
    note inv1 = d1(4) [OF inv]
    have area1: "eq_off (file_area sb) V V1" using off1 f(4) by (auto elim!: eq_off_mono)
    have lens1: "length (V1 x) = bs" if "x \<in> set (D n)" for x
      using owned_lengths(1) [OF lay wf1 fs_invD(2) [OF inv1 n] that] by (simp add: bsb)
    have ino1: "ino = inode_in sb V1 n" using d1(3) ino by simp
    have trans: "same_files sb V V' (L - {n}) D" if "same_files sb V1 V' (L - {n}) D" for V'
      using that d1(2) by (auto simp: same_files_def)
    show ?case
    proof (rule runs_bind [OF runs_keeps_wf [OF runs_release_end [OF inv1 [unfolded sb_def] n ino1 [unfolded sb_def] kl, folded sb_def]], folded sb_def], goal_cases)
      case (1 V' e c)
      then show ?case using eq_off_trans [OF area1] trans by auto
    next
      case (2 V2 u)
      then have area2: "eq_off (file_area sb) V V2" and wf2: "wf_disk sb V2" using eq_off_trans [OF area1] by auto
      have "map V2 (take (unat keep) (D n)) = map V1 (take (unat keep) (D n))" using 2 by simp
      then have "file_bytes V2 (take (unat keep) (D n)) (unat T) = file_bytes V1 (take (unat keep) (D n)) (unat T)"
        by (simp only: file_bytes_def blocks_of_def)
      also have "\<dots> = file_bytes V1 (D n) (unat T)" by (rule file_bytes_take [OF lens1 Tk kl])
      finally have fb2: "file_bytes V2 (take (unat keep) (D n)) (unat T) = resized (unat T) (file_bytes V (D n) (unat (i_size ino)))"
        by (simp only: fb1 new)
      show ?case
      proof (rule runs_bind [OF runs_read_inode], fold sb_def, unfold if_P [OF f(1)], goal_cases)
        case (1 V' e c)
        then show ?case using area2 by simp
      next
        case (2 V' i)
        then have V': "V' = V2" "i = inode_in sb V2 n" by simp_all
        show ?case
          unfolding V'
        proof (rule runs_mono [OF runs_new_size [OF f(1) [unfolded sb_def] refl, folded sb_def]], goal_cases)
          case (1 V3 r c)
          have area: "eq_off (file_area sb) V V3" using 1 eq_off_trans [OF area2] by blast
          have "trunc_post sb V V3 L N D n (unat T)"
            if r: "r = Inr u" and s2: "same_files sb V1 V2 (L - {n}) D" and i2: "fs_inv sb V2 L (N(n := ns)) (D(n := take (unat keep) (D n)))"
              and h2: "inode_in sb V2 n = ino\<lparr>i_data_head := a, i_nr_blocks := nr\<rparr>" for u a ns nr
          proof -
            obtain t where t: "V3 = put_inode sb n ((inode_in sb V2 n)\<lparr>i_size := T, i_mtime := t, i_ctime := t\<rparr>) V2" using 1 r by auto
            show ?thesis
              by (rule trunc_postI [OF lay wf2 n i2 trans [OF s2] h2 [unfolded ino]]) (use t fb2 ino in simp_all)
          qed
          then show ?case using 1 area by (cases r) auto
        qed
      qed
    qed
  qed
qed


lemma runs_grow_finish:
  fixes E :: env
  defines "sb \<equiv> en_sb E" and "bs \<equiv> bsz E"
  assumes safe: "fs_safe sb V L N D" and n: "n \<in> L" and S: "S = unat (i_size (inode_in sb V n))" "old = i_size (inode_in sb V n)"
    and T: "S < unat T" "unat T \<le> length (D n) * bs"
  shows "runs E V (bind (zero_file_byte_range n old T) (\<lambda>_.
      bind (mofs_inode_stamp_now ((inode_in sb V n)\<lparr>i_size := T\<rparr>) (MOFS_INODE_TIME_MTIME OR MOFS_INODE_TIME_CTIME)) (\<lambda>inode. mofs_write_inode n inode)))
    (\<lambda>V' r c. eq_off (file_area sb) V V' \<and> (case r of Inl _ \<Rightarrow> \<not> c \<and> fs_safe sb V' L N D | Inr _ \<Rightarrow>
       c \<longrightarrow> (\<forall>N. fs_inv sb V L N D \<longrightarrow> trunc_post sb V V' L N D n (unat T))))"
proof (rule runs_wf)
  assume "layout_ok (en_sb E)" and "wf_disk (en_sb E) V"
  then have lay: "layout_ok sb" and wf: "wf_disk sb V" by (simp_all add: sb_def)
  note f = fs_safeD [OF safe n]
  have lens: "length (V x) = bs" if "x \<in> set (D n)" for x
    using owned_lengths(1) [OF lay wf f(2) that] by (simp add: bs_def sb_def)
  have new: "file_bytes V (D n) S @ replicate (unat T - S) 0 = resized (unat T) (file_bytes V (D n) S)"
    using length_file_bytes [of "D n" V bs S, OF lens] T by (simp add: resized_def)
  show ?thesis
  proof (rule runs_bind [OF runs_keeps_wf [OF runs_zero_range [OF f(1) [unfolded sb_def] f(2) [unfolded sb_def] f(3) S [unfolded sb_def] refl T [unfolded bs_def],
          folded sb_def bs_def]], folded sb_def], goal_cases)
    case (1 V' e c)
    then show ?case using f(4) fs_data_change(1) [OF lay safe n, of V'] by (auto elim!: eq_off_mono)
  next
    case (2 V1 u)
    then have off1: "eq_off (\<lambda>b. b \<in> set (D n)) V V1" and wf1: "wf_disk sb V1" by simp_all
    note d1 = fs_data_change [OF lay safe n off1]
    have area1: "eq_off (file_area sb) V V1" using off1 f(4) by (auto elim!: eq_off_mono)
    show ?case
    proof (rule runs_mono [OF runs_new_size [OF f(1) [unfolded sb_def] d1(3) [symmetric, unfolded sb_def], folded sb_def]], goal_cases)
      case (1 V3 r c)
      have area: "eq_off (file_area sb) V V3" using 1 eq_off_trans [OF area1] by blast
      have "trunc_post sb V V3 L N D n (unat T)"
        if r: "r = Inr u" and fb: "file_bytes V1 (D n) (unat T) = file_bytes V (D n) S @ replicate (unat T - S) 0" and inv: "fs_inv sb V L N D" for u N
      proof -
        note d1 = fs_data_change [OF lay fs_inv_safe [OF inv] n off1]
        obtain t where t: "V3 = put_inode sb n ((inode_in sb V n)\<lparr>i_size := T, i_mtime := t, i_ctime := t\<rparr>) V1" using 1 r by auto
        show ?thesis
          by (rule trunc_postI [OF lay wf1 n, where ns = "N n" and ds = "D n" and a = "i_data_head (inode_in sb V n)" and nr = "i_nr_blocks (inode_in sb V n)" and t = t])
            (use t fb new S d1(2,3) d1(4) [OF inv] in simp_all)
      qed
      moreover have "fs_safe sb V3 L N D" if "V3 = put_inode sb n j V1"
        "i_data_head j = i_data_head (inode_in sb V n)" "i_nr_blocks j = i_nr_blocks (inode_in sb V n)" for j
        by (rule fs_written(1) [OF lay wf1 d1(1) n eq_off_refl that(1)]) (use that d1(3) in simp_all)
      ultimately show ?case using 1 area by (cases r) auto
    qed
  qed
qed


lemma trunc_post_trans:
  assumes post: "trunc_post sb V1 V' L (N(n := ns)) (D(n := D n @ xs)) n T" and same: "same_files sb V V1 (L - {n}) D"
    and m: "map V1 (D n @ xs) = map V (D n @ xs)"
    and ino: "inode_in sb V1 n = (inode_in sb V n)\<lparr>i_data_head := a, i_nr_blocks := nr\<rparr>"
    and lens: "\<And>x. x \<in> set (D n) \<Longrightarrow> length (V x) = bs" and S: "unat (i_size (inode_in sb V n)) \<le> length (D n) * bs"
  shows "trunc_post sb V V' L N D n T"
proof -
  let ?S = "unat (i_size (inode_in sb V n))"
  have "file_bytes V1 (D n @ xs) ?S = file_bytes V (D n @ xs) ?S" unfolding file_bytes_def blocks_of_def m ..
  also have "\<dots> = file_bytes V (D n) ?S" using S blocks_of_length [OF lens] by (simp add: file_bytes_def blocks_of_append)
  finally have "file_bytes V1 (D n @ xs) ?S = file_bytes V (D n) ?S" .
  then show ?thesis
    using post same unfolding trunc_post_def by (fastforce simp: ino same_files_def)
qed

lemma runs_grow_inode:
  fixes E :: env
  defines "sb \<equiv> en_sb E" and "bs \<equiv> bsz E"
  assumes inv: "fs_inv sb V L N D" and n: "n \<in> L" and ino: "ino = inode_in sb V n"
    and S: "unat (i_size ino) \<le> length (D n) * bs" and T: "unat (i_size ino) < unat T" "unat T \<le> 1024 * bs"
  shows "runs E V (grow_inode sb n ino T) (\<lambda>V' r c. eq_off (file_area sb) V V' \<and> (c \<longrightarrow> (case r of
      Inl e \<Rightarrow> e = MOFS_ENOSPC \<and> fs_inv sb V' L N D \<and> same_files sb V V' L D
    | Inr _ \<Rightarrow> trunc_post sb V V' L N D n (unat T))))"
    (is "runs E V _ ?P")
proof (rule runs_wf)
  assume "layout_ok (en_sb E)" and "wf_disk (en_sb E) V"
  then have lay: "layout_ok sb" and wf: "wf_disk sb V" by (simp_all add: sb_def)
  note f = fs_invD [OF inv n]
  have bsb: "bs = unat (sb_blk_size sb)" by (simp add: bs_def sb_def)
  have b: "512 \<le> bs" "bs \<le> 65536" using layout_blk_size [OF lay] by (simp_all add: bsb)
  have len: "unat (i_nr_blocks ino) = length (D n)" using f(2) by (simp add: owned_def file_blocks_def ino)
  let ?need = "(T + sb_blk_size sb - 1) div sb_blk_size sb"
  have "unat T \<le> 1024 * 65536" using T(2) b(2) by simp
  then have need: "unat ?need = blks_for bs (unat T)" using unat_blks_for [OF lay, of T] by (simp add: bsb)
  have n1: "blks_for bs (unat T) \<le> 1024" by (rule blks_for_le [OF _ T(2)]) (use b in simp)
  have nb: "unat T \<le> blks_for bs (unat T) * bs" by (rule blks_for_bound) (use b in simp)
  have lens: "length (V x) = bs" if "x \<in> set (D n)" for x using owned_lengths(1) [OF lay wf f(2) that] by (simp add: bsb)
  show "runs E V (grow_inode sb n ino T) ?P"
    unfolding grow_inode_def Let_def
  proof (rule runs_if, goal_cases)
    case 1
    then have lt: "length (D n) < blks_for bs (unat T)" by (simp add: word_less_nat_alt len need)
    let ?q = "?need - i_nr_blocks ino"
    have q: "unat ?q = blks_for bs (unat T) - length (D n)" using 1 by (simp add: unat_sub word_le_nat_alt word_less_nat_alt len need)
    have q1: "length (D n) + unat ?q < 2 ^ 32" and q2: "unat (i_nr_blocks ino) + unat ?q < 2 ^ 32" using q n1 lt by (simp_all add: len)
    show ?case
    proof (rule runs_bind [OF runs_keeps_wf [OF runs_allocate_fs [OF inv [unfolded sb_def] n q1, folded sb_def]], folded sb_def], goal_cases)
      case (1 V' e c)
      then show ?case by simp
    next
      case (2 V1 x)
      define ff where "ff = first_free sb V (unat ?q)"
      let ?D = "D(n := D n @ ff)"
      obtain a ns where A: "length ff = unat ?q" "same_files sb V V1 (L - {n}) D" "map V1 (D n @ ff) = map V (D n @ ff)"
        "fs_safe sb V1 L (N(n := ns)) ?D" "wf_disk sb V1" "eq_off (file_area sb) V V1"
        and ino1: "inode_in sb V1 n = ino\<lparr>i_data_head := a, i_nr_blocks := i_nr_blocks ino + ?q\<rparr>"
        using 2 by (auto simp: Let_def ino ff_def)
      have ds1: "unat T \<le> length (?D n) * bs" using nb A(1) q lt by simp
      have S1: "unat (i_size ino) = unat (i_size (inode_in sb V1 n))" "i_size ino = i_size (inode_in sb V1 n)" by (simp_all add: ino1)
      note fin = runs_grow_finish [OF A(4) [unfolded sb_def] n S1 [unfolded sb_def] T(1) ds1 [unfolded bs_def], folded sb_def bs_def]
      have body: "runs E V1 (bind (mofs_read_inode n) (\<lambda>inode. bind (zero_file_byte_range n (i_size ino) T) (\<lambda>_.
          bind (mofs_inode_stamp_now (inode\<lparr>i_size := T\<rparr>) (MOFS_INODE_TIME_MTIME OR MOFS_INODE_TIME_CTIME)) (\<lambda>inode. mofs_write_inode n inode))))
        (\<lambda>V' r c. eq_off (file_area sb) V1 V' \<and> (case r of Inl _ \<Rightarrow> \<not> c \<and> fs_safe sb V' L (N(n := ns)) ?D | Inr _ \<Rightarrow>
           c \<longrightarrow> (\<forall>N. fs_inv sb V1 L N ?D \<longrightarrow> trunc_post sb V1 V' L N ?D n (unat T))))"
        by (rule runs_bind [OF runs_read_inode]) (use f(1) A(4) fin in \<open>auto simp: sb_def elim!: runs_mono\<close>)
      show ?case
      proof (rule runs_on_error [OF body], goal_cases)
        case (1 V' u c)
        have "trunc_post sb V V' L N D n (unat T)" if "fs_inv sb V1 L (N(n := ns')) ?D" "c" for ns'
          by (rule trunc_post_trans [OF _ A(2,3) ino1 [unfolded ino] lens S [unfolded ino], of V' N ns']) (use 1 that in auto)
        then show ?case using 1 eq_off_trans [OF A(6)] unfolding Let_def ff_def [symmetric] by auto
      next
        case (2 V' e)
        then have safe: "fs_safe sb V' L (N(n := ns)) ?D" and area: "eq_off (file_area sb) V V'" using eq_off_trans [OF A(6)] by auto
        note g = fs_safeD [OF safe n, unfolded fun_upd_same]
        show ?case
          by (rule runs_mono [OF runs_undo_free [OF g(1) [unfolded sb_def] g(2) [unfolded sb_def] g(3) q2, folded sb_def]])
            (use area in \<open>auto intro: eq_off_trans\<close>)
      qed
    qed
  next
    case 2
    then have "blks_for bs (unat T) \<le> length (D n)" by (simp add: word_less_nat_alt len need)
    then have Tl: "unat T \<le> length (D n) * bs" using nb mult_le_mono1 order.trans by blast
    show ?case
      unfolding ino
      by (rule runs_mono [OF runs_grow_finish [OF fs_inv_safe [OF inv, unfolded sb_def] n refl refl T(1) [unfolded ino sb_def] Tl [unfolded bs_def], folded sb_def]])
        (use inv in \<open>auto split: sum.splits\<close>)
  qed
qed


section \<open>Truncation\<close>

text \<open>The error a change of the size is refused with, if any.\<close>

definition truncate_refusal :: "env \<Rightarrow> mofs_inode \<Rightarrow> int \<Rightarrow> mofs_error option" where
  "truncate_refusal E ino len =
     (if len < 0 then Some MOFS_EINVAL
      else if 1024 * bsz E < nat len then Some MOFS_EFBIG
      else if mode_has ino MOFS_FTYPE_DIR then Some MOFS_EISDIR
      else if \<not> may_access E MOFS_OFLAG_WRONLY ino then Some MOFS_EACCES
      else None)"

lemma wanted_wronly: "wanted MOFS_OFLAG_WRONLY = Some (False, True, False)"
  by (simp add: wanted_def flag_defs Let_def)

lemma truncate_limit:
  assumes lay: "layout_ok sb" and len: "0 \<le> len" "len < 2 ^ 63"
  shows "mofs_max_file_bytes sb < word_of_int len \<longleftrightarrow> 1024 * unat (sb_blk_size sb) < nat len"
    and "nat len \<le> 1024 * unat (sb_blk_size sb) \<Longrightarrow> unat (word_of_int len :: u32) = nat len"
proof -
  have b: "512 \<le> unat (sb_blk_size sb)" "unat (sb_blk_size sb) \<le> 65536" using layout_blk_size [OF lay] by simp_all
  have M: "unat (mofs_max_file_bytes sb) = 1024 * unat (sb_blk_size sb)"
    using b by (simp add: mofs_max_file_bytes_def mofs_consts unat_word_ariths unsigned_ucast_eq take_bit_nat_eq_self)
  have o: "unat (word_of_int len :: u64) = nat len"
    using len by (simp add: unat_eq_nat_uint uint_word_of_int_eq take_bit_int_eq_self)
  show "mofs_max_file_bytes sb < word_of_int len \<longleftrightarrow> 1024 * unat (sb_blk_size sb) < nat len"
    by (simp add: word_less_nat_alt M o)
  assume "nat len \<le> 1024 * unat (sb_blk_size sb)"
  then have "nat len < 2 ^ 32" using b(2) by simp
  then have "unat (word_of_nat (nat len) :: u32) = nat len" by (rule unat_word_of_nat)
  then show "unat (word_of_int len :: u32) = nat len" using len(1) by simp
qed

lemma runs_truncate_core:
  fixes E :: env
  defines "sb \<equiv> en_sb E" and "bs \<equiv> bsz E"
  assumes inv: "fs_inv sb V L N D" and n: "n \<in> L" and ino: "ino = inode_in sb V n"
    and S: "unat (i_size ino) \<le> length (D n) * bs" and len: "len < 2 ^ 63"
  shows "runs E V (mofs_truncate_core n len) (\<lambda>V' r c. eq_off (file_area sb) V V' \<and> (c \<longrightarrow> (case r of
      Inl e \<Rightarrow> (case truncate_refusal E ino len of Some e' \<Rightarrow> e = e' \<and> V' = V
        | None \<Rightarrow> e = MOFS_ENOSPC \<and> fs_inv sb V' L N D \<and> same_files sb V V' (L - {n}) D \<and> inode_in sb V' n = ino \<and>
            (unat (i_size ino) < nat len \<longrightarrow> same_files sb V V' L D))
    | Inr _ \<Rightarrow> truncate_refusal E ino len = None \<and>
        (if nat len = unat (i_size ino) then V' = V else trunc_post sb V V' L N D n (nat len)))))"
    (is "runs E V _ ?P")
  unfolding mofs_truncate_core_def
proof (rule runs_wf, intro runs_gets_sb runs_throw_if, fold sb_def, goal_cases)
  case (1 c)
  then show ?case using fs_invD(1) [OF inv n] by (simp add: inode_num_ok_def)
next
  case (2 c)
  then show ?case by (simp add: truncate_refusal_def)
next
  case (3 c)
  then show ?case using truncate_limit(1) [OF 3(1) _ len] by (simp add: truncate_refusal_def sb_def)
next
  case 4
  note lay = 4(1)
  have bsb: "unat (sb_blk_size sb) = bs" by (simp add: bs_def sb_def)
  have len0: "0 \<le> len" and max: "nat len \<le> 1024 * bs" using 4 truncate_limit(1) [OF lay _ len] by (auto simp: bsb)
  have ul: "unat (word_of_int len :: u32) = nat len" using truncate_limit(2) [OF lay len0 len] max by (simp add: bsb)
  have nf: "\<not> 1024 * bsz E < nat len" using max by (simp add: bs_def)
  show ?case
    unfolding truncate_inode_def
  proof (intro runs_gets_sb, fold sb_def, rule runs_bind [OF runs_read_inode], fold sb_def, unfold if_P [OF fs_invD(1) [OF inv n]], goal_cases)
    case (1 V' e c)
    then show ?case by simp
  next
    case (2 V1 i)
    then have V1: "V1 = V" "i = ino" by (simp_all add: ino)
    show ?case
      unfolding V1
    proof (intro runs_throw_if, goal_cases)
      case (1 c)
      then show ?case using len0 nf by (auto simp: truncate_refusal_def)
    next
      case 2
      note dir = 2
      show ?case
      proof (rule runs_bind [OF runs_require_caller], goal_cases)
        case (1 V' e c)
        then show ?case by simp
      next
        case (2 V1 u)
        then have u: "V1 = V" "u = caller_of E" by simp_all
        show ?case
          unfolding u
        proof (rule runs_bind [OF runs_check_open], unfold wanted_wronly, goal_cases)
          case (1 V' e c)
          then show ?case using len0 nf dir by (auto simp: truncate_refusal_def)
        next
          case (2 V1 x)
          then have V1: "V1 = V" and may: "may_access E MOFS_OFLAG_WRONLY ino" by simp_all
          have none: "truncate_refusal E ino len = None" using len0 nf dir may by (simp add: truncate_refusal_def)
          show ?case
            unfolding V1
          proof (intro runs_if, goal_cases)
            case 1
            then show ?case using none ul by (intro runs_ret) auto
          next
            case 2
            then have lt: "unat (word_of_int len :: u32) < unat (i_size ino)" by (simp add: word_less_nat_alt)
            then show ?case
              using none ul
              by (intro runs_mono [OF runs_shrink_inode [OF inv [unfolded sb_def] n ino [unfolded sb_def] S [unfolded bs_def] lt, folded sb_def]])
                (auto split: sum.splits)
          next
            case 3
            then have lt: "unat (i_size ino) < unat (word_of_int len :: u32)" by (metis linorder_neqE word_less_nat_alt)
            have mx: "unat (word_of_int len :: u32) \<le> 1024 * bsz E" using ul max by (simp add: bs_def)
            show ?case
              using none ul n ino lt
              by (intro runs_mono [OF runs_grow_inode [OF inv [unfolded sb_def] n ino [unfolded sb_def] S [unfolded bs_def] lt mx, folded sb_def]])
                (auto simp: same_files_def split: sum.splits)
          qed
        qed
      qed
    qed
  qed
qed

end
