(* ===== verification/Mofs_Props_File.thy ===== *)
theory Mofs_Props_File
  imports Mofs_Props_Fs Mofs_Truncate
begin

text \<open>
  Properties of the file routines: the permission check, reading, writing and changing the size of
  a file, against the content of the file as a sequence of bytes. The samples use the volume of
  \<open>Mofs_Demo\<close> with the file \<open>a\<close> open at the first handle.
\<close>

unbundle bit_operations_syntax

text \<open>An open handle \<open>i\<close> of a file with inode number \<open>n\<close>, on a volume that satisfies the allocation
  invariant; the file has blocks for all its bytes.\<close>

definition open_file :: "world \<Rightarrow> nat \<Rightarrow> int \<Rightarrow> int set \<Rightarrow> (int \<Rightarrow> u32 list) \<Rightarrow> (int \<Rightarrow> u32 list) \<Rightarrow> bool" where
  "open_file w i n L N D = (fs_ok w \<and> fs_inv (sp_blk w) (vol w) L N D \<and> i < length (w_files w) \<and>
     n = fh_inode_num (w_files w ! i) \<and> n \<in> L \<and>
     unat (i_size (inode_in (sp_blk w) (vol w) n)) \<le> length (D n) * blksz w)"

text \<open>The bytes of a file.\<close>

definition content :: "world \<Rightarrow> (int \<Rightarrow> u32 list) \<Rightarrow> int \<Rightarrow> byte list" where
  "content w D n = file_bytes (vol w) (D n) (unat (i_size (inode_in (sp_blk w) (vol w) n)))"

definition sample_open :: "u32 \<Rightarrow> world" where
  "sample_open flags = sample_world\<lparr>w_files := (w_files sample_world)[0 :=
     \<lparr>fh_used = True, fh_inode_num = 3, fh_file_offset = 0, fh_open_flags = flags\<rparr>]\<rparr>"

lemma sample_open_store: "same_store sample_world (sample_open flags)"
  by (simp add: sample_open_def same_store_def)

lemma sample_open_simps [simp]:
  "sp_blk (sample_open f) = demo_sb" "vol (sample_open f) = vol sample_world" "w_user (sample_open f) = demo_user"
  "w_os (sample_open f) = demo_os"
  "w_files (sample_open f) ! 0 = \<lparr>fh_used = True, fh_inode_num = 3, fh_file_offset = 0, fh_open_flags = f\<rparr>"
  using vol_store [OF sample_open_store]
  by (simp_all add: sample_open_def demo_on_def mofs_consts) (simp add: demo_ctx_def)

lemma sample_open_file: "open_file (sample_open f) 0 3 {2, 3} sample_nodes sample_blocks"
  using sample_world_fs fs_ok_store [OF sample_open_store sample_world_fs(1)]
  by (simp add: open_file_def sample_inodes sample_file_def sample_blocks_def)
    (simp add: sample_open_def demo_on_def mofs_consts)

lemma sample_bytes: "file_bytes (vol sample_world) [7, 8] 600 = replicate 512 65 @ replicate 88 66"
  by (simp add: file_bytes_def blocks_of_def sample_vol sample_def)

lemma sample_root_access:
  "may_access (env_of (sample_open f)) f sample_file" if "wanted f = Some (a, b, False)"
  using that by (simp add: may_access_def granted_def caller_of_def env_of_def demo_user_def demo_os_def
      perm_class_def sample_file_def zero_inode_def)

lemma env_files [simp]: "en_files (env_of w) = w_files w" "en_files (E\<lparr>en_files := fs\<rparr>) = fs"
  by (simp_all add: env_of_def)

lemma open_fileD:
  assumes "open_file w i n L N D"
  shows "fs_ok w" and "fs_inv (en_sb (env_of w)) (vol w) L N D" and "i < length (en_files (env_of w))"
    and "w_files w ! i = en_files (env_of w) ! i" and "n = fh_inode_num (w_files w ! i)" and "n \<in> L"
    and "unat (i_size (inode_in (en_sb (env_of w)) (vol w) n)) \<le> length (D n) * bsz (env_of w)"
  using assms unfolding open_file_def by (auto simp: env_sb)

text \<open>Type, permissions and owner of a file.\<close>

definition same_access :: "mofs_inode \<Rightarrow> mofs_inode \<Rightarrow> bool" where
  "same_access i j = (i_mode j = i_mode i \<and> i_uid j = i_uid i \<and> i_gid j = i_gid i)"

section \<open>Access\<close>

text \<open>C12. The permission check of an open, of a read and of a write, written with masks on the mode, decides
  the UNIX permission: of the three classes of the mode the first that applies to the caller
  (owner, group including supplementary groups, others) must grant every right that the access
  flags ask for. It changes nothing, and answers EACCES exactly when a right is missing and EINVAL
  for flags that name no kind of access.\<close>

theorem permission_check_is_unix:
  assumes "fs_ok w"
  shows "wp (mofs_check_open_permission flags (caller_of (env_of w)) ino) (\<lambda>r w'. fs_ok w' \<and> io_frame w w' \<and> vol w' = vol w \<and>
      (case wanted flags of None \<Rightarrow> r = Inl MOFS_EINVAL
       | Some rights \<Rightarrow> (r = Inr () \<longrightarrow> granted (caller_of (env_of w)) ino rights) \<and>
           (calm w w' \<longrightarrow> r = (if granted (caller_of (env_of w)) ino rights then Inr () else Inl MOFS_EACCES)))) w"
  by (rule wp_mono [OF runsD [OF runs_check_open assms refl refl]])
    (auto simp: may_access_def split: option.splits sum.splits)

theorem permission_check_is_unix_witness:
  "wp (mofs_check_open_permission MOFS_OFLAG_RDONLY (caller_of (env_of sample_world)) sample_file)
     (\<lambda>r w'. vol w' = vol sample_world \<and> (calm sample_world w' \<longrightarrow> r = Inr ())) sample_world"
proof -
  have "wanted MOFS_OFLAG_RDONLY = Some (True, False, False)" by (simp add: wanted_def flag_defs Let_def)
  moreover have "granted (caller_of (env_of sample_world)) sample_file (True, False, False)"
    by (simp add: granted_def caller_of_def env_of_def demo_on_def demo_user_def perm_class_def sample_file_def zero_inode_def)
  ultimately show ?thesis
    using permission_check_is_unix [OF sample_world_fs(1), of MOFS_OFLAG_RDONLY sample_file] by (auto elim!: wp_mono)
qed

section \<open>Reading\<close>



section \<open>Writing\<close>

lemma write_post_content:
  assumes post: "write_post sb V V' L N D n off data" and inv: "fs_inv sb V L N D" and n: "n \<in> L"
    and lay: "layout_ok sb" and wf: "wf_disk sb V" "wf_disk sb V'"
    and S: "S = unat (i_size (inode_in sb V n))" "S \<le> length (D n) * unat (sb_blk_size sb)"
    and small: "off + length data \<le> 1024 * unat (sb_blk_size sb)"
  shows "\<exists>ns ds gap. fs_inv sb V' L (N(n := ns)) (D(n := ds)) \<and> same_files sb V V' (L - {n}) D \<and>
    unat (i_size (inode_in sb V' n)) = max S (off + length data) \<and> max S (off + length data) \<le> length ds * unat (sb_blk_size sb) \<and>
    same_access (inode_in sb V n) (inode_in sb V' n) \<and> length gap = off - S \<and> (off div unat (sb_blk_size sb) * unat (sb_blk_size sb) \<le> S \<longrightarrow> gap = replicate (off - S) 0) \<and>
    file_bytes V' ds (max S (off + length data)) = overwrite off data (file_bytes V (D n) S @ gap)"
proof -
  let ?bs = "unat (sb_blk_size sb)" and ?T = "max S (off + length data)"
  have b: "512 \<le> ?bs" "?bs \<le> 65536" using layout_blk_size [OF lay] by simp_all
  obtain ns xs a nr t where p: "fs_inv sb V' L (N(n := ns)) (D(n := D n @ xs))" "same_files sb V V' (L - {n}) D"
    "inode_in sb V' n = (inode_in sb V n)\<lparr>i_size := word_of_nat ?T, i_data_head := a, i_nr_blocks := nr, i_mtime := t, i_ctime := t\<rparr>"
    "?T \<le> length (D n @ xs) * ?bs" "file_bytes V' (D n @ xs) ?T = written ?bs S off data (blocks_of V (D n @ xs))"
    using post unfolding write_post_def Let_def S(1) by blast
  have "length (D n) * ?bs \<le> 1024 * ?bs" using fs_invD(3) [OF inv n] by (rule mult_le_mono1)
  then have "?T \<le> 1024 * ?bs" using S(2) small by linarith
  then have "?T < 2 ^ 32" using b(2) by simp
  then have sz: "unat (i_size (inode_in sb V' n)) = ?T" unfolding p(3) by (simp add: unat_word_of_nat del: of_nat_max)
  have lens: "length (V x) = ?bs" if "x \<in> set (D n @ xs)" for x
    using wf_diskD [OF wf(1) data_blk_vol] fs_invD(4) [OF p(1) n, of x] that by auto
  have lX: "length (blocks_of V (D n @ xs)) = length (D n @ xs) * ?bs" by (rule blocks_of_length [OF lens])
  let ?X = "blocks_of V (D n @ xs)"
  have tX: "take S ?X = file_bytes V (D n) S"
    using S(2) blocks_of_length [of "D n" V ?bs] lens by (simp add: file_bytes_def blocks_of_append)
  have T: "?T \<le> length ?X" using p(4) lX by simp
  have "length (gap_bytes ?bs S off ?X) = off - S" by (rule length_gap_bytes) (use T in simp)
  moreover have "file_bytes V' (D n @ xs) ?T = overwrite off data (file_bytes V (D n) S @ gap_bytes ?bs S off ?X)"
    unfolding p(5) tX [symmetric] by (rule written_gap [OF T])
  moreover have "same_access (inode_in sb V n) (inode_in sb V' n)" unfolding p(3) by (simp add: same_access_def)
  ultimately show ?thesis using p(1,2,4) sz gap_bytes_near by blast
qed

lemma write_success:
  assumes o: "open_file w i n L N D" and off: "offset < 2 ^ 63" and buf: "unat sz \<le> length buf"
    and run: "mofs_write_core (Some i) (Some buf) sz offset upd w = Some (Inr k, w')" and c: "calm w w'"
  shows "write_refusal (env_of w) (w_files w ! i) (inode_in (sp_blk w) (vol w) n) sz offset = None" (is ?A)
    and "unat k = min (unat sz) (1024 * blksz w - nat offset)" (is ?B)
    and "w_files w' = (if upd then (w_files w)[i := (w_files w ! i)\<lparr>fh_file_offset := word_of_int (offset + int (unat k))\<rparr>] else w_files w)" (is ?C)
    and "handle_frame w w'" and "sp_blk w' = sp_blk w"
    and "same_files (sp_blk w) (vol w) (vol w') (L - {n}) D" (is ?D)
    and "same_access (inode_in (sp_blk w) (vol w) n) (inode_in (sp_blk w) (vol w') n)" (is ?E)
    and "\<exists>ns ds gap. open_file w' i n L (N(n := ns)) (D(n := ds)) \<and> length gap = nat offset - length (content w D n) \<and>
          (nat offset div blksz w * blksz w \<le> length (content w D n) \<longrightarrow> gap = replicate (length gap) 0) \<and>
          content w' (D(n := ds)) n = overwrite (nat offset) (take (unat k) buf) (content w D n @ gap)" (is ?F)
proof -
  note a = open_fileD [OF o]
  note h = wp_outcome [OF hrunsD [OF hruns_write_core [OF a(3,4,5,6,2) refl a(7) off buf] a(1) refl refl] run, unfolded env_sb sum.case]
  have w': "fs_ok w'" and fr: "handle_frame w w'" and post: "write_post (sp_blk w) (vol w) (vol w') L N D n (nat offset) (take (unat k) buf)"
    and fs: "env_of w' = (if upd then (env_of w)\<lparr>en_files := (en_files (env_of w))[i := (w_files w ! i)\<lparr>fh_file_offset := word_of_int (offset + int (unat k))\<rparr>]\<rparr> else env_of w)"
    and A: ?A and B: ?B
    using h c by auto
  show C: ?C using arg_cong [OF fs, of en_files] by auto
  show sb': "sp_blk w' = sp_blk w" using arg_cong [OF handle_frame_env [OF fr], of en_sb] by (simp add: env_sb)
  have files: "i < length (w_files w')" "fh_inode_num (w_files w' ! i) = n" using C a(3,5) by (auto split: if_splits)
  have "nat offset < 1024 * blksz w" using A by (auto simp: write_refusal_def env_sb split: if_splits)
  then have sm: "nat offset + length (take (unat k) buf) \<le> 1024 * blksz w" using B by simp
  have wf: "wf_disk (sp_blk w) (vol w)" and lay: "layout_ok (sp_blk w)" using vol_wf [OF a(1)] fs_ok_layout [OF a(1)] by simp_all
  have "length (vol w x) = blksz w" if "x \<in> set (D n)" for x
    using owned_lengths(1) [OF lay wf fs_invD(2) [OF a(2,6), unfolded env_sb] that] .
  then have lc: "length (content w D n) = unat (i_size (inode_in (sp_blk w) (vol w) n))"
    unfolding content_def by (rule length_file_bytes [OF _ a(7) [unfolded env_sb]])
  note p = write_post_content [OF post a(2) [unfolded env_sb] a(6) lay wf vol_wf [OF w', unfolded sb'] refl a(7) [unfolded env_sb] sm]
  show ?D ?E using p by blast+
  show ?F using p w' files a(6) unfolding open_file_def content_def lc [unfolded content_def] sb' by fastforce
  show ?A ?B "handle_frame w w'" by fact+
qed

text \<open>C1. Writing through an open handle refines writing into a byte sequence. When nothing fails, a
  request is refused exactly for the reasons of \<open>write_refusal\<close>, or with ENOSPC, and then no
  file has changed. Otherwise the bytes up to the size limit of 1024 blocks are written: the file
  is extended to the offset if it is shorter, with zeros when the write starts in the block of
  its end or before, and the data replaces what was there; no other file changes, type,
  permissions and owner stay, and the allocation invariant holds again.\<close>

theorem write_updates_file_bytes:
  assumes "open_file w i n L N D" and "offset < 2 ^ 63" and "unat sz \<le> length buf"
  shows "wp (mofs_write_core (Some i) (Some buf) sz offset upd) (\<lambda>r w'. fs_ok w' \<and> handle_frame w w' \<and> (calm w w' \<longrightarrow> (case r of
      Inl e \<Rightarrow> w_files w' = w_files w \<and>
        (case write_refusal (env_of w) (w_files w ! i) (inode_in (sp_blk w) (vol w) n) sz offset of
           Some e' \<Rightarrow> e = e' \<and> vol w' = vol w
         | None \<Rightarrow> e = MOFS_ENOSPC \<and> fs_inv (sp_blk w) (vol w') L N D \<and> same_files (sp_blk w) (vol w) (vol w') L D)
    | Inr k \<Rightarrow> write_refusal (env_of w) (w_files w ! i) (inode_in (sp_blk w) (vol w) n) sz offset = None \<and>
        unat k = min (unat sz) (1024 * blksz w - nat offset) \<and>
        w_files w' = (if upd then (w_files w)[i := (w_files w ! i)\<lparr>fh_file_offset := word_of_int (offset + int (unat k))\<rparr>] else w_files w) \<and>
        same_files (sp_blk w) (vol w) (vol w') (L - {n}) D \<and>
        same_access (inode_in (sp_blk w) (vol w) n) (inode_in (sp_blk w) (vol w') n) \<and>
        (\<exists>ns ds gap. open_file w' i n L (N(n := ns)) (D(n := ds)) \<and> length gap = nat offset - length (content w D n) \<and>
          (nat offset div blksz w * blksz w \<le> length (content w D n) \<longrightarrow> gap = replicate (length gap) 0) \<and>
          content w' (D(n := ds)) n = overwrite (nat offset) (take (unat k) buf) (content w D n @ gap))))) w"
proof -
  note a = open_fileD [OF assms(1)]
  show ?thesis
    unfolding wp_iff
  proof (rule exE [OF hrunsD [OF hruns_write_core [OF a(3,4,5,6,2) refl a(7) assms(2,3), where upd = upd] a(1) refl refl, unfolded env_sb wp_iff]], elim exE conjE, goal_cases)
    case (1 r w')
    show ?case
    proof (cases r)
      case (Inl e)
      then show ?thesis using 1 by (intro exI conjI) (auto dest!: arg_cong [of "env_of w'" _ en_files])
    next
      case (Inr k)
      note ok = write_success [OF assms 1(1) [unfolded Inr]]
      show ?thesis
        by (intro exI conjI impI, rule 1(1) [unfolded Inr], rule 1(2), rule 1(3), unfold sum.case, intro conjI) (erule ok)+
    qed
  qed
qed

theorem write_updates_file_bytes_witness:
  "wp (mofs_write_core (Some 0) (Some [1, 2]) 2 599 False) (\<lambda>r w'. fs_ok w' \<and> (calm (sample_open MOFS_OFLAG_RDWR) w' \<longrightarrow>
     (case r of Inl e \<Rightarrow> e = MOFS_ENOSPC | Inr k \<Rightarrow> k = 2 \<and>
       (\<exists>D. content w' D 3 = replicate 512 65 @ replicate 87 66 @ [1, 2])))) (sample_open MOFS_OFLAG_RDWR)"
proof -
  let ?w = "sample_open MOFS_OFLAG_RDWR"
  have wn: "wanted MOFS_OFLAG_RDWR = Some (True, True, False)" by (simp add: wanted_def flag_defs Let_def)
  have ok: "write_refusal (env_of ?w) (w_files ?w ! 0) sample_file 2 599 = None"
    using sample_root_access [OF wn] wn
    by (simp add: write_refusal_def mode_has_def sample_file_def zero_inode_def mofs_consts flag_defs env_sb)
  have c: "content ?w sample_blocks 3 = replicate 512 65 @ replicate 88 66"
    by (simp add: content_def sample_inodes sample_file_def sample_blocks_def sample_bytes)
  have new: "overwrite 599 [1, 2] (replicate 512 65 @ replicate 88 66) = replicate 512 (65 :: byte) @ replicate 87 66 @ [1, 2]"
    by (simp add: overwrite_def)
  show ?thesis
  proof (rule wp_mono [OF write_updates_file_bytes [OF sample_open_file [of MOFS_OFLAG_RDWR], where offset = 599 and sz = 2 and buf = "[1, 2]" and upd = False]], goal_cases)
    case (3 r w')
    show ?case
    proof (cases r)
      case (Inr k)
      then show ?thesis using 3 ok by (auto simp: sample_inodes c new word_unat_eq_iff)
    qed (use 3 ok in \<open>simp add: sample_inodes\<close>)
  qed simp_all
qed





section \<open>Changing the size\<close>

text \<open>C3. Truncation resizes the byte sequence: when nothing fails it is refused exactly for the reasons of
  \<open>truncate_refusal\<close>, or with ENOSPC; otherwise the file has the requested length, keeps its bytes
  up to it and is filled with zeros, no other file changes and the allocation invariant holds. A
  request for the present size changes nothing.\<close>

theorem truncate_resizes_file:
  assumes "fs_ok w" and "fs_inv (sp_blk w) (vol w) L N D" and "n \<in> L"
    and "unat (i_size (inode_in (sp_blk w) (vol w) n)) \<le> length (D n) * blksz w" and "len < 2 ^ 63"
  shows "wp (mofs_truncate_core n len) (\<lambda>r w'. fs_ok w' \<and> io_frame w w' \<and> (calm w w' \<longrightarrow> (case r of
      Inl e \<Rightarrow> (case truncate_refusal (env_of w) (inode_in (sp_blk w) (vol w) n) len of
           Some e' \<Rightarrow> e = e' \<and> vol w' = vol w
         | None \<Rightarrow> e = MOFS_ENOSPC \<and> fs_inv (sp_blk w) (vol w') L N D \<and> same_files (sp_blk w) (vol w) (vol w') (L - {n}) D)
    | Inr _ \<Rightarrow> truncate_refusal (env_of w) (inode_in (sp_blk w) (vol w) n) len = None \<and>
        same_files (sp_blk w) (vol w) (vol w') (L - {n}) D \<and>
        (\<exists>ns ds. fs_inv (sp_blk w) (vol w') L (N(n := ns)) (D(n := ds)) \<and>
           content w' (D(n := ds)) n = resized (nat len) (content w D n))))) w"
proof -
  note inv = assms(2) [folded env_sb] and sz = assms(4) [folded env_sb]
  have wf: "wf_disk (sp_blk w) (vol w)" and lay: "layout_ok (sp_blk w)" using vol_wf [OF assms(1)] fs_ok_layout [OF assms(1)] by simp_all
  have b: "blksz w \<le> 65536" using layout_blk_size [OF lay] by simp
  have "length (vol w x) = blksz w" if "x \<in> set (D n)" for x
    using owned_lengths(1) [OF lay wf fs_invD(2) [OF assms(2,3)] that] .
  then have lc: "length (content w D n) = unat (i_size (inode_in (sp_blk w) (vol w) n))"
    unfolding content_def by (rule length_file_bytes [OF _ assms(4)])
  show ?thesis
  proof (rule wp_mono [OF runsD [OF runs_truncate_core [OF inv assms(3) refl sz assms(5)] assms(1) refl refl]], unfold env_sb, elim conjE, goal_cases)
    case (1 r w')
    have sb': "sp_blk w' = sp_blk w" using 1(2) by (simp add: io_frame_def)
    show ?case
    proof (cases r)
      case (Inr u)
      have "(\<exists>ns ds. fs_inv (sp_blk w) (vol w') L (N(n := ns)) (D(n := ds)) \<and>
           content w' (D(n := ds)) n = resized (nat len) (content w D n)) \<and> same_files (sp_blk w) (vol w) (vol w') (L - {n}) D"
        if c: "calm w w'"
      proof (cases "nat len = unat (i_size (inode_in (sp_blk w) (vol w) n))")
        case True
        then have V: "vol w' = vol w" using 1 c Inr by simp
        show ?thesis
          using assms(2) True lc V
          by (intro conjI exI [of _ "N n"] exI [of _ "D n"]) (simp_all add: content_def sb' resized_def same_files_def)
      next
        case False
        then have post: "trunc_post (sp_blk w) (vol w) (vol w') L N D n (nat len)"
          and ne: "truncate_refusal (env_of w) (inode_in (sp_blk w) (vol w) n) len = None" using 1 c Inr by simp_all
        have "nat len \<le> 1024 * blksz w" using ne by (auto simp: truncate_refusal_def env_sb split: if_splits)
        then have "nat len < 2 ^ 32" using b by simp
        then show ?thesis using post unfolding trunc_post_def content_def sb' by (auto simp: unat_word_of_nat) blast
      qed
      then show ?thesis using 1 Inr by simp
    qed (use 1 in \<open>auto split: option.splits\<close>)
  qed
qed

text \<open>Cutting the sample file of 600 bytes to 3.\<close>

theorem truncate_resizes_file_witness:
  "wp (mofs_truncate_core 3 3) (\<lambda>r w'. fs_ok w' \<and> (calm (sample_open MOFS_OFLAG_WRONLY) w' \<longrightarrow>
     (case r of Inl e \<Rightarrow> e = MOFS_ENOSPC | Inr _ \<Rightarrow> \<exists>D. content w' D 3 = [65, 65, 65]))) (sample_open MOFS_OFLAG_WRONLY)"
proof -
  let ?w = "sample_open MOFS_OFLAG_WRONLY"
  note o = sample_open_file [of MOFS_OFLAG_WRONLY, unfolded open_file_def]
  have ok: "truncate_refusal (env_of ?w) sample_file 3 = None"
    using sample_root_access [OF wanted_wronly]
    by (simp add: truncate_refusal_def mode_has_def sample_file_def zero_inode_def mofs_consts flag_defs env_sb)
  have c: "content ?w sample_blocks 3 = replicate 512 65 @ replicate 88 66"
    by (simp add: content_def sample_inodes sample_file_def sample_blocks_def sample_bytes)
  have new: "resized 3 (replicate 512 65 @ replicate 88 66) = [65 :: byte, 65, 65]" by (simp add: resized_def numeral_3_eq_3)
  show ?thesis
  proof (rule wp_mono [OF truncate_resizes_file [where w = ?w and L = "{2, 3}" and N = sample_nodes and D = sample_blocks]], goal_cases)
    case (6 r w')
    then show ?case using ok by (cases r) (auto simp: sample_inodes c new)
  qed (use o in simp_all)
qed

end
