(* ===== verification/Mofs_Fuse.thy ===== *)
theory Mofs_Fuse
  imports Mofs_Posix Mofs_Access
begin

text \<open>
  The FUSE file system of the Linux port, \<open>src/os/linux/tools/fuse/fuse_ops.c\<close>: the callbacks that
  libfuse runs for a request, over the public interface of \<open>Mofs_Posix\<close>.

  libfuse is not part of the repository. What \<open>fuse_get_context()\<close> returns is the argument
  \<open>ctx\<close> of every callback (\<open>None\<close> for NULL), with the text of \<open>/proc/PID/status\<close> of the
  calling process in it; the function \<open>filler\<close> that collects directory entries is an argument of
  \<open>readdir\<close>, over a buffer of any type. A callback returns the int of the C function: a
  negative errno of the host on failure.
\<close>

unbundle bit_operations_syntax

section \<open>Requests\<close>

record fuse_context =
  fc_uid :: u32
  fc_gid :: u32
  fc_pid :: u32
  fc_umask :: u32
  fc_proc_status :: "byte list res"
  fc_devfile_path :: "byte list"

text \<open>The open flags of the request and the file handle kept for it, \<open>None\<close> for 0.\<close>

record fuse_file_info =
  fi_flags :: u32
  fi_fh :: handle

definition O_ACCMODE :: u32 where "O_ACCMODE = 3"
definition O_RDONLY :: u32 where "O_RDONLY = 0"
definition O_WRONLY :: u32 where "O_WRONLY = 1"
definition O_RDWR :: u32 where "O_RDWR = 2"
definition O_CREAT :: u32 where "O_CREAT = 0x40"
definition O_EXCL :: u32 where "O_EXCL = 0x80"
definition O_DIRECTORY :: u32 where "O_DIRECTORY = 0x10000"
definition O_PATH :: u32 where "O_PATH = 0x200000"

lemmas host_flags = O_ACCMODE_def O_RDONLY_def O_WRONLY_def O_RDWR_def O_CREAT_def O_EXCL_def O_DIRECTORY_def O_PATH_def

definition mofs_fuse_bind_request_caller :: "fuse_context option \<Rightarrow> unit mofs" where
  "mofs_fuse_bind_request_caller ctx =
     (case ctx of None \<Rightarrow> ret ()
      | Some c \<Rightarrow> mofs_set_caller_for_peer_process (fc_uid c) (fc_gid c) (fc_pid c) (fc_proc_status c))"

text \<open>\<open>mofs_errno\<close> reads through the pointer of the errno slot; there is no slot when its allocation
  failed.\<close>

definition get_mofs_errno :: "mofs_error option mofs" where
  "get_mofs_errno =
     bind mofs_errno_location (\<lambda>slot. if slot then gets (\<lambda>w. the (w_errno w)) else diverge)"

definition clear_mofs_errno :: "unit mofs" where
  "clear_mofs_errno =
     bind mofs_errno_location (\<lambda>slot. if slot then modify (\<lambda>w. w\<lparr>w_errno := Some None\<rparr>) else diverge)"

definition fuse_neg_errno_from_mofs :: "int mofs" where
  "fuse_neg_errno_from_mofs = bind get_mofs_errno (\<lambda>e. ret (- mofs_to_os_errno e))"

text \<open>The MOFS flags and the mode for an open or create request.\<close>

definition build_mofs_open_args :: "fuse_context option \<Rightarrow> u32 \<Rightarrow> u32 \<Rightarrow> bool \<Rightarrow> (u32 \<times> u32) res" where
  "build_mofs_open_args ctx fuse_flags requested_mode force_create =
     (let acc = fuse_flags AND O_ACCMODE;
          access = (if fuse_flags AND O_PATH \<noteq> 0 then (if acc \<noteq> 0 \<and> acc \<noteq> O_RDONLY then None else Some MOFS_OFLAG_SEARCH)
                    else if acc = O_RDONLY then Some MOFS_OFLAG_RDONLY
                    else if acc = O_WRONLY then Some MOFS_OFLAG_WRONLY
                    else if acc = O_RDWR then Some MOFS_OFLAG_RDWR
                    else None)
      in case access of
           None \<Rightarrow> Inl MOFS_EINVAL
         | Some flags \<Rightarrow>
             let flags = (if fuse_flags AND O_DIRECTORY \<noteq> 0 then flags OR MOFS_OFLAG_DIRECTORY else flags);
                 flags = (if fuse_flags AND O_EXCL \<noteq> 0 then flags OR MOFS_OFLAG_EXCL else flags)
             in if force_create \<or> fuse_flags AND O_CREAT \<noteq> 0 then
                  let out_mode = (if requested_mode = 0 then 0x1B6 else requested_mode);
                      out_mode = (case ctx of None \<Rightarrow> out_mode | Some c \<Rightarrow> out_mode AND NOT (fc_umask c))
                  in Inr (flags OR MOFS_OFLAG_CREAT, out_mode)
                else Inr (flags, requested_mode))"

section \<open>Start and end\<close>

text \<open>The result is False when the process exits.\<close>

definition mofs_init_fuse :: "fuse_context option \<Rightarrow> byte list res \<Rightarrow> bool mofs" where
  "mofs_init_fuse ctx own_status =
     (case ctx of
        None \<Rightarrow> ret False
      | Some c \<Rightarrow>
          bind (gets w_os) (\<lambda>os.
          bind (attempt (mofs_init_core (fc_devfile_path c) True (os_euid os) (os_egid os))) (\<lambda>r. case r of
              Inl e \<Rightarrow> ret False
            | Inr _ \<Rightarrow>
                bind (mofs_set_caller_for_peer_process (os_euid os) (os_egid os) (os_pid os) own_status) (\<lambda>_.
                ret True))))"

definition mofs_destroy_fuse :: "unit mofs" where
  "mofs_destroy_fuse = bind mofs_clear_caller_user (\<lambda>_. ignore mofs_fini_core)"

section \<open>Calls on paths\<close>

text \<open>The fields of \<open>struct stat\<close> that are filled in; the others are zero.\<close>

record host_stat =
  hs_ino :: u64
  hs_nlink :: u64
  hs_size :: int
  hs_mode :: u32
  hs_uid :: u32
  hs_gid :: u32
  hs_atime :: int
  hs_mtime :: int
  hs_ctime :: int

definition zero_stat :: host_stat where
  "zero_stat = \<lparr>hs_ino = 0, hs_nlink = 0, hs_size = 0, hs_mode = 0, hs_uid = 0, hs_gid = 0, hs_atime = 0, hs_mtime = 0, hs_ctime = 0\<rparr>"

definition host_stat_of :: "mofs_stat_t \<Rightarrow> host_stat" where
  "host_stat_of st = \<lparr>hs_ino = ucast (st_ino st), hs_nlink = ucast (st_nlink st), hs_size = st_size st, hs_mode = st_mode st,
     hs_uid = st_uid st, hs_gid = st_gid st, hs_atime = sint (st_atime_sec st), hs_mtime = sint (st_mtime_sec st),
     hs_ctime = sint (st_ctime_sec st)\<rparr>"

definition mofs_getattr_fuse :: "fuse_context option \<Rightarrow> path \<Rightarrow> (int \<times> host_stat) mofs" where
  "mofs_getattr_fuse ctx path =
     bind (mofs_fuse_bind_request_caller ctx) (\<lambda>_.
     bind (mofs_stat path) (\<lambda>(ret_val, st). case st of
         Some s \<Rightarrow> ret (0, host_stat_of s)
       | None \<Rightarrow> bind fuse_neg_errno_from_mofs (\<lambda>n. ret (n, zero_stat))))"

text \<open>The common end of the callbacks: 0, or the errno of the call that failed.\<close>

definition fuse_status :: "int \<Rightarrow> int mofs" where
  "fuse_status r = (if r \<noteq> 0 then fuse_neg_errno_from_mofs else ret 0)"

definition fuse_error :: "mofs_error \<Rightarrow> int mofs" where
  "fuse_error e = ret (- mofs_to_os_errno (Some e))"

definition mofs_truncate_fuse :: "fuse_context option \<Rightarrow> path \<Rightarrow> int \<Rightarrow> fuse_file_info option \<Rightarrow> int mofs" where
  "mofs_truncate_fuse ctx path new_size fi =
     bind (mofs_fuse_bind_request_caller ctx) (\<lambda>_.
     if path = None then fuse_error MOFS_EINVAL
     else bind (case fi of
                  Some f \<Rightarrow> if fi_fh f \<noteq> None then mofs_ftruncate (fi_fh f) new_size else mofs_truncate path new_size
                | None \<Rightarrow> mofs_truncate path new_size) fuse_status)"

definition mofs_unlink_fuse :: "fuse_context option \<Rightarrow> path \<Rightarrow> int mofs" where
  "mofs_unlink_fuse ctx path =
     bind (mofs_fuse_bind_request_caller ctx) (\<lambda>_.
     if path = None then fuse_error MOFS_EINVAL else bind (mofs_unlink path) fuse_status)"

definition mofs_mkdir_fuse :: "fuse_context option \<Rightarrow> path \<Rightarrow> u32 \<Rightarrow> int mofs" where
  "mofs_mkdir_fuse ctx path mode =
     bind (mofs_fuse_bind_request_caller ctx) (\<lambda>_.
     if path = None then fuse_error MOFS_EINVAL
     else let masked_mode = (case ctx of None \<Rightarrow> mode | Some c \<Rightarrow> mode AND NOT (fc_umask c))
          in bind (mofs_mkdir path masked_mode) fuse_status)"

definition mofs_rmdir_fuse :: "fuse_context option \<Rightarrow> path \<Rightarrow> int mofs" where
  "mofs_rmdir_fuse ctx path =
     bind (mofs_fuse_bind_request_caller ctx) (\<lambda>_.
     if path = None then fuse_error MOFS_EINVAL else bind (mofs_rmdir path) fuse_status)"

section \<open>Open files\<close>

text \<open>The result and the file info as the callback leaves it.\<close>

definition fuse_open_with :: "path \<Rightarrow> fuse_file_info \<Rightarrow> (u32 \<times> u32) res \<Rightarrow> (int \<times> fuse_file_info option) mofs" where
  "fuse_open_with path fi args =
     (case args of
        Inl e \<Rightarrow> bind (fuse_error e) (\<lambda>n. ret (n, Some fi))
      | Inr (mofs_flags, mode) \<Rightarrow>
          bind (mofs_open path mofs_flags mode) (\<lambda>handle.
          if handle = None then bind fuse_neg_errno_from_mofs (\<lambda>n. ret (n, Some fi))
          else ret (0, Some (fi\<lparr>fi_fh := handle\<rparr>))))"

definition mofs_open_fuse :: "fuse_context option \<Rightarrow> path \<Rightarrow> fuse_file_info option \<Rightarrow> (int \<times> fuse_file_info option) mofs" where
  "mofs_open_fuse ctx path fi =
     bind (mofs_fuse_bind_request_caller ctx) (\<lambda>_.
     case fi of
       None \<Rightarrow> bind (fuse_error MOFS_EINVAL) (\<lambda>n. ret (n, None))
     | Some f \<Rightarrow>
         if path = None then bind (fuse_error MOFS_EINVAL) (\<lambda>n. ret (n, fi))
         else fuse_open_with path f (build_mofs_open_args ctx (fi_flags f) 0 False))"

definition mofs_create_fuse :: "fuse_context option \<Rightarrow> path \<Rightarrow> u32 \<Rightarrow> fuse_file_info option \<Rightarrow> (int \<times> fuse_file_info option) mofs" where
  "mofs_create_fuse ctx path mode fi =
     bind (mofs_fuse_bind_request_caller ctx) (\<lambda>_.
     case fi of
       None \<Rightarrow> bind (fuse_error MOFS_EINVAL) (\<lambda>n. ret (n, None))
     | Some f \<Rightarrow>
         if path = None then bind (fuse_error MOFS_EINVAL) (\<lambda>n. ret (n, fi))
         else fuse_open_with path f (build_mofs_open_args ctx (fi_flags f) mode True))"

definition mofs_release_fuse :: "fuse_context option \<Rightarrow> fuse_file_info option \<Rightarrow> (int \<times> fuse_file_info option) mofs" where
  "mofs_release_fuse ctx fi =
     bind (mofs_fuse_bind_request_caller ctx) (\<lambda>_.
     case fi of
       None \<Rightarrow> bind (fuse_error MOFS_EBADF) (\<lambda>n. ret (n, None))
     | Some f \<Rightarrow>
         if fi_fh f = None then bind (fuse_error MOFS_EBADF) (\<lambda>n. ret (n, fi))
         else bind (mofs_close (fi_fh f)) (\<lambda>r. bind (fuse_status r) (\<lambda>n. ret (n, Some (f\<lparr>fi_fh := None\<rparr>)))))"

text \<open>The size of a request has 64 bits on the host; the interface takes the low 32.\<close>

definition bad_transfer :: "bool \<Rightarrow> int \<Rightarrow> fuse_file_info option \<Rightarrow> bool" where
  "bad_transfer no_buf offset fi = (no_buf \<or> offset < 0 \<or> 0xFFFFFFFF < offset \<or> (case fi of None \<Rightarrow> True | Some f \<Rightarrow> fi_fh f = None))"

definition mofs_read_fuse :: "fuse_context option \<Rightarrow> bool \<Rightarrow> u64 \<Rightarrow> int \<Rightarrow> fuse_file_info option \<Rightarrow> (int \<times> byte list) mofs" where
  "mofs_read_fuse ctx no_buf sz offset fi =
     bind (mofs_fuse_bind_request_caller ctx) (\<lambda>_.
     if bad_transfer no_buf offset fi then bind (fuse_error MOFS_EINVAL) (\<lambda>n. ret (n, []))
     else if sz = 0 then ret (0, [])
     else bind (mofs_pread (fi_fh (the fi)) (ucast sz) offset) (\<lambda>(n, bytes).
          if n < 0 then bind fuse_neg_errno_from_mofs (\<lambda>m. ret (m, bytes)) else ret (n, bytes)))"

definition mofs_write_fuse :: "fuse_context option \<Rightarrow> byte list option \<Rightarrow> u64 \<Rightarrow> int \<Rightarrow> fuse_file_info option \<Rightarrow> int mofs" where
  "mofs_write_fuse ctx buf sz offset fi =
     bind (mofs_fuse_bind_request_caller ctx) (\<lambda>_.
     if bad_transfer (buf = None) offset fi then fuse_error MOFS_EINVAL
     else if sz = 0 then ret 0
     else bind (mofs_pwrite (fi_fh (the fi)) buf (ucast sz) offset) (\<lambda>n.
          if n < 0 then fuse_neg_errno_from_mofs else ret n))"

section \<open>Listing a directory\<close>

type_synonym 'b filler = "'b \<Rightarrow> byte list \<Rightarrow> int \<Rightarrow> int \<times> 'b"

text \<open>\<open>cursor\<close> numbers the entries: \<open>.\<close> is 0, \<open>..\<close> is 1 and the stored entries follow. \<open>filler\<close> gets
  with a name the number of the entry after it.\<close>

partial_function (option) readdir_fuse_loop :: "'b filler \<Rightarrow> handle \<Rightarrow> int \<Rightarrow> int \<Rightarrow> 'b \<Rightarrow> (int \<times> 'b) mofs" where
  "readdir_fuse_loop filler handle offset cursor buf w =
     bind clear_mofs_errno (\<lambda>_.
     bind (mofs_readdir handle) (\<lambda>dirent.
     if dirent = None then
       bind get_mofs_errno (\<lambda>e. if e \<noteq> None then bind fuse_neg_errno_from_mofs (\<lambda>n. ret (n, buf)) else ret (0, buf))
     else if cursor < offset then readdir_fuse_loop filler handle offset (cursor + 1) buf
     else if cstr (d_name (the dirent)) = [46] \<or> cstr (d_name (the dirent)) = [46, 46] then
       readdir_fuse_loop filler handle offset (cursor + 1) buf
     else if fst (filler buf (cstr (d_name (the dirent))) (cursor + 1)) \<noteq> 0 then
       ret (0, snd (filler buf (cstr (d_name (the dirent))) (cursor + 1)))
     else readdir_fuse_loop filler handle offset (cursor + 1) (snd (filler buf (cstr (d_name (the dirent))) (cursor + 1))))) w"

text \<open>The entries \<open>.\<close> and \<open>..\<close>, then the stored ones.\<close>

definition list_entries :: "'b filler \<Rightarrow> handle \<Rightarrow> int \<Rightarrow> 'b \<Rightarrow> (int \<times> 'b) mofs" where
  "list_entries filler handle offset buf =
     (case (if offset \<le> 0 then filler buf [46] 1 else (0, buf)) of (r, buf) \<Rightarrow>
        if r \<noteq> 0 then ret (0, buf)
        else (case (if offset \<le> 1 then filler buf [46, 46] 2 else (0, buf)) of (r, buf) \<Rightarrow>
          if r \<noteq> 0 then ret (0, buf) else readdir_fuse_loop filler handle offset 2 buf))"

definition mofs_readdir_fuse ::
  "fuse_context option \<Rightarrow> path \<Rightarrow> 'b option \<Rightarrow> 'b filler option \<Rightarrow> int \<Rightarrow> (int \<times> 'b option) mofs" where
  "mofs_readdir_fuse ctx path buf filler offset =
     bind (mofs_fuse_bind_request_caller ctx) (\<lambda>_.
     case (buf, filler) of
       (Some b, Some f) \<Rightarrow>
         if path = None \<or> offset < 0 then bind (fuse_error MOFS_EINVAL) (\<lambda>n. ret (n, buf))
         else core_locked (
           bind (mofs_opendir path) (\<lambda>handle.
           if handle = None then bind fuse_neg_errno_from_mofs (\<lambda>n. ret (n, buf))
           else
             bind (list_entries f handle offset b) (\<lambda>(n, b').
             bind (mofs_closedir handle) (\<lambda>c.
             if c \<noteq> 0 \<and> n = 0 then bind fuse_neg_errno_from_mofs (\<lambda>n. ret (n, Some b'))
             else ret (n, Some b')))))
     | _ \<Rightarrow> bind (fuse_error MOFS_EINVAL) (\<lambda>n. ret (n, buf)))"

end
