(* ===== verification/Mofs_Zephyr.thy ===== *)
theory Mofs_Zephyr
  imports Mofs_Devio
begin

text \<open>
  The Zephyr port: \<open>src/os/zephyr/service\<close>. The disk driver, the heap, the mutexes and the clock of
  Zephyr are not part of the repository; they are the fields of the record \<open>kernel\<close>, an argument of
  every definition that calls them, over a state \<open>'s\<close> of their own. \<open>zephyr\<close> is the state
  of the port: the static variables of \<open>os_devio.c\<close>, \<open>os_sync.c\<close> and \<open>os_user.c\<close>, the errno and
  the kernel's state. Names that the Linux port has too carry the suffix \<open>_z\<close>.

  This theory has the errno conversion, the locks, the clock and the caller; the device layer is in
  \<open>Mofs_Zephyr_Devio\<close>.
\<close>

unbundle bit_operations_syntax

section \<open>The kernel\<close>

datatype disk_ioctl = DISK_IOCTL_GET_SECTOR_COUNT | DISK_IOCTL_GET_SECTOR_SIZE | DISK_IOCTL_CTRL_SYNC |
  DISK_IOCTL_CTRL_INIT | DISK_IOCTL_CTRL_DEINIT

datatype k_mutex = Zephyr_Mutex | Core_Sync_Mutex

text \<open>The results are the int of the C function, the bytes or the number it stores through a pointer, and
  the new state.\<close>

record 's kernel =
  disk_access_status :: "byte list \<Rightarrow> 's \<Rightarrow> int \<times> 's"
  disk_access_read :: "byte list \<Rightarrow> u32 \<Rightarrow> u32 \<Rightarrow> 's \<Rightarrow> int \<times> byte list \<times> 's"
  disk_access_write :: "byte list \<Rightarrow> byte list \<Rightarrow> u32 \<Rightarrow> u32 \<Rightarrow> 's \<Rightarrow> int \<times> 's"
  disk_access_ioctl :: "byte list \<Rightarrow> disk_ioctl \<Rightarrow> 's \<Rightarrow> int \<times> u32 \<times> 's"
  k_malloc :: "nat \<Rightarrow> 's \<Rightarrow> byte list option \<times> 's"
  k_free :: "'s \<Rightarrow> 's"
  k_mutex_init :: "k_mutex \<Rightarrow> 's \<Rightarrow> int \<times> 's"
  k_mutex_lock :: "k_mutex \<Rightarrow> 's \<Rightarrow> int \<times> 's"
  k_mutex_unlock :: "k_mutex \<Rightarrow> 's \<Rightarrow> int \<times> 's"
  k_uptime_get :: "'s \<Rightarrow> int"

text \<open>One entry of \<open>dev_slots\<close>; the name is the string before its terminating zero.\<close>

record dev_slot =
  sl_used :: bool
  sl_name :: "byte list"
  sl_offset :: int
  sl_sector_size :: u32
  sl_sector_count :: u32
  sl_open_flags :: int

record 's zephyr =
  dev_slots :: "dev_slot list"
  z_core_sync_initialized :: bool
  z_user :: mofs_user_ctx
  z_errno :: int
  z_kernel :: 's

type_synonym ('s, 'a) zprog = "('s zephyr, 'a) prog"

text \<open>A call into the kernel.\<close>

definition kcall :: "('s \<Rightarrow> 'a \<times> 's) \<Rightarrow> ('s, 'a) zprog" where
  "kcall f = (\<lambda>z. case f (z_kernel z) of (x, s) \<Rightarrow> Some (Inr x, z\<lparr>z_kernel := s\<rparr>))"

lemma wp_kcall [wp_simps]:
  "wp (kcall f) Q z = (case f (z_kernel z) of (x, s) \<Rightarrow> Q (Inr x) (z\<lparr>z_kernel := s\<rparr>))"
  by (simp add: wp_def kcall_def split: prod.splits)

section \<open>Errno conversion\<close>

text \<open>\<open>os_errno.c\<close> is the same code as on Linux over the numbers of Zephyr's C library, in which
  \<open>ENOTSUP\<close> and \<open>EOPNOTSUPP\<close> differ.\<close>

definition os_to_mofs_errno_z :: "int \<Rightarrow> mofs_error option" where
  "os_to_mofs_errno_z err =
     (if err = 0 then None
      else if err = 1 then Some MOFS_EPERM
      else if err = 2 then Some MOFS_ENOENT
      else if err = 5 then Some MOFS_EIO
      else if err = 6 then Some MOFS_ENXIO
      else if err = 9 then Some MOFS_EBADF
      else if err = 12 then Some MOFS_ENOMEM
      else if err = 13 then Some MOFS_EACCES
      else if err = 14 then Some MOFS_EFAULT
      else if err = 16 then Some MOFS_EBUSY
      else if err = 17 then Some MOFS_EEXIST
      else if err = 18 then Some MOFS_EXDEV
      else if err = 19 then Some MOFS_ENODEV
      else if err = 20 then Some MOFS_ENOTDIR
      else if err = 21 then Some MOFS_EISDIR
      else if err = 22 then Some MOFS_EINVAL
      else if err = 23 then Some MOFS_ENFILE
      else if err = 24 then Some MOFS_EMFILE
      else if err = 27 then Some MOFS_EFBIG
      else if err = 28 then Some MOFS_ENOSPC
      else if err = 29 then Some MOFS_ESPIPE
      else if err = 30 then Some MOFS_EROFS
      else if err = 31 then Some MOFS_EMLINK
      else if err = 91 then Some MOFS_ENAMETOOLONG
      else if err = 88 then Some MOFS_ENOSYS
      else if err = 90 then Some MOFS_ENOTEMPTY
      else if err = 92 then Some MOFS_ELOOP
      else if err = 95 then Some MOFS_ENOTSUP
      else if err = 134 then Some MOFS_ENOTSUP
      else Some MOFS_EIO)"

primrec mofs_to_os_errno_z :: "mofs_error option \<Rightarrow> int" where
  "mofs_to_os_errno_z None = 0"
| "mofs_to_os_errno_z (Some e) = (case e of
       MOFS_EPERM \<Rightarrow> 1
     | MOFS_ENOENT \<Rightarrow> 2
     | MOFS_EIO \<Rightarrow> 5
     | MOFS_ENXIO \<Rightarrow> 6
     | MOFS_EBADF \<Rightarrow> 9
     | MOFS_ENOMEM \<Rightarrow> 12
     | MOFS_EACCES \<Rightarrow> 13
     | MOFS_EFAULT \<Rightarrow> 14
     | MOFS_EBUSY \<Rightarrow> 16
     | MOFS_EEXIST \<Rightarrow> 17
     | MOFS_EXDEV \<Rightarrow> 18
     | MOFS_ENODEV \<Rightarrow> 19
     | MOFS_ENOTDIR \<Rightarrow> 20
     | MOFS_EISDIR \<Rightarrow> 21
     | MOFS_EINVAL \<Rightarrow> 22
     | MOFS_ENFILE \<Rightarrow> 23
     | MOFS_EMFILE \<Rightarrow> 24
     | MOFS_EFBIG \<Rightarrow> 27
     | MOFS_ENOSPC \<Rightarrow> 28
     | MOFS_ESPIPE \<Rightarrow> 29
     | MOFS_EROFS \<Rightarrow> 30
     | MOFS_EMLINK \<Rightarrow> 31
     | MOFS_ENAMETOOLONG \<Rightarrow> 91
     | MOFS_ENOSYS \<Rightarrow> 88
     | MOFS_ENOTEMPTY \<Rightarrow> 90
     | MOFS_ELOOP \<Rightarrow> 92
     | MOFS_ENOTSUP \<Rightarrow> 134)"

lemma os_to_mofs_to_os_z: "os_to_mofs_errno_z (mofs_to_os_errno_z e) = e"
proof (cases e)
  case (Some a)
  then show ?thesis by (cases a) (simp_all add: os_to_mofs_errno_z_def)
qed (simp add: os_to_mofs_errno_z_def)

lemma os_to_mofs_errno_z_None [simp]: "os_to_mofs_errno_z n = None \<longleftrightarrow> n = 0"
  by (simp add: os_to_mofs_errno_z_def)

definition get_errno_z :: "('s, mofs_error option) zprog" where
  "get_errno_z = gets (\<lambda>z. os_to_mofs_errno_z (z_errno z))"

text \<open>\<open>return os_to_mofs_errno(-err)\<close> for the result \<open>err\<close> of a kernel call that is not 0.\<close>

definition kernel_error :: "int \<Rightarrow> mofs_error" where
  "kernel_error err = the (os_to_mofs_errno_z (- err))"

section \<open>Locks, time and the caller\<close>

text \<open>\<open>os_sync.c\<close>: every mutex is the one static object. The pointer is \<open>None\<close> for NULL. A kernel
  call that fails is reported with the errno of the C library.\<close>

definition errno_if :: "int \<Rightarrow> ('s, unit) zprog" where
  "errno_if r = (if r \<noteq> 0 then bind get_errno_z (\<lambda>e. case e of Some x \<Rightarrow> throw x | None \<Rightarrow> ret ()) else ret ())"

definition mofs_mutex_init_z :: "'s kernel \<Rightarrow> ('s, k_mutex) zprog" where
  "mofs_mutex_init_z k =
     bind (kcall (k_mutex_init k Zephyr_Mutex)) (\<lambda>r.
     bind (errno_if r) (\<lambda>_. ret Zephyr_Mutex))"

definition mofs_mutex_fini_z :: "k_mutex option \<Rightarrow> ('s, unit) zprog" where
  "mofs_mutex_fini_z mutex = ret ()"

definition mofs_mutex_lock_z :: "'s kernel \<Rightarrow> k_mutex option \<Rightarrow> ('s, unit) zprog" where
  "mofs_mutex_lock_z k mutex =
     (case mutex of None \<Rightarrow> throw MOFS_EINVAL | Some m \<Rightarrow> bind (kcall (k_mutex_lock k m)) errno_if)"

definition mofs_mutex_unlock_z :: "'s kernel \<Rightarrow> k_mutex option \<Rightarrow> ('s, unit) zprog" where
  "mofs_mutex_unlock_z k mutex =
     (case mutex of None \<Rightarrow> throw MOFS_EINVAL | Some m \<Rightarrow> bind (kcall (k_mutex_unlock k m)) errno_if)"

definition mofs_core_sync_init_z :: "'s kernel \<Rightarrow> ('s, unit) zprog" where
  "mofs_core_sync_init_z k =
     bind (gets z_core_sync_initialized) (\<lambda>ready. if ready then ret ()
     else bind (kcall (k_mutex_init k Core_Sync_Mutex)) (\<lambda>r.
       if r \<noteq> 0 then errno_if r
       else modify (\<lambda>z. z\<lparr>z_core_sync_initialized := True\<rparr>)))"

definition mofs_core_sync_fini_z :: "('s, unit) zprog" where
  "mofs_core_sync_fini_z = ret ()"

definition mofs_core_sync_lock_z :: "'s kernel \<Rightarrow> ('s, unit) zprog" where
  "mofs_core_sync_lock_z k =
     bind (gets z_core_sync_initialized) (\<lambda>ready.
     if \<not> ready then ret () else bind (kcall (k_mutex_lock k Core_Sync_Mutex)) (\<lambda>_. ret ()))"

definition mofs_core_sync_unlock_z :: "'s kernel \<Rightarrow> ('s, unit) zprog" where
  "mofs_core_sync_unlock_z k =
     bind (gets z_core_sync_initialized) (\<lambda>ready.
     if \<not> ready then ret () else bind (kcall (k_mutex_unlock k Core_Sync_Mutex)) (\<lambda>_. ret ()))"

text \<open>\<open>os_time.c\<close>: seconds since the start, of a count of milliseconds.\<close>

definition mofs_now_z :: "'s kernel \<Rightarrow> ('s, u64) zprog" where
  "mofs_now_z k = gets (\<lambda>z. word_of_int (k_uptime_get k (z_kernel z) div 1000))"

text \<open>\<open>os_user.c\<close>: one caller for the whole system, which keeps its supplementary groups.\<close>

definition initial_user_z :: mofs_user_ctx where
  "initial_user_z = \<lparr>u_uid = 0, u_gid = 0, u_pid = 0, u_supp_groups = [], u_valid = True\<rparr>"

definition mofs_set_caller_user_z :: "u32 \<Rightarrow> u32 \<Rightarrow> u32 \<Rightarrow> ('s, unit) zprog" where
  "mofs_set_caller_user_z uid gid pid = modify (\<lambda>z. z\<lparr>z_user :=
     (z_user z)\<lparr>u_uid := uid, u_gid := gid, u_pid := pid, u_valid := True\<rparr>\<rparr>)"

definition mofs_set_caller_for_peer_process_z :: "u32 \<Rightarrow> u32 \<Rightarrow> u32 \<Rightarrow> ('s, unit) zprog" where
  "mofs_set_caller_for_peer_process_z uid gid pid = mofs_set_caller_user_z uid gid pid"

definition mofs_get_caller_user_z :: "('s, mofs_user_ctx) zprog" where
  "mofs_get_caller_user_z = gets z_user"

definition mofs_is_caller_in_group_z :: "u32 \<Rightarrow> ('s, bool) zprog" where
  "mofs_is_caller_in_group_z group_id =
     bind (gets z_user) (\<lambda>user.
     if u_gid user = group_id then ret True
     else ret (list_ex (\<lambda>g. g = group_id) (u_supp_groups user)))"

definition mofs_clear_caller_user_z :: "('s, unit) zprog" where
  "mofs_clear_caller_user_z = modify (\<lambda>z. z\<lparr>z_user := (z_user z)\<lparr>u_valid := False, u_supp_groups := []\<rparr>\<rparr>)"

end
