(* ===== verification/Mofs_Vfs.thy ===== *)
theory Mofs_Vfs
  imports Mofs_Posix Mofs_Zephyr
begin

text \<open>
  The file system of the Zephyr port as its VFS layer sees it, \<open>src/os/zephyr/tools/vfs/mofs_vfs.c\<close>:
  the callbacks behind \<open>fs_open\<close>, \<open>fs_read\<close> and so on, over the public interface of
  \<open>Mofs_Posix\<close>. The objects of the VFS layer (\<open>fs_file_t\<close>, \<open>fs_dir_t\<close>, \<open>fs_mount_t\<close>,
  \<open>fs_dirent\<close>) are records with the fields the code uses; \<open>None\<close> is NULL. The size of the name
  field of an entry is a configuration value, the argument \<open>name_size\<close>. A callback returns the
  int of the C function: a negative errno of Zephyr on failure.
\<close>

unbundle bit_operations_syntax

section \<open>Objects of the VFS layer\<close>

record fs_mount =
  mountp_len :: nat
  storage_dev :: "byte list option"

record fs_file =
  filep :: handle
  f_mp :: "fs_mount option"
  f_flags :: u32

record fs_dir =
  dirp :: handle
  d_mp :: "fs_mount option"

datatype fs_entry_type = FS_DIR_ENTRY_FILE | FS_DIR_ENTRY_DIR

record fs_dirent =
  en_type :: fs_entry_type
  en_name :: "byte list"
  en_size :: nat

record fs_statvfs =
  f_bsize :: u32
  f_frsize :: u32
  f_blocks :: u32
  f_bfree :: u32

definition FS_O_READ :: u32 where "FS_O_READ = 0x01"
definition FS_O_WRITE :: u32 where "FS_O_WRITE = 0x02"
definition FS_O_RDWR :: u32 where "FS_O_RDWR = 0x03"
definition FS_O_CREATE :: u32 where "FS_O_CREATE = 0x10"
definition FS_O_APPEND :: u32 where "FS_O_APPEND = 0x20"

lemmas vfs_flags = FS_O_READ_def FS_O_WRITE_def FS_O_RDWR_def FS_O_CREATE_def FS_O_APPEND_def

text \<open>Errnos of Zephyr's C library: EIO, EACCES, EINVAL, ENOTSUP.\<close>

definition neg :: "mofs_error \<Rightarrow> int" where
  "neg e = - mofs_to_os_errno_z (Some e)"

section \<open>Helpers\<close>

text \<open>The path behind the mount point; the VFS layer hands over paths that begin with it, and a shorter
  path is read past its end.\<close>

definition mofs_vfs_strip_prefix :: "path \<Rightarrow> fs_mount option \<Rightarrow> path mofs" where
  "mofs_vfs_strip_prefix path mp =
     (case (path, mp) of
        (Some p, Some m) \<Rightarrow>
          if length p < mountp_len m then diverge
          else ret (Some (if drop (mountp_len m) p \<noteq> [] then drop (mountp_len m) p else [47]))
      | _ \<Rightarrow> ret path)"

text \<open>The errno slot of the port is a static variable that starts as 0.\<close>

definition vfs_errno :: "mofs_error option mofs" where
  "vfs_errno = gets (\<lambda>w. case w_errno w of None \<Rightarrow> None | Some e \<Rightarrow> e)"

definition vfs_clear_errno :: "unit mofs" where
  "vfs_clear_errno = modify (\<lambda>w. w\<lparr>w_errno := Some None\<rparr>)"

definition mofs_vfs_neg_errno :: "int mofs" where
  "mofs_vfs_neg_errno = bind vfs_errno (\<lambda>e. ret (- mofs_to_os_errno_z e))"

definition vfs_status :: "int \<Rightarrow> int mofs" where
  "vfs_status r = (if r \<noteq> 0 then mofs_vfs_neg_errno else ret 0)"

text \<open>\<open>mofs_to_os_errno\<close> on the number of a MOFS error.\<close>

definition all_errors :: "mofs_error list" where
  "all_errors = [MOFS_EPERM, MOFS_ENOENT, MOFS_EIO, MOFS_ENXIO, MOFS_EBADF, MOFS_ENOMEM, MOFS_EACCES, MOFS_EFAULT, MOFS_EBUSY,
     MOFS_EEXIST, MOFS_EXDEV, MOFS_ENODEV, MOFS_ENOTDIR, MOFS_EISDIR, MOFS_EINVAL, MOFS_ENFILE, MOFS_EMFILE, MOFS_EFBIG,
     MOFS_ENOSPC, MOFS_ESPIPE, MOFS_EROFS, MOFS_EMLINK, MOFS_ENAMETOOLONG, MOFS_ENOSYS, MOFS_ENOTEMPTY, MOFS_ELOOP, MOFS_ENOTSUP]"

definition neg_of_num :: "int \<Rightarrow> int" where
  "neg_of_num n = (if n = 0 then 0 else case find (\<lambda>e. errno_num e = n) all_errors of Some e \<Rightarrow> neg e | None \<Rightarrow> neg MOFS_EIO)"

definition copy_name :: "nat \<Rightarrow> byte list \<Rightarrow> byte list" where
  "copy_name name_size s = take (name_size - 1) s"

text \<open>The part of a path behind its last slash, unless that is empty.\<close>

definition mofs_vfs_set_basename :: "nat \<Rightarrow> byte list \<Rightarrow> byte list" where
  "mofs_vfs_set_basename name_size path =
     (let base = rev (takeWhile (\<lambda>c. c \<noteq> 47) (rev path))
      in copy_name name_size (if base \<noteq> [] then base else path))"

section \<open>Files\<close>

definition mofs_vfs_open :: "fs_file option \<Rightarrow> path \<Rightarrow> u32 \<Rightarrow> (int \<times> fs_file option) mofs" where
  "mofs_vfs_open filp fs_path flags =
     (case filp of
        None \<Rightarrow> ret (neg MOFS_EINVAL, filp)
      | Some f \<Rightarrow>
          if f_mp f = None \<or> fs_path = None then ret (neg MOFS_EINVAL, filp)
          else if flags AND FS_O_APPEND \<noteq> 0 then ret (neg MOFS_ENOTSUP, filp)
          else
            let access = (if flags AND FS_O_RDWR = FS_O_RDWR then MOFS_OFLAG_RDWR
                          else if flags AND FS_O_READ \<noteq> 0 then MOFS_OFLAG_RDONLY
                          else if flags AND FS_O_WRITE \<noteq> 0 then MOFS_OFLAG_WRONLY
                          else MOFS_OFLAG_RDONLY);
                mofs_flags = (if flags AND FS_O_CREATE \<noteq> 0 then access OR MOFS_OFLAG_CREAT else access)
            in bind (mofs_vfs_strip_prefix fs_path (f_mp f)) (\<lambda>path.
               bind (mofs_open path mofs_flags 0x1B6) (\<lambda>handle.
               if handle = None then bind mofs_vfs_neg_errno (\<lambda>n. ret (n, filp))
               else ret (0, Some (f\<lparr>filep := handle\<rparr>)))))"

definition mofs_vfs_read :: "fs_file option \<Rightarrow> bool \<Rightarrow> u32 \<Rightarrow> (int \<times> byte list) mofs" where
  "mofs_vfs_read filp no_dest nbytes =
     (case filp of
        None \<Rightarrow> ret (neg MOFS_EINVAL, [])
      | Some f \<Rightarrow>
          if filep f = None \<or> no_dest then ret (neg MOFS_EINVAL, [])
          else if f_flags f AND FS_O_READ = 0 then ret (neg MOFS_EACCES, [])
          else bind (mofs_read (filep f) nbytes) (\<lambda>(n, bytes).
               if n < 0 then bind mofs_vfs_neg_errno (\<lambda>m. ret (m, bytes)) else ret (n, bytes)))"

definition mofs_vfs_write :: "fs_file option \<Rightarrow> byte list option \<Rightarrow> u32 \<Rightarrow> int mofs" where
  "mofs_vfs_write filp src nbytes =
     (case filp of
        None \<Rightarrow> ret (neg MOFS_EINVAL)
      | Some f \<Rightarrow>
          if filep f = None \<or> src = None then ret (neg MOFS_EINVAL)
          else if f_flags f AND FS_O_WRITE = 0 then ret (neg MOFS_EACCES)
          else bind (mofs_write (filep f) src nbytes) (\<lambda>n.
               if n < 0 then mofs_vfs_neg_errno else ret n))"

definition mofs_vfs_lseek :: "fs_file option \<Rightarrow> int \<Rightarrow> int \<Rightarrow> int mofs" where
  "mofs_vfs_lseek filp off whence =
     (case filp of
        None \<Rightarrow> ret (neg MOFS_EINVAL)
      | Some f \<Rightarrow>
          if filep f = None then ret (neg MOFS_EINVAL)
          else bind (mofs_lseek (filep f) off whence) (\<lambda>pos. if pos < 0 then mofs_vfs_neg_errno else ret 0))"

definition mofs_vfs_tell :: "fs_file option \<Rightarrow> int mofs" where
  "mofs_vfs_tell filp =
     (case filp of
        None \<Rightarrow> ret (neg MOFS_EINVAL)
      | Some f \<Rightarrow>
          if filep f = None then ret (neg MOFS_EINVAL)
          else bind (mofs_lseek (filep f) 0 MOFS_SEEK_CUR) (\<lambda>pos. if pos < 0 then mofs_vfs_neg_errno else ret pos))"

definition mofs_vfs_truncate :: "fs_file option \<Rightarrow> int \<Rightarrow> int mofs" where
  "mofs_vfs_truncate filp len =
     (case filp of
        None \<Rightarrow> ret (neg MOFS_EINVAL)
      | Some f \<Rightarrow>
          if filep f = None \<or> len < 0 then ret (neg MOFS_EINVAL)
          else bind (mofs_ftruncate (filep f) len) vfs_status)"

definition mofs_vfs_close :: "fs_file option \<Rightarrow> (int \<times> fs_file option) mofs" where
  "mofs_vfs_close filp =
     (case filp of
        None \<Rightarrow> ret (neg MOFS_EINVAL, filp)
      | Some f \<Rightarrow>
          if filep f = None then ret (neg MOFS_EINVAL, filp)
          else bind (mofs_close (filep f)) (\<lambda>err. ret (neg_of_num err, Some (f\<lparr>filep := None\<rparr>))))"

definition mofs_vfs_sync :: "fs_file option \<Rightarrow> int mofs" where
  "mofs_vfs_sync filp =
     (case filp of
        None \<Rightarrow> ret (neg MOFS_EINVAL)
      | Some f \<Rightarrow> if filep f = None then ret (neg MOFS_EINVAL) else bind (mofs_fsync (filep f)) vfs_status)"

section \<open>Directories and paths\<close>

definition mofs_vfs_opendir :: "fs_dir option \<Rightarrow> path \<Rightarrow> (int \<times> fs_dir option) mofs" where
  "mofs_vfs_opendir dir fs_path =
     (case dir of
        None \<Rightarrow> ret (neg MOFS_EINVAL, dir)
      | Some d \<Rightarrow>
          if d_mp d = None \<or> fs_path = None then ret (neg MOFS_EINVAL, dir)
          else bind (mofs_vfs_strip_prefix fs_path (d_mp d)) (\<lambda>path.
               bind (mofs_opendir path) (\<lambda>handle.
               if handle = None then bind mofs_vfs_neg_errno (\<lambda>n. ret (n, dir))
               else ret (0, Some (d\<lparr>dirp := handle\<rparr>)))))"

definition entry_of :: "fs_dirent \<Rightarrow> u32 \<Rightarrow> u32 \<Rightarrow> fs_dirent" where
  "entry_of entry mode sz =
     (if mode AND MOFS_FTYPE_DIR \<noteq> 0 then entry\<lparr>en_type := FS_DIR_ENTRY_DIR, en_size := 0\<rparr>
      else entry\<lparr>en_type := FS_DIR_ENTRY_FILE, en_size := unat sz\<rparr>)"

definition mofs_vfs_readdir :: "nat \<Rightarrow> fs_dir option \<Rightarrow> fs_dirent option \<Rightarrow> (int \<times> fs_dirent option) mofs" where
  "mofs_vfs_readdir name_size dir entry =
     (case (dir, entry) of
        (Some d, Some en) \<Rightarrow>
          if dirp d = None then ret (neg MOFS_EINVAL, entry)
          else bind vfs_clear_errno (\<lambda>_.
               bind (mofs_readdir (dirp d)) (\<lambda>dirent. case dirent of
                   None \<Rightarrow>
                     bind vfs_errno (\<lambda>e.
                     if e \<noteq> None then bind mofs_vfs_neg_errno (\<lambda>n. ret (n, entry))
                     else ret (0, Some (en\<lparr>en_name := []\<rparr>)))
                 | Some de \<Rightarrow>
                     let en' = en\<lparr>en_name := copy_name name_size (cstr (d_name de))\<rparr> in
                     bind (attempt (mofs_read_inode (sint (d_inode_num de)))) (\<lambda>r. case r of
                         Inl e \<Rightarrow> ret (neg e, Some en')
                       | Inr inode \<Rightarrow> ret (0, Some (entry_of en' (ucast (i_mode inode)) (i_size inode))))))
      | _ \<Rightarrow> ret (neg MOFS_EINVAL, entry))"

definition mofs_vfs_closedir :: "fs_dir option \<Rightarrow> (int \<times> fs_dir option) mofs" where
  "mofs_vfs_closedir dir =
     (case dir of
        None \<Rightarrow> ret (neg MOFS_EINVAL, dir)
      | Some d \<Rightarrow>
          if dirp d = None then ret (neg MOFS_EINVAL, dir)
          else bind (mofs_closedir (dirp d)) (\<lambda>r. bind (vfs_status r) (\<lambda>n. ret (n, Some (d\<lparr>dirp := None\<rparr>)))))"

definition mofs_vfs_unlink :: "fs_mount option \<Rightarrow> path \<Rightarrow> int mofs" where
  "mofs_vfs_unlink mountp name =
     (if mountp = None \<or> name = None then ret (neg MOFS_EINVAL)
      else bind (mofs_vfs_strip_prefix name mountp) (\<lambda>path.
           bind (mofs_unlink path) (\<lambda>r.
           if r = 0 then ret 0
           else bind vfs_errno (\<lambda>e.
                if e = Some MOFS_EISDIR then bind (mofs_rmdir path) vfs_status else mofs_vfs_neg_errno))))"

definition mofs_vfs_rename :: "fs_mount option \<Rightarrow> path \<Rightarrow> path \<Rightarrow> int mofs" where
  "mofs_vfs_rename mountp from_path to_path =
     (if mountp = None \<or> from_path = None \<or> to_path = None then ret (neg MOFS_EINVAL)
      else bind (mofs_vfs_strip_prefix from_path mountp) (\<lambda>old_path.
           bind (mofs_vfs_strip_prefix to_path mountp) (\<lambda>new_path.
           bind (mofs_rename old_path new_path) vfs_status)))"

definition mofs_vfs_mkdir :: "fs_mount option \<Rightarrow> path \<Rightarrow> int mofs" where
  "mofs_vfs_mkdir mountp name =
     (if mountp = None \<or> name = None then ret (neg MOFS_EINVAL)
      else bind (mofs_vfs_strip_prefix name mountp) (\<lambda>path.
           bind (mofs_mkdir path 0x1FF) vfs_status))"

definition mofs_vfs_stat :: "nat \<Rightarrow> fs_mount option \<Rightarrow> path \<Rightarrow> fs_dirent option \<Rightarrow> (int \<times> fs_dirent option) mofs" where
  "mofs_vfs_stat name_size mountp path entry =
     (case entry of
        None \<Rightarrow> ret (neg MOFS_EINVAL, entry)
      | Some en \<Rightarrow>
          if mountp = None \<or> path = None then ret (neg MOFS_EINVAL, entry)
          else bind (mofs_vfs_strip_prefix path mountp) (\<lambda>mofs_path.
               bind (mofs_stat mofs_path) (\<lambda>(r, st). case st of
                   None \<Rightarrow> bind mofs_vfs_neg_errno (\<lambda>n. ret (n, entry))
                 | Some s \<Rightarrow>
                     ret (0, Some (entry_of (en\<lparr>en_name := mofs_vfs_set_basename name_size (the mofs_path)\<rparr>)
                       (st_mode s) (word_of_int (st_size s)))))))"

text \<open>The geometry of the disk, from the kernel.\<close>

definition mofs_vfs_statvfs :: "'s kernel \<Rightarrow> fs_mount option \<Rightarrow> bool \<Rightarrow> ('s, int \<times> fs_statvfs option) zprog" where
  "mofs_vfs_statvfs k mountp no_stat =
     (case mountp of
        None \<Rightarrow> ret (neg MOFS_EINVAL, None)
      | Some m \<Rightarrow> (case storage_dev m of
            None \<Rightarrow> ret (neg MOFS_EINVAL, None)
          | Some disk \<Rightarrow>
              if no_stat then ret (neg MOFS_EINVAL, None)
              else bind (kcall (\<lambda>s. case disk_access_ioctl k disk DISK_IOCTL_GET_SECTOR_COUNT s of (err, v, s') \<Rightarrow> ((err, v), s'))) (\<lambda>(err, sector_count).
                if err \<noteq> 0 then ret (neg MOFS_EIO, None)
                else bind (kcall (\<lambda>s. case disk_access_ioctl k disk DISK_IOCTL_GET_SECTOR_SIZE s of (err, v, s') \<Rightarrow> ((err, v), s'))) (\<lambda>(err, sector_size).
                  if err \<noteq> 0 then ret (neg MOFS_EIO, None)
                  else ret (0, Some \<lparr>f_bsize = sector_size, f_frsize = sector_size, f_blocks = sector_count, f_bfree = sector_count\<rparr>)))))"

section \<open>Mounting\<close>

definition mofs_mount :: "fs_mount option \<Rightarrow> int mofs" where
  "mofs_mount mount =
     (case mount of
        None \<Rightarrow> ret (neg MOFS_EINVAL)
      | Some m \<Rightarrow> (case storage_dev m of
            None \<Rightarrow> ret (neg MOFS_EINVAL)
          | Some disk \<Rightarrow>
              bind (attempt (mofs_init_core disk True 0 0)) (\<lambda>r. case r of Inl e \<Rightarrow> ret (neg e) | Inr _ \<Rightarrow> ret 0)))"

definition mofs_unmount :: "int mofs" where
  "mofs_unmount = bind (attempt mofs_fini_core) (\<lambda>r. case r of Inl e \<Rightarrow> ret (neg e) | Inr _ \<Rightarrow> ret 0)"

end
