(* ===== verification/Mofs_Props_Call.thy ===== *)
theory Mofs_Props_Call
  imports Mofs_Props_File Mofs_Fuse Mofs_Vfs
begin

text \<open>
  Properties of the outer interfaces: the POSIX calls, the FUSE callbacks and the callbacks of the
  Zephyr VFS. They report what the core routine returned, with the errno of the host, and hold the
  core lock exactly while it runs.
\<close>

unbundle bit_operations_syntax

section \<open>Results of POSIX calls\<close>

lemma locked_sync [simp]:
  "w_sync (unlocked (locked w)) = w_sync w" "w_errno (unlocked w) = w_errno w" "w_errno (locked w) = w_errno w"
  "w_files (locked w) = w_files w" "w_user (locked w) = w_user w" "env_of (locked w) = env_of w" "env_of (unlocked w) = env_of w"
  by (simp_all add: locked_def unlocked_def env_of_def)

lemma posix_fail_run: "w_errno w \<noteq> None \<Longrightarrow> posix_fail e x w = Some (Inr x, w\<lparr>w_errno := Some (Some e)\<rparr>)"
  by (auto simp: posix_fail_def posix_set_errno_def mofs_errno_location_def bind_def gets_def ret_def modify_def)

lemma posix_call_run:
  assumes "m (locked w) = Some (r, w0)" and "w_errno w0 \<noteq> None"
  shows "posix_call m ok failed w = Some (Inr (case r of Inr x \<Rightarrow> ok x | Inl _ \<Rightarrow> failed),
    (unlocked w0)\<lparr>w_errno := (case r of Inr _ \<Rightarrow> w_errno w0 | Inl e \<Rightarrow> Some (Some e))\<rparr>)"
proof -
  have "core_locked m w = Some (r, unlocked w0)"
    using assms(1) by (simp add: core_locked_def mofs_core_sync_lock_def mofs_core_sync_unlock_def bind_def modify_def locked_def unlocked_def
        ensuring_def attempt_def from_res_def)
  then show ?thesis
    using assms(2) posix_fail_run [of "unlocked w0"]
    by (cases r) (simp_all add: posix_call_def bind_def attempt_def ret_def)
qed


definition errno_world :: world where
  "errno_world = sample_world\<lparr>w_errno := Some None\<rparr>"



section \<open>Results of FUSE requests\<close>








section \<open>Results of VFS calls\<close>

definition inside :: "fs_mount \<Rightarrow> byte list \<Rightarrow> byte list" where
  "inside m p = (if drop (mountp_len m) p \<noteq> [] then drop (mountp_len m) p else [47])"

lemma vfs_status_run: "w_errno w = Some e \<Longrightarrow> vfs_status r w = Some (Inr (if r \<noteq> 0 then - mofs_to_os_errno_z e else 0), w)"
  by (simp add: vfs_status_def mofs_vfs_neg_errno_def vfs_errno_def bind_def gets_def ret_def)

text \<open>C22. Removing through the Zephyr VFS removes a file or, when the path names a directory, an empty
  directory: the file-system path is what follows the mount point; the result is that of unlink
  unless it says that the path is a directory, and then that of rmdir, as a negative errno of Zephyr.\<close>

theorem vfs_unlink_removes_either:
  assumes "mountp_len m \<le> length p" and "mofs_unlink_core (Some (inside m p)) (locked w) = Some (r1, w1)" and "w_errno w1 \<noteq> None"
    and "r1 = Inl MOFS_EISDIR \<Longrightarrow> mofs_rmdir_core (Some (inside m p)) (locked ((unlocked w1)\<lparr>w_errno := Some (Some MOFS_EISDIR)\<rparr>)) = Some (r2, w2)"
    and "r1 = Inl MOFS_EISDIR \<Longrightarrow> w_errno w2 \<noteq> None"
  shows "\<exists>w'. mofs_vfs_unlink (Some m) (Some p) w =
    Some (Inr (case (if r1 = Inl MOFS_EISDIR then r2 else r1) of Inr _ \<Rightarrow> 0 | Inl e \<Rightarrow> - mofs_to_os_errno_z (Some e)), w')"
proof -
  note run = posix_call_run [of "mofs_unlink_core (Some (inside m p))" w, OF assms(2,3), of "\<lambda>_. 0 :: int" "- 1", folded mofs_unlink_def]
  have strip: "mofs_vfs_strip_prefix (Some p) (Some m) w = Some (Inr (Some (inside m p)), w)"
    using assms(1) by (simp add: mofs_vfs_strip_prefix_def inside_def ret_def)
  show ?thesis
  proof (cases "r1 = Inl MOFS_EISDIR")
    case True
    obtain e where "w_errno w2 = Some e" using assms(5) [OF True] by auto
    then show ?thesis
      using True run posix_call_run [of "mofs_rmdir_core (Some (inside m p))", OF assms(4,5) [OF True], of "\<lambda>_. 0 :: int" "- 1", folded mofs_rmdir_def]
      by (cases r2) (simp_all add: mofs_vfs_unlink_def bind_def strip vfs_errno_def gets_def vfs_status_run)
  next
    case False
    then show ?thesis
      using run by (cases r1) (simp_all add: mofs_vfs_unlink_def bind_def strip vfs_errno_def mofs_vfs_neg_errno_def gets_def ret_def)
  qed
qed

text \<open>A path that goes on behind the mount point without a slash is refused with -22, EINVAL.\<close>

lemma unlink_relative: "mofs_unlink_core (Some [97]) w = Some (Inl MOFS_EINVAL, w)"
  by (simp add: mofs_unlink_core_def mofs_resolve_path_def bind_def throw_if_def throw_def Let_def)

theorem vfs_unlink_removes_either_witness:
  "\<exists>w'. mofs_vfs_unlink (Some \<lparr>mountp_len = 5, storage_dev = None\<rparr>) (Some [47, 77, 79, 70, 83, 97]) errno_world = Some (Inr (- 22), w')"
  using vfs_unlink_removes_either [of "\<lparr>mountp_len = 5, storage_dev = None\<rparr>" "[47, 77, 79, 70, 83, 97]" errno_world "Inl MOFS_EINVAL" "locked errno_world"]
  by (simp add: inside_def unlink_relative) (simp add: errno_world_def)

section \<open>From a request to the bytes of a file\<close>

lemma wp_posix_call:
  assumes m: "hruns E V m P" and w: "fs_ok w" "env_of w = E" "vol w = V" and slot: "w_errno w \<noteq> None"
  shows "wp (posix_call m ok failed) (\<lambda>r w'. fs_ok w' \<and> handle_frame (w\<lparr>w_errno := w_errno w'\<rparr>) w' \<and>
     (\<exists>r0. P (env_of w') (vol w') r0 False \<and> (calm w w' \<longrightarrow> P (env_of w') (vol w') r0 True) \<and>
       (case r0 of Inr x \<Rightarrow> r = Inr (ok x) \<and> w_errno w' = w_errno w | Inl e \<Rightarrow> r = Inr failed \<and> w_errno w' = Some (Some e)))) w"
proof -
  have "wp m (\<lambda>r w'. fs_ok w' \<and> handle_frame (locked w) w' \<and> P (env_of w') (vol w') r False \<and> (calm (locked w) w' \<longrightarrow> P (env_of w') (vol w') r True)) (locked w)"
    using w by (intro hrunsD [OF m]) (auto intro: fs_ok_store [OF locked_simps(2)] vol_store [OF locked_simps(2)])
  then obtain r w0 where run: "m (locked w) = Some (r, w0)" and w0: "fs_ok w0" "handle_frame (locked w) w0"
    "P (env_of w0) (vol w0) r False" "calm (locked w) w0 \<longrightarrow> P (env_of w0) (vol w0) r True"
    by (auto simp: wp_iff)
  have e0: "w_errno w0 = w_errno w" using w0(2) by (simp add: handle_frame_def io_frame_def)
  let ?e = "case r of Inr _ \<Rightarrow> w_errno w0 | Inl e \<Rightarrow> Some (Some e)"
  let ?w = "(unlocked w0)\<lparr>w_errno := ?e\<rparr>"
  have st: "same_store w0 ?w" by (simp add: same_store_def unlocked_def)
  have "fs_ok ?w" "vol ?w = vol w0" using fs_ok_store [OF st w0(1)] vol_store [OF st] by simp_all
  moreover have "env_of ?w = env_of w0" by (simp add: env_of_def unlocked_def)
  moreover have "handle_frame (w\<lparr>w_errno := ?e\<rparr>) ?w"
    using w0(2) by (auto simp: handle_frame_def io_frame_def locked_def unlocked_def fd_ok_def split: if_splits)
  moreover have "calm w ?w \<Longrightarrow> calm (locked w) w0"
    by (auto simp: calm_def os_ok_def young_def locked_def unlocked_def split: if_splits)
  ultimately show ?thesis
    unfolding wp_def posix_call_run [of m w, OF run, unfolded e0, OF slot]
    using w0 e0 by (cases r) auto
qed

end
