(* ===== verification/Mofs_Zephyr_Devio.thy ===== *)
theory Mofs_Zephyr_Devio
  imports Mofs_Zephyr
begin

text \<open>
  The device layer of the Zephyr port, \<open>src/os/zephyr/service/os_devio.c\<close>: a table of 16 open
  devices, each with a byte offset, over the sector interface of the kernel. The buffer of a
  transfer is a list: the source of a write, and for a read the destination that is filled up.
\<close>

unbundle bit_operations_syntax

section \<open>Slots\<close>

definition MOFS_DEV_NAME_MAX :: nat where "MOFS_DEV_NAME_MAX = 32"
definition MOFS_DEV_SLOT_MAX :: nat where "MOFS_DEV_SLOT_MAX = 16"
definition DISK_STATUS_NOMEDIA :: int where "DISK_STATUS_NOMEDIA = 2"
definition DISK_STATUS_WR_PROTECT :: int where "DISK_STATUS_WR_PROTECT = 4"

lemmas zephyr_consts = MOFS_DEV_NAME_MAX_def MOFS_DEV_SLOT_MAX_def DISK_STATUS_NOMEDIA_def DISK_STATUS_WR_PROTECT_def

definition zero_slot :: dev_slot where
  "zero_slot = \<lparr>sl_used = False, sl_name = [], sl_offset = 0, sl_sector_size = 0, sl_sector_count = 0, sl_open_flags = 0\<rparr>"

definition set_slot :: "nat \<Rightarrow> (dev_slot \<Rightarrow> dev_slot) \<Rightarrow> ('s, unit) zprog" where
  "set_slot i f = modify (\<lambda>z. z\<lparr>dev_slots := (dev_slots z)[i := f (dev_slots z ! i)]\<rparr>)"

text \<open>The index of the slot, or -1.\<close>

definition dev_slot_alloc :: "('s, int) zprog" where
  "dev_slot_alloc =
     bind (gets dev_slots) (\<lambda>slots.
     case first_idx (\<lambda>s. \<not> sl_used s) slots of
       None \<Rightarrow> ret (- 1)
     | Some i \<Rightarrow> bind (set_slot i (\<lambda>s. s\<lparr>sl_used := True\<rparr>)) (\<lambda>_. ret (int i)))"

definition dev_slot_free :: "int \<Rightarrow> ('s, unit) zprog" where
  "dev_slot_free slot =
     (if slot < 0 \<or> int MOFS_DEV_SLOT_MAX \<le> slot then throw MOFS_EINVAL
      else set_slot (nat slot) (\<lambda>_. zero_slot))"

definition dev_slot_get :: "int \<Rightarrow> ('s, nat) zprog" where
  "dev_slot_get fd =
     bind (gets dev_slots) (\<lambda>slots.
     if fd < 0 \<or> int MOFS_DEV_SLOT_MAX \<le> fd \<or> \<not> sl_used (slots ! nat fd) then throw MOFS_EBADF
     else ret (nat fd))"

text \<open>The product is computed in 64 bits without sign and read as a signed number.\<close>

definition dev_slot_byte_size :: "dev_slot \<Rightarrow> int" where
  "dev_slot_byte_size slot = sint (ucast (sl_sector_count slot) * ucast (sl_sector_size slot) :: u64)"

section \<open>Transfers\<close>

text \<open>\<open>sector_buf\<close> says whether the buffer for partial sectors has been allocated.\<close>

definition free_if :: "'s kernel \<Rightarrow> bool \<Rightarrow> ('s, unit) zprog" where
  "free_if k sector_buf = (if sector_buf then modify (\<lambda>z. z\<lparr>z_kernel := k_free k (z_kernel z)\<rparr>) else ret ())"

definition disk_fail :: "'s kernel \<Rightarrow> bool \<Rightarrow> int \<Rightarrow> ('s, 'a) zprog" where
  "disk_fail k sector_buf err = bind (free_if k sector_buf) (\<lambda>_. throw (kernel_error err))"

text \<open>Whole sectors at a sector boundary: the new buffer and the number of bytes.\<close>

definition transfer_sectors ::
  "'s kernel \<Rightarrow> dev_slot \<Rightarrow> bool \<Rightarrow> byte list \<Rightarrow> u32 \<Rightarrow> nat \<Rightarrow> nat \<Rightarrow> bool \<Rightarrow> ('s, byte list \<times> nat) zprog" where
  "transfer_sectors k slot is_write data sector_index remaining transferred sector_buf =
     (let ss = unat (sl_sector_size slot);
          max_sectors = unat (sl_sector_count slot - sector_index);
          nsectors = min (remaining div ss) max_sectors
      in if is_write then
           bind (kcall (disk_access_write k (sl_name slot) (chunk transferred (nsectors * ss) data) sector_index (word_of_nat nsectors))) (\<lambda>err.
           if err \<noteq> 0 then disk_fail k sector_buf err else ret (data, nsectors * ss))
         else
           bind (kcall (\<lambda>s. case disk_access_read k (sl_name slot) sector_index (word_of_nat nsectors) s of (err, bs, s') \<Rightarrow> ((err, bs), s'))) (\<lambda>(err, bs).
           if err \<noteq> 0 then disk_fail k sector_buf err else ret (overwrite transferred bs data, nsectors * ss)))"

text \<open>Part of one sector, through the sector buffer.\<close>

definition transfer_partial ::
  "'s kernel \<Rightarrow> dev_slot \<Rightarrow> bool \<Rightarrow> byte list \<Rightarrow> u32 \<Rightarrow> nat \<Rightarrow> nat \<Rightarrow> nat \<Rightarrow> bool \<Rightarrow> ('s, byte list) zprog" where
  "transfer_partial k slot is_write data sector_index sector_off n transferred sector_buf =
     bind (if sector_buf then ret ()
           else bind (kcall (k_malloc k (unat (sl_sector_size slot)))) (\<lambda>p. throw_if (p = None) MOFS_ENOMEM)) (\<lambda>_.
     bind (kcall (\<lambda>s. case disk_access_read k (sl_name slot) sector_index 1 s of (err, bs, s') \<Rightarrow> ((err, bs), s'))) (\<lambda>(err, bs).
     if err \<noteq> 0 then disk_fail k True err
     else if is_write then
       bind (kcall (disk_access_write k (sl_name slot) (overwrite sector_off (chunk transferred n data) bs) sector_index 1)) (\<lambda>err.
       if err \<noteq> 0 then disk_fail k True err else ret data)
     else ret (overwrite transferred (chunk sector_off n bs) data)))"

text \<open>One round of the loop: the new buffer, the number of bytes and whether there is a sector buffer.\<close>

definition transfer_step ::
  "'s kernel \<Rightarrow> dev_slot \<Rightarrow> bool \<Rightarrow> byte list \<Rightarrow> int \<Rightarrow> nat \<Rightarrow> nat \<Rightarrow> bool \<Rightarrow> ('s, byte list \<times> nat \<times> bool) zprog" where
  "transfer_step k slot is_write data cur remaining transferred sector_buf =
     (let ss = unat (sl_sector_size slot);
          sector_index = word_of_int (cur div int ss);
          sector_off = unat (word_of_int (cur mod int ss) :: u32);
          n = min (ss - sector_off) remaining
      in if sector_off = 0 \<and> n = ss then
           bind (transfer_sectors k slot is_write data sector_index remaining transferred sector_buf) (\<lambda>(data', m).
           ret (data', m, sector_buf))
         else
           bind (transfer_partial k slot is_write data sector_index sector_off n transferred sector_buf) (\<lambda>data'.
           ret (data', n, True)))"

partial_function (option) transfer_loop ::
  "'s kernel \<Rightarrow> dev_slot \<Rightarrow> bool \<Rightarrow> byte list \<Rightarrow> int \<Rightarrow> nat \<Rightarrow> nat \<Rightarrow> bool \<Rightarrow> ('s, byte list \<times> int \<times> nat) zprog" where
  "transfer_loop k slot is_write data cur remaining transferred sector_buf z =
     (if remaining = 0 then bind (free_if k sector_buf) (\<lambda>_. ret (data, cur, transferred)) z
      else bind (transfer_step k slot is_write data cur remaining transferred sector_buf) (\<lambda>p.
        case p of (data', m, sector_buf') \<Rightarrow>
          transfer_loop k slot is_write data' (cur + int m) (remaining - m) (transferred + m) sector_buf') z)"

text \<open>The end of a transfer: the offset moves and a synchronous write is flushed.\<close>

definition finish_transfer :: "'s kernel \<Rightarrow> nat \<Rightarrow> dev_slot \<Rightarrow> bool \<Rightarrow> byte list \<times> int \<times> nat \<Rightarrow> ('s, byte list \<times> nat) zprog" where
  "finish_transfer k i slot is_write res =
     (case res of (buf, cur, transferred) \<Rightarrow>
        bind (set_slot i (\<lambda>s. s\<lparr>sl_offset := cur\<rparr>)) (\<lambda>_.
        if is_write \<and> sl_open_flags slot AND MOFS_IO_OPEN_FLAG_SYNC \<noteq> 0 then
          bind (kcall (\<lambda>s. case disk_access_ioctl k (sl_name slot) DISK_IOCTL_CTRL_SYNC s of (err, v, s') \<Rightarrow> (err, s'))) (\<lambda>err.
          if err \<noteq> 0 then throw (kernel_error err) else ret (buf, transferred))
        else ret (buf, transferred)))"

text \<open>The buffer and the number of bytes transferred, for the slot \<open>i\<close>.\<close>

definition dev_transfer :: "'s kernel \<Rightarrow> nat \<Rightarrow> byte list \<Rightarrow> u32 \<Rightarrow> bool \<Rightarrow> ('s, byte list \<times> nat) zprog" where
  "dev_transfer k i buf count is_write =
     bind (gets (\<lambda>z. dev_slots z ! i)) (\<lambda>slot.
     let dev_size = dev_slot_byte_size slot;
         cur = sl_offset slot
     in if sl_sector_size slot = 0 then throw MOFS_EIO
        else if dev_size \<le> cur \<or> count = 0 then ret (buf, 0)
        else
          let remaining = (if dev_size - cur < uint count then unat (word_of_int (dev_size - cur) :: u32) else unat count)
          in bind (transfer_loop k slot is_write buf cur remaining 0 False) (finish_transfer k i slot is_write))"

section \<open>The device interface\<close>

text \<open>\<open>dev_open\<close> returns the index it stores in \<open>*fd\<close>.\<close>

definition ioctl_err :: "'s kernel \<Rightarrow> byte list \<Rightarrow> disk_ioctl \<Rightarrow> ('s, int \<times> u32) zprog" where
  "ioctl_err k name cmd = kcall (\<lambda>s. case disk_access_ioctl k name cmd s of (err, v, s') \<Rightarrow> ((err, v), s'))"

text \<open>The part of \<open>dev_open\<close> that runs with a slot; whenever it fails the slot is released.\<close>

definition dev_open_slot :: "'s kernel \<Rightarrow> byte list \<Rightarrow> int \<Rightarrow> int \<Rightarrow> ('s, int) zprog" where
  "dev_open_slot k path oflag slot =
     bind (kcall (disk_access_status k path)) (\<lambda>status.
     bind (throw_if (status AND DISK_STATUS_NOMEDIA \<noteq> 0) MOFS_ENOENT) (\<lambda>_.
     bind (ioctl_err k path DISK_IOCTL_CTRL_INIT) (\<lambda>(err, _).
     bind (throw_if (err \<noteq> 0) (kernel_error err)) (\<lambda>_.
     bind (kcall (disk_access_status k path)) (\<lambda>status.
     bind (throw_if (status AND DISK_STATUS_NOMEDIA \<noteq> 0) MOFS_ENOENT) (\<lambda>_.
     bind (throw_if (status AND DISK_STATUS_WR_PROTECT \<noteq> 0 \<and> oflag AND MOFS_IO_OPEN_FLAG_WRONLY \<noteq> 0) MOFS_EROFS) (\<lambda>_.
     bind (ioctl_err k path DISK_IOCTL_GET_SECTOR_SIZE) (\<lambda>(err, ss).
     bind (throw_if (err \<noteq> 0) (kernel_error err)) (\<lambda>_.
     bind (set_slot (nat slot) (\<lambda>s. s\<lparr>sl_sector_size := ss\<rparr>)) (\<lambda>_.
     bind (ioctl_err k path DISK_IOCTL_GET_SECTOR_COUNT) (\<lambda>(err, sc).
     bind (throw_if (err \<noteq> 0) (kernel_error err)) (\<lambda>_.
     bind (set_slot (nat slot) (\<lambda>s. s\<lparr>sl_sector_count := sc, sl_name := take (MOFS_DEV_NAME_MAX - 1) path,
        sl_open_flags := oflag, sl_offset := 0\<rparr>)) (\<lambda>_.
     ret slot)))))))))))))"

definition dev_open_z :: "'s kernel \<Rightarrow> byte list option \<Rightarrow> int \<Rightarrow> ('s, int) zprog" where
  "dev_open_z k path oflag =
     (let known_flags = MOFS_IO_OPEN_FLAG_RDWR OR MOFS_IO_OPEN_FLAG_SYNC OR MOFS_IO_OPEN_FLAG_DIRECT
      in case path of
          None \<Rightarrow> throw MOFS_EINVAL
        | Some p \<Rightarrow>
            if oflag AND NOT known_flags \<noteq> 0 \<or> oflag AND MOFS_IO_OPEN_FLAG_RDWR = 0 then throw MOFS_EINVAL
            else
              bind dev_slot_alloc (\<lambda>slot.
              if slot < 0 then throw MOFS_EMFILE
              else on_error (dev_open_slot k p oflag slot) (dev_slot_free slot)))"

definition dev_write_z :: "'s kernel \<Rightarrow> int \<Rightarrow> byte list option \<Rightarrow> u32 \<Rightarrow> ('s, u32) zprog" where
  "dev_write_z k fd buf count =
     (case buf of
        None \<Rightarrow> throw MOFS_EINVAL
      | Some src \<Rightarrow>
          bind (dev_slot_get fd) (\<lambda>i.
          bind (gets (\<lambda>z. dev_slots z ! i)) (\<lambda>slot.
          bind (throw_if (sl_open_flags slot AND MOFS_IO_OPEN_FLAG_WRONLY = 0) MOFS_EBADF) (\<lambda>_.
          bind (dev_transfer k i src count True) (\<lambda>(_, n). ret (word_of_nat n))))))"

text \<open>\<open>dest\<close> is the buffer as the caller gives it; the result is the part of it that has been filled.\<close>

definition dev_read_z :: "'s kernel \<Rightarrow> int \<Rightarrow> byte list option \<Rightarrow> u32 \<Rightarrow> ('s, byte list) zprog" where
  "dev_read_z k fd buf count =
     (case buf of
        None \<Rightarrow> throw MOFS_EINVAL
      | Some dest \<Rightarrow>
          bind (dev_slot_get fd) (\<lambda>i.
          bind (gets (\<lambda>z. dev_slots z ! i)) (\<lambda>slot.
          bind (throw_if (sl_open_flags slot AND MOFS_IO_OPEN_FLAG_RDONLY = 0) MOFS_EBADF) (\<lambda>_.
          bind (dev_transfer k i dest count False) (\<lambda>(dest', n). ret (take n dest'))))))"

definition dev_fsync_z :: "'s kernel \<Rightarrow> int \<Rightarrow> ('s, unit) zprog" where
  "dev_fsync_z k fd =
     bind (dev_slot_get fd) (\<lambda>i.
     bind (gets (\<lambda>z. dev_slots z ! i)) (\<lambda>slot.
     bind (ioctl_err k (sl_name slot) DISK_IOCTL_CTRL_SYNC) (\<lambda>(err, _).
     throw_if (err \<noteq> 0) (kernel_error err))))"

definition dev_close_z :: "'s kernel \<Rightarrow> int \<Rightarrow> ('s, unit) zprog" where
  "dev_close_z k fd =
     bind (dev_slot_get fd) (\<lambda>i.
     bind (gets (\<lambda>z. dev_slots z ! i)) (\<lambda>slot.
     bind (ioctl_err k (take (MOFS_DEV_NAME_MAX - 1) (sl_name slot)) DISK_IOCTL_CTRL_DEINIT) (\<lambda>(err, _).
     bind (ignore (dev_slot_free fd)) (\<lambda>_.
     throw_if (err \<noteq> 0) (kernel_error err)))))"

text \<open>A sum of signed 64-bit numbers; an overflow is undefined.\<close>

definition add64 :: "int \<Rightarrow> int \<Rightarrow> ('s, int) zprog" where
  "add64 a b = (if - (2 ^ 63) \<le> a + b \<and> a + b < 2 ^ 63 then ret (a + b) else diverge)"

definition dev_lseek_z :: "int \<Rightarrow> int \<Rightarrow> int \<Rightarrow> ('s, int) zprog" where
  "dev_lseek_z fd offset whence =
     bind (dev_slot_get fd) (\<lambda>i.
     bind (gets (\<lambda>z. dev_slots z ! i)) (\<lambda>slot.
     let size = dev_slot_byte_size slot in
     bind (if whence = MOFS_SEEK_SET then ret offset
           else if whence = MOFS_SEEK_CUR then add64 (sl_offset slot) offset
           else if whence = MOFS_SEEK_END then add64 size offset
           else throw MOFS_EINVAL) (\<lambda>new_offset.
     bind (throw_if (new_offset < 0 \<or> size < new_offset) MOFS_EINVAL) (\<lambda>_.
     bind (set_slot i (\<lambda>s. s\<lparr>sl_offset := new_offset\<rparr>)) (\<lambda>_. ret new_offset)))))"

definition dev_get_size_z :: "int \<Rightarrow> ('s, u64) zprog" where
  "dev_get_size_z fd =
     bind (dev_slot_get fd) (\<lambda>i.
     bind (gets (\<lambda>z. dev_slots z ! i)) (\<lambda>slot. ret (word_of_int (dev_slot_byte_size slot))))"

section \<open>Slots are neither lost nor shared\<close>

text \<open>The table as the code keeps it: 16 entries, and those not in use are zero.\<close>

definition slots_ok :: "'s zephyr \<Rightarrow> bool" where
  "slots_ok z = (length (dev_slots z) = MOFS_DEV_SLOT_MAX \<and> (\<forall>s\<in>set (dev_slots z). sl_used s \<or> s = zero_slot))"

lemma wp_set_slot [wp_simps]:
  "wp (set_slot i f) Q z = Q (Inr ()) (z\<lparr>dev_slots := (dev_slots z)[i := f (dev_slots z ! i)]\<rparr>)"
  by (simp add: set_slot_def wp_simps)

lemma wp_ioctl_err [wp_simps]:
  "wp (ioctl_err k name cmd) Q z = (case disk_access_ioctl k name cmd (z_kernel z) of (err, v, s) \<Rightarrow> Q (Inr (err, v)) (z\<lparr>z_kernel := s\<rparr>))"
  by (simp add: ioctl_err_def wp_simps split: prod.splits)

lemma slots_ok_update: "slots_ok z \<Longrightarrow> sl_used s \<Longrightarrow> dev_slots z' = (dev_slots z)[i := s] \<Longrightarrow> slots_ok z'"
  by (auto simp: slots_ok_def dest!: set_update_subset_insert [THEN subsetD])

lemma slots_ok_same: "slots_ok z \<Longrightarrow> dev_slots z' = dev_slots z \<Longrightarrow> slots_ok z'"
  by (simp add: slots_ok_def)

lemma wp_open_slot:
  assumes "nat slot < length (dev_slots z)"
  shows "wp (dev_open_slot k path oflag slot) (\<lambda>r z'. \<exists>s. dev_slots z' = (dev_slots z)[nat slot := s] \<and>
    (r = Inr slot \<and> sl_used s = sl_used (dev_slots z ! nat slot) \<and> sl_offset s = 0 \<and> sl_open_flags s = oflag \<and>
       sl_name s = take 31 path \<or> (\<exists>e. r = Inl e))) z"
  using assms
  by (auto simp: dev_open_slot_def wp_simps zephyr_consts list_update_same_conv split: prod.splits intro: exI [of _ "dev_slots z ! nat slot"])

lemma wp_dev_open_z:
  assumes ok: "slots_ok z"
  shows "wp (dev_open_z k path oflag) (\<lambda>r z'. slots_ok z' \<and> (case r of
      Inl e \<Rightarrow> dev_slots z' = dev_slots z
    | Inr fd \<Rightarrow> \<exists>i s. fd = int i \<and> first_idx (\<lambda>s. \<not> sl_used s) (dev_slots z) = Some i \<and> dev_slots z' = (dev_slots z)[i := s] \<and>
        sl_used s \<and> sl_offset s = 0 \<and> sl_open_flags s = oflag \<and> (\<exists>p. path = Some p \<and> sl_name s = take 31 p))) z"
proof (cases path)
  case None
  then show ?thesis using ok by (simp add: dev_open_z_def wp_simps)
next
  case (Some p)
  show ?thesis
  proof (cases "first_idx (\<lambda>s. \<not> sl_used s) (dev_slots z)")
    case None
    then show ?thesis using ok Some by (simp add: dev_open_z_def dev_slot_alloc_def wp_simps Let_def)
  next
    case (Some i)
    note i = first_idx_SomeD [OF Some]
    have l: "length (dev_slots z) = 16" and zero: "dev_slots z ! i = zero_slot"
      using ok i by (auto simp: slots_ok_def zephyr_consts dest: nth_mem)
    let ?z = "z\<lparr>dev_slots := (dev_slots z)[i := (dev_slots z ! i)\<lparr>sl_used := True\<rparr>]\<rparr>"
    have "wp (on_error (dev_open_slot k p oflag (int i)) (dev_slot_free (int i))) (\<lambda>r z'. case r of
        Inl e \<Rightarrow> dev_slots z' = dev_slots z
      | Inr fd \<Rightarrow> \<exists>s. fd = int i \<and> dev_slots z' = (dev_slots z)[i := s] \<and> sl_used s \<and> sl_offset s = 0 \<and>
          sl_open_flags s = oflag \<and> sl_name s = take 31 p) ?z"
      unfolding on_error_def wp_simps
      using i l zero
      by (intro wp_mono [OF wp_open_slot])
        (auto simp: dev_slot_free_def wp_simps zephyr_consts list_update_same_conv split: sum.splits)
    then show ?thesis
      using Some \<open>path = Some p\<close> ok i l
      by (auto simp: dev_open_z_def dev_slot_alloc_def wp_simps Let_def elim!: wp_mono split: sum.splits
          intro: slots_ok_update [OF ok] slots_ok_same [OF ok])
  qed
qed

section \<open>Transfers move bytes\<close>

definition disk_contract :: "'s kernel \<Rightarrow> byte list \<Rightarrow> nat \<Rightarrow> nat \<Rightarrow> ('s \<Rightarrow> byte list) \<Rightarrow> bool" where
  "disk_contract k name ss sc img = (
     (\<forall>s. length (img s) = sc * ss) \<and>
     (\<forall>s sec n err bs s'. unat sec + unat n \<le> sc \<and> disk_access_read k name sec n s = (err, bs, s') \<longrightarrow>
        img s' = img s \<and> (err = 0 \<longrightarrow> bs = chunk (unat sec * ss) (unat n * ss) (img s))) \<and>
     (\<forall>s sec n buf err s'. unat sec + unat n \<le> sc \<and> length buf = unat n * ss \<and> disk_access_write k name buf sec n s = (err, s') \<longrightarrow>
        (\<exists>new. length new = length buf \<and> img s' = overwrite (unat sec * ss) new (img s) \<and> (err = 0 \<longrightarrow> new = buf))) \<and>
     (\<forall>cmd s err v s'. disk_access_ioctl k name cmd s = (err, v, s') \<longrightarrow> img s' = img s) \<and>
     (\<forall>sz s p s'. k_malloc k sz s = (p, s') \<longrightarrow> img s' = img s) \<and>
     (\<forall>s. img (k_free k s) = img s))"

lemma disk_contractD:
  assumes "disk_contract k name ss sc img"
  shows "length (img s) = sc * ss"
    and "unat sec + unat n \<le> sc \<Longrightarrow> disk_access_read k name sec n s = (err, bs, s') \<Longrightarrow> img s' = img s"
    and "unat sec + unat n \<le> sc \<Longrightarrow> disk_access_read k name sec n s = (0, bs, s') \<Longrightarrow> bs = chunk (unat sec * ss) (unat n * ss) (img s)"
    and "unat sec + unat n \<le> sc \<Longrightarrow> length buf = unat n * ss \<Longrightarrow> disk_access_write k name buf sec n s = (err, s') \<Longrightarrow>
      \<exists>new. length new = length buf \<and> img s' = overwrite (unat sec * ss) new (img s) \<and> (err = 0 \<longrightarrow> new = buf)"
    and "disk_access_ioctl k name cmd s = (err, v, s') \<Longrightarrow> img s' = img s"
    and "k_malloc k sz s = (p, s') \<Longrightarrow> img s' = img s"
    and "img (k_free k s) = img s"
  using assms unfolding disk_contract_def by - (elim conjE; fast)+

lemma overwrite_part:
  assumes "b + length p \<le> n" and "a + n \<le> length xs"
  shows "overwrite a (overwrite b p (chunk a n xs)) xs = overwrite (a + b) p xs"
  using assms by (intro nth_equalityI) (auto simp: nth_overwrite nth_chunk)

text \<open>The slot describes a disk of \<open>sc\<close> sectors of \<open>ss\<close> bytes.\<close>

definition slot_on :: "dev_slot \<Rightarrow> byte list \<Rightarrow> nat \<Rightarrow> nat \<Rightarrow> bool" where
  "slot_on slot name ss sc = (sl_name slot = name \<and> unat (sl_sector_size slot) = ss \<and> unat (sl_sector_count slot) = sc \<and>
     0 < ss \<and> sc * ss < 2 ^ 63 \<and> 0 \<le> sl_offset slot)"

text \<open>The sectors that hold none of the bytes from \<open>a\<close> to \<open>b\<close> are the same.\<close>

definition other_sectors :: "nat \<Rightarrow> nat \<Rightarrow> nat \<Rightarrow> byte list \<Rightarrow> byte list \<Rightarrow> bool" where
  "other_sectors ss a b old new = (length new = length old \<and>
     (\<forall>j. (j + 1) * ss \<le> length old \<and> ((j + 1) * ss \<le> a \<or> b \<le> j * ss) \<longrightarrow> chunk (j * ss) ss new = chunk (j * ss) ss old))"

lemma other_sectors_refl [simp]: "other_sectors ss a b xs xs"
  by (simp add: other_sectors_def)

lemma other_sectors_trans:
  "other_sectors ss a b xs ys \<Longrightarrow> other_sectors ss a' b' ys zs \<Longrightarrow> a \<le> a' \<Longrightarrow> b' \<le> b \<Longrightarrow> other_sectors ss a b xs zs"
  by (auto simp: other_sectors_def)

lemma other_sectors_overwrite:
  assumes "a \<le> c" and "c + length p \<le> b" and "c + length p \<le> length xs"
  shows "other_sectors ss a b xs (overwrite c p xs)"
  using assms by (auto simp: other_sectors_def intro!: chunk_overwrite_disjoint)

lemma other_sectors_write:
  assumes ss: "0 < ss" and a: "a < (i + 1) * ss" and b: "(i + n) * ss < b + ss" and l: "length new = n * ss" "(i + n) * ss \<le> length xs"
  shows "other_sectors ss a b xs (overwrite (i * ss) new xs)"
  unfolding other_sectors_def
proof (intro conjI allI impI, goal_cases)
  case 1
  show ?case using l by (simp add: algebra_simps)
next
  case (2 j)
  have "j < i \<or> i + n \<le> j"
  proof (rule disjE [OF conjunct2 [OF 2]])
    assume "(j + 1) * ss \<le> a"
    then have "(j + 1) * ss < (i + 1) * ss" using a by (rule le_less_trans)
    then show ?thesis using ss by (simp only: mult_less_cancel2) simp
  next
    assume "b \<le> j * ss"
    then have "(i + n) * ss < (j + 1) * ss" using b by simp
    then show ?thesis using ss by (simp only: mult_less_cancel2) simp
  qed
  then have "(j + 1) * ss \<le> i * ss \<or> (i + n) * ss \<le> j * ss" using mult_le_mono1 [of "j + 1" i ss] mult_le_mono1 [of "i + n" j ss] by auto
  then show ?case using 2 l by (intro chunk_overwrite_disjoint) (auto simp: algebra_simps)
qed

lemma sector_place:
  assumes on: "slot_on slot name ss sc" and c: "c < sc * ss"
  shows "unat (word_of_int (int c div int ss) :: u32) = c div ss" and "unat (word_of_int (int c mod int ss) :: u32) = c mod ss"
    and "c div ss < sc"
proof -
  have ss: "0 < ss" "ss < 2 ^ 32" "sc < 2 ^ 32"
    using on unsigned_less [of "sl_sector_size slot"] unsigned_less [of "sl_sector_count slot"] by (auto simp: slot_on_def)
  show d: "c div ss < sc" using c ss(1) by (simp add: div_less_iff_less_mult)
  have e: "int c div int ss = int (c div ss)" "int c mod int ss = int (c mod ss)" by (simp_all add: zdiv_int zmod_int)
  have m: "c mod ss < 2 ^ 32" using ss by (meson mod_less_divisor order.strict_trans)
  show "unat (word_of_int (int c div int ss) :: u32) = c div ss"
    unfolding e of_int_of_nat_eq using d ss(3) by (simp add: unat_word_of_nat)
  show "unat (word_of_int (int c mod int ss) :: u32) = c mod ss"
    unfolding e of_int_of_nat_eq using m by (simp add: unat_word_of_nat)
qed

lemma sector_run:
  assumes on: "slot_on slot name ss sc" and fit: "c + remaining \<le> sc * ss" and whole: "c mod ss = 0" and c: "c < sc * ss"
  shows "min (remaining div ss) (unat (sl_sector_count slot - word_of_int (int c div int ss))) = remaining div ss"
proof -
  note p = sector_place [OF on c]
  have ss: "0 < ss" and sc: "unat (sl_sector_count slot) = sc" using on by (auto simp: slot_on_def)
  have ceq: "c div ss * ss = c" using whole by auto
  then have "c div ss * ss + remaining \<le> sc * ss" using fit by simp
  then have "remaining \<le> (sc - c div ss) * ss" by (simp add: diff_mult_distrib)
  then have "remaining div ss \<le> sc - c div ss" using div_le_mono [of remaining "(sc - c div ss) * ss" ss] ss by simp
  moreover have "unat (sl_sector_count slot - word_of_int (int c div int ss)) = sc - c div ss"
    using p sc by (subst unat_sub) (simp_all add: word_le_nat_alt)
  ultimately show ?thesis by simp
qed

text \<open>A step leaves the port alone and moves at least one byte.\<close>

abbreviation kernel_only :: "'s zephyr \<Rightarrow> 's zephyr \<Rightarrow> bool" where
  "kernel_only z z' \<equiv> dev_slots z' = dev_slots z \<and> z_core_sync_initialized z' = z_core_sync_initialized z \<and>
     z_user z' = z_user z \<and> z_errno z' = z_errno z"

lemma wp_disk_fail [wp_simps]:
  "wp (disk_fail k b err) Q z = Q (Inl (kernel_error err)) (if b then z\<lparr>z_kernel := k_free k (z_kernel z)\<rparr> else z)"
  by (simp add: disk_fail_def free_if_def wp_simps)

lemma wp_transfer_sectors:
  assumes k: "disk_contract k name ss sc img" and on: "slot_on slot name ss sc" and m: "m = remaining div ss * ss"
    and c: "c < sc * ss" "c mod ss = 0" and fit: "c + remaining \<le> sc * ss" and data: "transferred + remaining \<le> length data"
    and small: "remaining < 2 ^ 32" and rem: "ss \<le> remaining"
  shows "wp (transfer_sectors k slot is_write data (word_of_int (int c div int ss)) remaining transferred sector_buf) (\<lambda>r z'.
      kernel_only z z' \<and> (let old = img (z_kernel z); new = img (z_kernel z') in case r of
        Inl e \<Rightarrow> if is_write then other_sectors ss c (c + remaining) old new else new = old
      | Inr (data', m') \<Rightarrow> m' = m \<and> (if is_write then data' = data \<and> new = overwrite c (chunk transferred m data) old
          else new = old \<and> data' = overwrite transferred (chunk c m old) data))) z"
proof -
  note p = sector_place [OF on c(1)] and run = sector_run [OF on fit c(2,1)]
  have s: "sl_name slot = name" "unat (sl_sector_size slot) = ss" "0 < ss" using on by (auto simp: slot_on_def)
  have ceq: "c div ss * ss = c" using c(2) by auto
  let ?n = "remaining div ss"
  have n: "unat (word_of_nat ?n :: u32) = ?n" using small by (intro unat_word_of_nat) (meson div_le_dividend le_less_trans)
  have le: "m \<le> remaining" by (simp add: m)
  have "c div ss * ss + ?n * ss \<le> sc * ss" using le fit unfolding m ceq by linarith
  then have "(c div ss + ?n) * ss \<le> sc * ss" by (simp add: distrib_right)
  then have upto: "c div ss + ?n \<le> sc" using s(3) by (simp only: mult_le_cancel2)
  note d = disk_contractD [OF k]
  note rd = d(2) [of "word_of_int (int c div int ss)" "word_of_nat ?n", unfolded p n, OF upto] d(3) [of "word_of_int (int c div int ss)" "word_of_nat ?n", unfolded p n, OF upto]
  note wr = d(4) [of "word_of_int (int c div int ss)" "word_of_nat ?n", unfolded p n, OF upto]
  have l: "length (chunk transferred m data) = ?n * ss" unfolding m [symmetric] by (rule length_chunk_full) (use le data in linarith)
  have other: "other_sectors ss c (c + remaining) old (overwrite (c div ss * ss) new old)" if "length new = ?n * ss" "length old = sc * ss" for old new
  proof (rule other_sectors_write [where n = ?n])
    show "c < (c div ss + 1) * ss" using s(3) ceq by simp
    show "(c div ss + ?n) * ss < c + remaining + ss" unfolding distrib_right ceq m [symmetric] using le s(3) by linarith
    show "(c div ss + ?n) * ss \<le> length old" using mult_le_mono1 [OF upto, of ss] that(2) by simp
  qed (use s(3) that(1) in simp_all)
  define i :: u32 where "i = word_of_int (int c div int ss)"
  define n :: u32 where "n = word_of_nat ?n"
  obtain err bs s1 where r: "disk_access_read k name i n (z_kernel z) = (err, bs, s1)" by (metis prod_cases3)
  obtain err' s2 where w: "disk_access_write k name (chunk transferred m data) i n (z_kernel z) = (err', s2)" by fastforce
  have s1: "img s1 = img (z_kernel z)" "err = 0 \<Longrightarrow> bs = chunk c m (img (z_kernel z))"
    using rd r ceq by (auto simp: i_def n_def m)
  have s2: "if err' = 0 then img s2 = overwrite c (chunk transferred m data) (img (z_kernel z))
      else other_sectors ss c (c + remaining) (img (z_kernel z)) (img s2)"
    using wr [OF l w [unfolded i_def n_def]] l other d(1) ceq by auto
  show ?thesis
    using s1 s2 d(7)
    by (cases "err = 0"; cases "err' = 0"; cases is_write)
      (simp_all add: transfer_sectors_def s run Let_def wp_simps r [unfolded i_def n_def] w [unfolded i_def n_def] m [symmetric])
qed

lemma wp_transfer_partial:
  assumes k: "disk_contract k name ss sc img" and on: "slot_on slot name ss sc" and n: "n = min (ss - c mod ss) remaining"
    and c: "c < sc * ss" and fit: "c + remaining \<le> sc * ss" and data: "transferred + remaining \<le> length data" and rem: "0 < remaining"
  shows "wp (transfer_partial k slot is_write data (word_of_int (int c div int ss)) (c mod ss) n transferred sector_buf) (\<lambda>r z'.
      kernel_only z z' \<and> (let old = img (z_kernel z); new = img (z_kernel z') in case r of
        Inl e \<Rightarrow> if is_write then other_sectors ss c (c + remaining) old new else new = old
      | Inr data' \<Rightarrow> (if is_write then data' = data \<and> new = overwrite c (chunk transferred n data) old
          else new = old \<and> data' = overwrite transferred (chunk c n old) data))) z"
proof -
  note p = sector_place [OF on c]
  have s: "sl_name slot = name" "unat (sl_sector_size slot) = ss" "0 < ss" using on by (auto simp: slot_on_def)
  have ceq: "c div ss * ss + c mod ss = c" by simp
  have m: "c mod ss < ss" using s(3) by simp
  then have mn: "c mod ss + n \<le> ss" by (simp add: n)
  have upto: "c div ss + 1 \<le> sc" using p(3) by simp
  then have blk: "c div ss * ss + ss \<le> sc * ss" using mult_le_mono1 [of "c div ss + 1" sc ss] by simp
  note d = disk_contractD [OF k]
  note rd = d(2) [of "word_of_int (int c div int ss)" 1, unfolded p unat_1, OF upto] d(3) [of "word_of_int (int c div int ss)" 1, unfolded p unat_1, OF upto]
  note wr = d(4) [of "word_of_int (int c div int ss)" 1, unfolded p unat_1, OF upto]
  have l: "length (chunk transferred n data) = n" using data by (simp add: n)
  have sec: "length (overwrite (c mod ss) (chunk transferred n data) (chunk (c div ss * ss) ss (img s))) = ss" for s
    using mn l d(1) blk by simp
  have put: "overwrite (c div ss * ss) (overwrite (c mod ss) (chunk transferred n data) (chunk (c div ss * ss) ss (img s))) (img s) =
      overwrite c (chunk transferred n data) (img s)" for s
    using overwrite_part [of "c mod ss" "chunk transferred n data" ss "c div ss * ss" "img s"] mn l d(1) blk by simp
  have got: "chunk (c mod ss) n (chunk (c div ss * ss) ss (img s)) = chunk c n (img s)" for s
    using mn by (simp add: chunk_chunk)
  have other: "other_sectors ss c (c + remaining) old (overwrite (c div ss * ss) new old)" if "length new = ss" "length old = sc * ss" for old new
    using that s(3) blk rem ceq m
    by (intro other_sectors_write [where n = 1], unfold distrib_right mult_1) linarith+
  define i :: u32 where "i = word_of_int (int c div int ss)"
  obtain p0 s0 where mal: "k_malloc k ss (z_kernel z) = (p0, s0)" by fastforce
  define s1 where "s1 = (if sector_buf then z_kernel z else s0)"
  obtain err bs s2 where r: "disk_access_read k name i 1 s1 = (err, bs, s2)" by (metis prod_cases3)
  obtain err' s3 where w: "disk_access_write k name (overwrite (c mod ss) (chunk transferred n data) bs) i 1 s2 = (err', s3)" by fastforce
  have s0: "img s0 = img (z_kernel z)" by (rule d(6) [OF mal])
  then have s1: "img s1 = img (z_kernel z)" by (simp add: s1_def)
  have s2: "img s2 = img s1" "err = 0 \<Longrightarrow> bs = chunk (c div ss * ss) ss (img s1)" using rd r by (auto simp: i_def)
  have s3: "if err' = 0 then img s3 = overwrite c (chunk transferred n data) (img s1) else other_sectors ss c (c + remaining) (img s1) (img s3)"
    if e: "err = 0"
  proof -
    have b: "length (overwrite (c mod ss) (chunk transferred n data) bs) = ss" using sec s2(2) [OF e] by simp
    obtain new where "length new = ss" "img s3 = overwrite (c div ss * ss) new (img s1)" "err' = 0 \<longrightarrow> new = overwrite (c mod ss) (chunk transferred n data) bs"
      using wr [OF _ w [unfolded i_def]] b s2(1) by auto
    then show ?thesis using other d(1) put s2(2) [OF e] by auto
  qed
  show ?thesis
    unfolding transfer_partial_def s i_def [symmetric]
    using r w s0 s1 s2 s3 d(7) got
    by (cases sector_buf; cases p0; cases "err = 0"; cases "err' = 0"; cases is_write)
      (simp_all add: Let_def wp_simps mal s1_def)
qed

lemma overwrite_chunks:
  assumes "m \<le> r" and "t + r \<le> length src" and "c + r \<le> length buf"
  shows "overwrite (c + m) (chunk (t + m) (r - m) src) (overwrite c (chunk t m src) buf) = overwrite c (chunk t r src) buf"
proof -
  have "chunk t m src @ chunk (t + m) (r - m) src = chunk t r src"
    using assms(1) take_add [of m "r - m" "drop t src"] by (simp add: chunk_def add.commute)
  then show ?thesis using overwrite_append [of c "chunk t m src" "chunk (t + m) (r - m) src" buf] assms by simp
qed

text \<open>One round: at least one byte is moved.\<close>

lemma wp_transfer_step:
  assumes k: "disk_contract k name ss sc img" and on: "slot_on slot name ss sc" and c: "c < sc * ss"
    and fit: "c + remaining \<le> sc * ss" and data: "transferred + remaining \<le> length data" and small: "remaining < 2 ^ 32" and rem: "0 < remaining"
  shows "wp (transfer_step k slot is_write data (int c) remaining transferred sector_buf) (\<lambda>r z'.
      kernel_only z z' \<and> (let old = img (z_kernel z); new = img (z_kernel z') in case r of
        Inl e \<Rightarrow> if is_write then other_sectors ss c (c + remaining) old new else new = old
      | Inr (data', m, b) \<Rightarrow> 0 < m \<and> m \<le> remaining \<and> (if is_write then data' = data \<and> new = overwrite c (chunk transferred m data) old
          else new = old \<and> data' = overwrite transferred (chunk c m old) data))) z"
proof -
  have s: "unat (sl_sector_size slot) = ss" "0 < ss" using on by (auto simp: slot_on_def)
  note p = sector_place [OF on c]
  show ?thesis
  proof (cases "c mod ss = 0 \<and> ss \<le> remaining")
    case True
    have m: "0 < remaining div ss * ss" "remaining div ss * ss \<le> remaining" using True s(2) by (simp_all add: div_greater_zero_iff)
    have eq: "transfer_step k slot is_write data (int c) remaining transferred sector_buf =
        bind (transfer_sectors k slot is_write data (word_of_int (int c div int ss)) remaining transferred sector_buf) (\<lambda>(data', m). ret (data', m, sector_buf))"
      using True by (simp add: transfer_step_def s(1) p Let_def)
    show ?thesis
      unfolding eq using True m
      by (intro wp_bind_rule [OF wp_transfer_sectors [OF k on refl c _ fit data small]]) (auto simp: wp_simps Let_def split: prod.splits)
  next
    case False
    have n: "0 < min (ss - c mod ss) remaining" using s(2) rem by simp
    have eq: "transfer_step k slot is_write data (int c) remaining transferred sector_buf =
        bind (transfer_partial k slot is_write data (word_of_int (int c div int ss)) (c mod ss) (min (ss - c mod ss) remaining) transferred sector_buf)
          (\<lambda>data'. ret (data', min (ss - c mod ss) remaining, True))"
      using False by (auto simp: transfer_step_def s(1) p Let_def)
    show ?thesis
      unfolding eq using n
      by (intro wp_bind_rule [OF wp_transfer_partial [OF k on refl c fit data rem]]) (auto simp: wp_simps Let_def)
  qed
qed

lemma wp_transfer_loop_unfold:
  "wp (transfer_loop k slot is_write data cur remaining transferred sector_buf) Q z =
     wp (if remaining = 0 then bind (free_if k sector_buf) (\<lambda>_. ret (data, cur, transferred))
      else bind (transfer_step k slot is_write data cur remaining transferred sector_buf) (\<lambda>p.
        case p of (data', m, sector_buf') \<Rightarrow>
          transfer_loop k slot is_write data' (cur + int m) (remaining - m) (transferred + m) sector_buf')) Q z"
  by (subst wp_def, subst transfer_loop.simps) (simp add: wp_def)

text \<open>The loop from the byte \<open>c\<close> on: it ends, and has moved all the bytes that remained.\<close>

lemma wp_transfer_loop:
  assumes k: "disk_contract k name ss sc img" and on: "slot_on slot name ss sc"
  shows "c + remaining \<le> sc * ss \<Longrightarrow> transferred + remaining \<le> length data \<Longrightarrow> remaining < 2 ^ 32 \<Longrightarrow>
    wp (transfer_loop k slot is_write data (int c) remaining transferred sector_buf) (\<lambda>r z'.
      kernel_only z z' \<and> (let old = img (z_kernel z); new = img (z_kernel z') in case r of
        Inl e \<Rightarrow> if is_write then other_sectors ss c (c + remaining) old new else new = old
      | Inr (data', cur, m) \<Rightarrow> cur = int (c + remaining) \<and> m = transferred + remaining \<and>
          (if is_write then data' = data \<and> new = overwrite c (chunk transferred remaining data) old
           else new = old \<and> data' = overwrite transferred (chunk c remaining old) data))) z"
proof (induction remaining arbitrary: c transferred data sector_buf z rule: less_induct)
  case (less remaining)
  show ?case
  proof (cases "remaining = 0")
    case True
    then show ?thesis
      using disk_contractD(7) [OF k] by (simp add: wp_transfer_loop_unfold free_if_def wp_simps Let_def chunk_def)
  next
    case False
    have c: "c < sc * ss" and rem: "0 < remaining" using False less.prems(1) by linarith+
    show ?thesis
      unfolding wp_transfer_loop_unfold if_not_P [OF False]
    proof (rule wp_bind_rule [OF wp_transfer_step [OF k on c less.prems rem]], goal_cases)
      case (2 x z1)
      obtain data' m b where x: "x = (data', m, b)" by (cases x)
      have m: "0 < m" "m \<le> remaining" and z1: "kernel_only z z1"
        and w: "is_write \<Longrightarrow> data' = data \<and> img (z_kernel z1) = overwrite c (chunk transferred m data) (img (z_kernel z))"
        and r: "\<not> is_write \<Longrightarrow> img (z_kernel z1) = img (z_kernel z) \<and> data' = overwrite transferred (chunk c m (img (z_kernel z))) data"
        using 2 unfolding x Let_def by (auto split: if_splits)
      have li: "length (img s) = sc * ss" for s by (rule disk_contractD(1) [OF k])
      have l: "length data' = length data" using w r m less.prems(1,2) li by (cases is_write) auto
      have ow: "overwrite (c + m) (chunk (transferred + m) (remaining - m) data) (overwrite c (chunk transferred m data) (img s)) =
          overwrite c (chunk transferred remaining data) (img s)" for s
        by (rule overwrite_chunks) (use m less.prems li in auto)
      have rd: "overwrite (transferred + m) (chunk (c + m) (remaining - m) (img s)) (overwrite transferred (chunk c m (img s)) data) =
          overwrite transferred (chunk c remaining (img s)) data" for s
        by (rule overwrite_chunks) (use m less.prems li in auto)
      have ot: "other_sectors ss c (c + remaining) (img s) (overwrite c (chunk transferred m data) (img s))" for s
        by (rule other_sectors_overwrite) (use m less.prems li in auto)
      have e: "int c + int m = int (c + m)" "c + m + (remaining - m) = c + remaining" "transferred + m + (remaining - m) = transferred + remaining"
        using m by simp_all
      show ?case
        unfolding x prod.case e(1)
      proof (rule wp_mono [OF less.IH [of "remaining - m" "c + m" "transferred + m" data']], unfold e(2,3), goal_cases)
        case (5 r z2)
        then show ?case
          using z1 w r ow rd other_sectors_trans [OF ot] m by (cases r) (auto simp: Let_def split: if_splits prod.splits)
      qed (use m l less.prems in auto)
    qed (auto simp: Let_def)
  qed
qed

lemma byte_size:
  assumes on: "slot_on slot name ss sc" and p: "p = sc * ss"
  shows "dev_slot_byte_size slot = int p"
proof -
  have s: "unat (sl_sector_size slot) = ss" "unat (sl_sector_count slot) = sc" "p < 2 ^ 63" using on p by (auto simp: slot_on_def)
  have "uint (ucast (sl_sector_count slot) * ucast (sl_sector_size slot) :: u64) = int p mod 2 ^ 64"
    using s(1,2) by (simp add: p uint_word_ariths take_bit_eq_mod unsigned_ucast_eq mod_mult_eq flip: uint_nat s(1,2))
  then have u: "uint (ucast (sl_sector_count slot) * ucast (sl_sector_size slot) :: u64) = int p" using s(3) by simp
  show ?thesis unfolding dev_slot_byte_size_def sint_uint u by (rule signed_take_bit_int_eq_self) (use s(3) in simp_all)
qed

lemma wp_dev_transfer:
  assumes k: "disk_contract k name ss sc img" and slot: "slot = dev_slots z ! i" "i < length (dev_slots z)" and on: "slot_on slot name ss sc"
    and buf: "unat count \<le> length buf" and off: "off = nat (sl_offset slot)" and n: "n = min (unat count) (sc * ss - off)"
  shows "wp (dev_transfer k i buf count is_write) (\<lambda>r z'.
      let old = img (z_kernel z); new = img (z_kernel z'); moved = (dev_slots z)[i := slot\<lparr>sl_offset := sl_offset slot + int n\<rparr>] in case r of
        Inl e \<Rightarrow> (dev_slots z' = dev_slots z \<or> dev_slots z' = moved) \<and>
          (if is_write then other_sectors ss off (off + n) old new else new = old \<and> dev_slots z' = dev_slots z)
      | Inr (buf', m) \<Rightarrow> m = n \<and> dev_slots z' = moved \<and>
          (if is_write then new = overwrite off (take n buf) old
           else new = old \<and> take n buf' = chunk off n old)) z"
proof -
  have s: "sl_name slot = name" "0 < ss" "unat (sl_sector_size slot) = ss" "0 \<le> sl_offset slot" using on by (auto simp: slot_on_def)
  have nz: "sl_sector_size slot \<noteq> 0" using s(2,3) by auto
  define p where "p = sc * ss"
  have cnt: "unat count < 2 ^ 32" by (rule less_le_trans [OF unsigned_less]) simp
  note size = byte_size [OF on p_def] and n = n [folded p_def]
  have same: "(dev_slots z)[i := slot\<lparr>sl_offset := sl_offset slot\<rparr>] = dev_slots z" by (simp add: slot)
  show ?thesis
  proof (cases "p \<le> off \<or> count = 0")
    case True
    then have n0: "n = 0" "int p \<le> sl_offset slot \<or> count = 0" using off s(4) by (auto simp: n)
    have "int p \<le> sl_offset slot \<or> count = 0" using n0(2) by simp
    then show ?thesis
      unfolding dev_transfer_def wp_bind wp_gets sum.case slot(1) [symmetric] Let_def size if_not_P [OF nz]
      using n0(1) same by (simp add: wp_simps chunk_def)
  next
    case False
    then have c: "sl_offset slot = int off" "off < p" "count \<noteq> 0" using off s(4) by auto
    have rem: "(if int p - int off < uint count then unat (word_of_int (int p - int off) :: u32) else unat count) = n"
    proof (cases "int p - int off < uint count")
      case True
      then have lt: "p - off < unat count" using c(2) uint_nat [of count] by linarith
      then have "p - off < 2 ^ 32" using cnt by simp
      moreover have "int p - int off = int (p - off)" using c(2) by simp
      ultimately have "unat (word_of_int (int p - int off) :: u32) = p - off"
        by (simp only: of_int_of_nat_eq unat_word_of_nat)
      then show ?thesis using True lt by (simp add: n)
    next
      case False
      then have "unat count \<le> p - off" using c(2) uint_nat [of count] by linarith
      then show ?thesis using False by (simp add: n)
    qed
    have fit: "off + n \<le> p" "0 + n \<le> length buf" "n < 2 ^ 32"
      using c(2) buf cnt by (auto simp: n)
    have li: "length (img s) = p" for s unfolding p_def by (rule disk_contractD(1) [OF k])
    have ot: "other_sectors ss off (off + n) (img s) (overwrite off (take n buf) (img s))" for s
      by (rule other_sectors_overwrite) (use fit li in auto)
    have tk: "take n (overwrite 0 (chunk off n (img s)) buf) = chunk off n (img s)" for s
      using fit li by (simp add: overwrite_def)
    have go: "\<not> (int p \<le> int off \<or> count = 0)" using c(2,3) by simp
    show ?thesis
      unfolding dev_transfer_def wp_bind [of "gets _"] wp_gets sum.case slot(1) [symmetric] Let_def size if_not_P [OF nz] c(1) rem if_not_P [OF go]
    proof (rule wp_bind_rule [OF wp_transfer_loop [OF k on fit [unfolded p_def]]], goal_cases)
      case (2 x z1)
      obtain d' cur m where x: "x = (d', cur, m)" by (cases x)
      obtain err v s' where io: "disk_access_ioctl k name DISK_IOCTL_CTRL_SYNC (z_kernel z1) = (err, v, s')" by (metis prod_cases3)
      have s': "img s' = img (z_kernel z1)" by (rule disk_contractD(5) [OF k io])
      have z1: "dev_slots z1 = dev_slots z" "cur = int off + int n" "m = n" using 2 by (auto simp: x Let_def)
      have "if is_write then img (z_kernel z1) = overwrite off (take n buf) (img (z_kernel z))
          else img (z_kernel z1) = img (z_kernel z) \<and> d' = overwrite 0 (chunk off n (img (z_kernel z))) buf"
        using 2 by (simp add: x Let_def chunk_def)
      then show ?case
        using s' ot tk c(1) z1 by (simp add: finish_transfer_def x s(1) io wp_simps slot(1) [symmetric])
    qed (auto simp: Let_def)
  qed
qed

section \<open>Reading and writing a device\<close>

lemma wp_dev_slot_get:
  assumes "0 \<le> fd" and "fd < 16" and "sl_used (dev_slots z ! nat fd)"
  shows "wp (dev_slot_get fd) Q z = Q (Inr (nat fd)) z"
  using assms by (simp add: dev_slot_get_def wp_simps zephyr_consts)

lemma wp_dev_read_z:
  assumes k: "disk_contract k name ss sc img" and ok: "slots_ok z" and fd: "0 \<le> fd" "fd < 16" and slot: "slot = dev_slots z ! nat fd" "sl_used slot"
    and on: "slot_on slot name ss sc" and rd: "sl_open_flags slot AND MOFS_IO_OPEN_FLAG_RDONLY \<noteq> 0" and buf: "unat count \<le> length buf"
  shows "wp (dev_read_z k fd (Some buf) count) (\<lambda>r z'. img (z_kernel z') = img (z_kernel z) \<and> (case r of
      Inl e \<Rightarrow> dev_slots z' = dev_slots z
    | Inr data \<Rightarrow> data = chunk (nat (sl_offset slot)) (unat count) (img (z_kernel z)) \<and>
        dev_slots z' = (dev_slots z)[nat fd := slot\<lparr>sl_offset := sl_offset slot + int (length data)\<rparr>])) z"
proof -
  let ?off = "nat (sl_offset slot)" let ?n = "min (unat count) (sc * ss - ?off)"
  have i: "nat fd < length (dev_slots z)" using ok fd by (simp add: slots_ok_def zephyr_consts)
  have l: "length (img s) = sc * ss" for s by (rule disk_contractD(1) [OF k])
  have c: "chunk ?off ?n (img s) = chunk ?off (unat count) (img s)" for s by (simp add: chunk_def l min_def)
  have lc: "length (chunk ?off (unat count) (img s)) = ?n" for s by (simp add: length_chunk l)
  show ?thesis
    unfolding dev_read_z_def option.case wp_bind [of "dev_slot_get fd"] wp_dev_slot_get [OF fd slot(2) [unfolded slot(1)]]
      wp_bind [of "gets _"] wp_gets wp_bind [of "throw_if _ _"] wp_throw_if sum.case slot(1) [symmetric] if_not_P [OF rd]
    by (rule wp_bind_rule [OF wp_dev_transfer [OF k slot(1) i on buf refl refl]]) (auto simp: Let_def wp_simps c lc simp del: length_take split: prod.splits)
qed

lemma wp_dev_write_z:
  assumes k: "disk_contract k name ss sc img" and ok: "slots_ok z" and fd: "0 \<le> fd" "fd < 16" and slot: "slot = dev_slots z ! nat fd" "sl_used slot"
    and on: "slot_on slot name ss sc" and wr: "sl_open_flags slot AND MOFS_IO_OPEN_FLAG_WRONLY \<noteq> 0" and buf: "unat count \<le> length buf"
    and off: "off = nat (sl_offset slot)" and n: "n = min (unat count) (sc * ss - off)"
  shows "wp (dev_write_z k fd (Some buf) count) (\<lambda>r z'. case r of
      Inl e \<Rightarrow> other_sectors ss off (off + n) (img (z_kernel z)) (img (z_kernel z'))
    | Inr m \<Rightarrow> unat m = n \<and> img (z_kernel z') = overwrite off (take n buf) (img (z_kernel z)) \<and>
        dev_slots z' = (dev_slots z)[nat fd := slot\<lparr>sl_offset := sl_offset slot + int n\<rparr>]) z"
proof -
  have i: "nat fd < length (dev_slots z)" using ok fd by (simp add: slots_ok_def zephyr_consts)
  have "unat count < 2 ^ 32" by (rule less_le_trans [OF unsigned_less]) simp
  then have un: "unat (word_of_nat n :: u32) = n" by (intro unat_word_of_nat) (simp add: n)
  show ?thesis
    unfolding dev_write_z_def option.case wp_bind [of "dev_slot_get fd"] wp_dev_slot_get [OF fd slot(2) [unfolded slot(1)]]
      wp_bind [of "gets _"] wp_gets wp_bind [of "throw_if _ _"] wp_throw_if sum.case slot(1) [symmetric] if_not_P [OF wr]
    by (rule wp_bind_rule [OF wp_dev_transfer [OF k slot(1) i on buf off n]]) (auto simp: Let_def wp_simps un split: prod.splits)
qed

section \<open>A RAM disk\<close>

text \<open>The kernel's RAM disk with sectors of four bytes and a heap that never runs out: the state is the
  memory.\<close>

definition ram_kernel :: "(nat \<Rightarrow> byte) kernel" where
  "ram_kernel = \<lparr>
     disk_access_status = (\<lambda>name s. (0, s)),
     disk_access_read = (\<lambda>name sec n s. (0, map s [unat sec * 4..<unat sec * 4 + unat n * 4], s)),
     disk_access_write = (\<lambda>name buf sec n s. (0, \<lambda>i. if unat sec * 4 \<le> i \<and> i < unat sec * 4 + length buf then buf ! (i - unat sec * 4) else s i)),
     disk_access_ioctl = (\<lambda>name cmd s. (0, case cmd of DISK_IOCTL_GET_SECTOR_SIZE \<Rightarrow> 4
        | DISK_IOCTL_GET_SECTOR_COUNT \<Rightarrow> 3 | _ \<Rightarrow> 0, s)),
     k_malloc = (\<lambda>sz s. (Some (replicate sz 0), s)), k_free = (\<lambda>s. s),
     k_mutex_init = (\<lambda>m s. (0, s)), k_mutex_lock = (\<lambda>m s. (0, s)), k_mutex_unlock = (\<lambda>m s. (0, s)), k_uptime_get = (\<lambda>s. 0)\<rparr>"

definition ram_image :: "(nat \<Rightarrow> byte) \<Rightarrow> byte list" where
  "ram_image s = map s [0..<12]"

lemma ram_contract: "disk_contract ram_kernel name 4 3 ram_image"
proof -
  have rd: "map s [a..<a + n] = chunk a n (ram_image s)" if "a + n \<le> 12" for s a n
    using that by (intro nth_equalityI) (auto simp: ram_image_def nth_chunk)
  have wr: "ram_image (\<lambda>i. if a \<le> i \<and> i < a + n then buf ! (i - a) else s i) = overwrite a buf (ram_image s)"
    if "length buf = n" "a + n \<le> 12" for s a n buf
    using that by (intro nth_equalityI) (auto simp: ram_image_def nth_overwrite)
  show ?thesis
    unfolding disk_contract_def using rd wr by (auto simp: ram_kernel_def) (simp add: ram_image_def)
qed

definition ram_port :: "(nat \<Rightarrow> byte) \<Rightarrow> int \<Rightarrow> (nat \<Rightarrow> byte) zephyr" where
  "ram_port mem off = \<lparr>dev_slots = \<lparr>sl_used = True, sl_name = [82, 65, 77], sl_offset = off, sl_sector_size = 4, sl_sector_count = 3,
       sl_open_flags = MOFS_IO_OPEN_FLAG_RDWR\<rparr> # replicate 15 zero_slot,
     z_core_sync_initialized = True, z_user = initial_user_z, z_errno = 0, z_kernel = mem\<rparr>"

lemma ram_port_ok: "slots_ok (ram_port mem off)" "first_idx (\<lambda>s. \<not> sl_used s) (dev_slots (ram_port mem off)) = Some 1"
proof -
  have "replicate 15 zero_slot = zero_slot # replicate 14 zero_slot" by (simp flip: replicate_Suc)
  then show "slots_ok (ram_port mem off)" "first_idx (\<lambda>s. \<not> sl_used s) (dev_slots (ram_port mem off)) = Some 1"
    by (simp_all add: slots_ok_def ram_port_def zephyr_consts) (simp add: zero_slot_def)
qed

section \<open>Properties\<close>

text \<open>C11. Reading a Zephyr device reads bytes: over any disk that keeps the sector contract, a read of
  \<open>count\<close> bytes, whatever their alignment to sectors, ends and returns the bytes of the disk from
  the offset of the handle on, up to the end of the device, and moves the offset by their number; an
  error moves nothing. The disk does not change.\<close>

theorem zephyr_read_is_exact:
  assumes "disk_contract k name ss sc img" and "slots_ok z" and "0 \<le> fd" and "fd < 16" and "slot = dev_slots z ! nat fd" and "sl_used slot"
    and "slot_on slot name ss sc" and "sl_open_flags slot AND MOFS_IO_OPEN_FLAG_RDONLY \<noteq> 0" and "unat count \<le> length buf"
  shows "wp (dev_read_z k fd (Some buf) count) (\<lambda>r z'. img (z_kernel z') = img (z_kernel z) \<and> (case r of
      Inl e \<Rightarrow> dev_slots z' = dev_slots z
    | Inr data \<Rightarrow> data = chunk (nat (sl_offset slot)) (unat count) (img (z_kernel z)) \<and>
        dev_slots z' = (dev_slots z)[nat fd := slot\<lparr>sl_offset := sl_offset slot + int (length data)\<rparr>])) z"
  by (rule wp_dev_read_z [OF assms])

text \<open>Seven bytes from offset 2 of the RAM disk that holds the numbers 0 to 11.\<close>

theorem zephyr_read_is_exact_witness:
  "wp (dev_read_z ram_kernel 0 (Some (replicate 7 0)) 7) (\<lambda>r z'. \<not> (\<exists>data. r = Inr data \<and> data \<noteq> [2, 3, 4, 5, 6, 7, 8])) (ram_port word_of_nat 2)"
proof -
  have c: "chunk 2 7 (ram_image word_of_nat) = [2, 3, 4, 5, 6, 7, 8]" by (simp add: chunk_def ram_image_def upt_conv_Cons)
  have k: "z_kernel (ram_port word_of_nat 2) = word_of_nat" by (simp add: ram_port_def)
  show ?thesis
    by (rule wp_mono [OF zephyr_read_is_exact [OF ram_contract [of "[82, 65, 77]"] ram_port_ok(1) _ _ refl, where fd = 0 and count = 7 and buf = "replicate 7 0"]])
      (auto simp: slot_on_def k c ram_port_def devio_consts)
qed

text \<open>C9. Writing a Zephyr device writes bytes: a write, through whole sectors and a read-modify-write of
  the partial ones, ends; a success has replaced exactly the bytes at the offset, as many as fit
  on the device, and moved the offset; an error has touched no sector but those that hold bytes of
  the request.\<close>

theorem zephyr_write_is_exact:
  assumes "disk_contract k name ss sc img" and "slots_ok z" and "0 \<le> fd" and "fd < 16" and "slot = dev_slots z ! nat fd" and "sl_used slot"
    and "slot_on slot name ss sc" and "sl_open_flags slot AND MOFS_IO_OPEN_FLAG_WRONLY \<noteq> 0" and "unat count \<le> length buf"
    and "off = nat (sl_offset slot)" and "n = min (unat count) (sc * ss - off)"
  shows "wp (dev_write_z k fd (Some buf) count) (\<lambda>r z'. case r of
      Inl e \<Rightarrow> other_sectors ss off (off + n) (img (z_kernel z)) (img (z_kernel z'))
    | Inr m \<Rightarrow> unat m = n \<and> img (z_kernel z') = overwrite off (take n buf) (img (z_kernel z)) \<and>
        dev_slots z' = (dev_slots z)[nat fd := slot\<lparr>sl_offset := sl_offset slot + int n\<rparr>]) z"
  by (rule wp_dev_write_z [OF assms])

text \<open>A write of four bytes at offset 10 of the RAM disk of twelve bytes stores two.\<close>

theorem zephyr_write_is_exact_witness:
  "wp (dev_write_z ram_kernel 0 (Some [9, 9, 9, 9]) 4) (\<lambda>r z'. \<not> (\<exists>m. r = Inr m \<and>
     \<not> (m = 2 \<and> ram_image (z_kernel z') = [0, 1, 2, 3, 4, 5, 6, 7, 8, 9, 9, 9]))) (ram_port word_of_nat 10)"
proof -
  have c: "overwrite 10 [9, 9] (ram_image word_of_nat) = [0, 1, 2, 3, 4, 5, 6, 7, 8, 9, 9, 9]" by (simp add: overwrite_def ram_image_def upt_conv_Cons)
  have k: "z_kernel (ram_port word_of_nat 10) = word_of_nat" by (simp add: ram_port_def)
  show ?thesis
    by (rule wp_mono [OF zephyr_write_is_exact [OF ram_contract [of "[82, 65, 77]"] ram_port_ok(1) _ _ refl, where fd = 0 and count = 4 and buf = "[9, 9, 9, 9]"]])
      (auto simp: slot_on_def k c ram_port_def devio_consts word_unat_eq_iff)
qed

text \<open>C19. Opening a Zephyr device loses no slot: a success takes the first free entry of the table, a
  failure, wherever it happens, leaves the table as it was.\<close>

theorem zephyr_open_loses_no_slot:
  assumes "slots_ok z"
  shows "wp (dev_open_z k path oflag) (\<lambda>r z'. slots_ok z' \<and> (case r of
      Inl e \<Rightarrow> dev_slots z' = dev_slots z
    | Inr fd \<Rightarrow> \<exists>i s. fd = int i \<and> first_idx (\<lambda>s. \<not> sl_used s) (dev_slots z) = Some i \<and> dev_slots z' = (dev_slots z)[i := s] \<and>
        sl_used s \<and> sl_offset s = 0 \<and> sl_open_flags s = oflag \<and> (\<exists>p. path = Some p \<and> sl_name s = take 31 p))) z"
  by (rule wp_dev_open_z [OF assms])

theorem zephyr_open_loses_no_slot_witness:
  "wp (dev_open_z ram_kernel (Some [82, 65, 77]) MOFS_IO_OPEN_FLAG_RDWR) (\<lambda>r z'. slots_ok z' \<and> \<not> (\<exists>fd. r = Inr fd \<and> fd \<noteq> 1)) (ram_port word_of_nat 0)"
  by (rule wp_mono [OF zephyr_open_loses_no_slot [OF ram_port_ok(1)]])
    (auto simp: ram_port_ok(2))

end
