(* ===== verification/Spec2Isabelle.thy ===== *)
theory Spec2Isabelle
  imports Mofs_Props_Io Mofs_Props_Fs Mofs_Props_File Mofs_Props_Call Mofs_Zephyr_Devio
begin

text \<open>
  A verification development of MOFS, a small file system in C.

  \<^bold>\<open>The program.\<close> The portable core (\<open>src/core\<close>) keeps a volume on a block device: a superblock,
  a bitmap of inodes, a bitmap of data blocks, the inode table and the data region. The blocks of a
  file are listed by a chain of list nodes, which are data blocks too. All block I/O goes through
  one of three builds of the buffer cache (none, one pool, separate pools for metadata and data).
  Above it are inodes, directories and paths, files and handles, and the POSIX-like calls
  (\<open>src/posix\<close>), which hold the core lock while they run the core. The core calls the operating
  system through a port: \<open>src/os/linux\<close> with a FUSE file system, and \<open>src/os/zephyr\<close> with a file
  system for the VFS of Zephyr.

  \<^bold>\<open>How code is translated.\<close> A C function is a program \<open>'a mofs\<close>: a function from the world to
  nothing (\<open>None\<close>: undefined behaviour or a loop that does not end), or to a result, an error code or
  a value, with the new world. The world is a record with the static variables of the core (context,
  handle pools, cache pools), the locks, the caller, the device and the operating system. Structures
  are records, buffers lists of bytes, machine integers words of their width; \<open>int\<close> values and
  offsets are integers, with the conversions written out. An out parameter is part of the
  result. The order of effects and the clean-up after \<open>goto\<close> are kept (\<open>ensuring\<close>,
  \<open>on_error\<close>, \<open>with_malloc\<close>). Every call of the operating system may fail or be partial as the
  function \<open>os_fault\<close> says; it is a free variable of the theorems, so they cover every pattern of
  failures, and what holds only without failures has \<open>calm\<close> as its condition.

  \<^bold>\<open>Theories and sources.\<close>
  \<^item> \<open>Mofs_Prelude\<close>: error codes (\<open>mofs_errno.h\<close>), the program monad, weakest preconditions and
    their rules, byte buffers. \<open>Mofs_Types\<close>: on-disk structures of \<open>mofs_core.h\<close> and their encoding.
  \<^item> \<open>Mofs_World\<close>, \<open>Mofs_Devio\<close>, \<open>Mofs_User\<close>: the world and the Linux services, \<open>os_errno.c\<close>,
    \<open>os_mem.c\<close>, \<open>os_sync.c\<close>, \<open>os_time.c\<close>, \<open>os_devio.c\<close>, \<open>os_user.c\<close>, and \<open>mofs_perm.c\<close>.
  \<^item> \<open>Mofs_Raw\<close>: raw transfer of blocks (\<open>mofs_block.c\<close>). \<open>Mofs_Cache_Spec\<close>: what the core expects
    of block I/O, as locales. \<open>Mofs_Buffer\<close>, \<open>Mofs_Buffer_Inv\<close>, \<open>Mofs_Buffer_Laws\<close>,
    \<open>Mofs_Buffer_API\<close>, \<open>Mofs_Buffer_Split\<close>: \<open>mofs_buffer.c\<close> and \<open>mofs_buffer_split.c\<close>.
    \<open>Mofs_Blockio\<close>: the choice of the build.
  \<^item> \<open>Mofs_Bitmap\<close>, \<open>Mofs_List\<close>: bitmaps and block lists (\<open>mofs_block.c\<close>); \<open>Mofs_Inode\<close>:
    \<open>mofs_inode.c\<close>.
  \<^item> \<open>Mofs_Dirent\<close>, \<open>Mofs_Path\<close>, \<open>Mofs_Dir\<close>, \<open>Mofs_File\<close>, \<open>Mofs_Format\<close>, \<open>Mofs_Posix\<close>: \<open>mofs_path.c\<close>,
    \<open>mofs_dir.c\<close>, \<open>mofs_file.c\<close>, \<open>mofs_format.c\<close>, \<open>mofs_core.c\<close> and \<open>posix.c\<close>.
  \<^item> \<open>Mofs_Disk\<close>, \<open>Mofs_Maps\<close>, \<open>Mofs_Chain\<close>, \<open>Mofs_Alloc\<close>, \<open>Mofs_Fs\<close>, \<open>Mofs_Filedata\<close>,
    \<open>Mofs_Handle\<close>, \<open>Mofs_Access\<close>, \<open>Mofs_Read\<close>, \<open>Mofs_Write\<close>, \<open>Mofs_Write_Core\<close>,
    \<open>Mofs_Truncate\<close>: contracts of these routines, from the bitmaps up to whole files.
  \<^item> \<open>Mofs_Zephyr\<close>, \<open>Mofs_Zephyr_Devio\<close>: \<open>src/os/zephyr/service\<close>. \<open>Mofs_Fuse\<close>: \<open>fuse_ops.c\<close>.
    \<open>Mofs_Vfs\<close>: \<open>mofs_vfs.c\<close>.
  \<^item> \<open>Mofs_Demo\<close>: a concrete volume. \<open>Mofs_Props_Io\<close>, \<open>Mofs_Props_Fs\<close>, \<open>Mofs_Props_File\<close>,
    \<open>Mofs_Props_Call\<close>, with the last section of \<open>Mofs_Zephyr_Devio\<close>: the properties.

  \<^bold>\<open>Interfaces.\<close> The locale \<open>block_cache\<close> states what reading, writing, patching and invalidating a
  block promise about the current content of the blocks, \<open>write_back_cache\<close> adds the flush; the
  unified cache, the split cache and the selected build interpret them. \<open>inode_store\<close> (reading and
  writing inodes) is interpreted by the inode table and \<open>free_map\<close> (a set of used indices) by both
  bitmaps.

  \<^bold>\<open>What is shown.\<close>
  \<^item> Encodings lose nothing; raw I/O stores a prefix and counts exactly.
  \<^item> Every build of the cache behaves as an array of blocks under every pattern of failures, a
    successful flush makes it durable, and the slot given up is a least recently used one.
  \<^item> The bitmaps are searched first-fit and changed bit by bit. The loops over block lists end on
    well-formed lists. Appending and removing blocks keep the invariant \<open>fs_inv\<close>: the lists of
    all files are well-formed and disjoint, and exactly the blocks they use are marked.
  \<^item> Reading, writing and truncating refine the operations on a sequence of bytes, with the exact
    conditions of refusal; no other file changes and \<open>fs_inv\<close> is kept. The check of permissions
    is the one of UNIX.
  \<^item> The device layer of the Zephyr port reads and writes an array of bytes over any disk driver
    that behaves as an array of sectors (\<open>disk_contract\<close>).
  \<^item> The POSIX calls, the FUSE callbacks and the VFS callbacks report the result of the core with
    the right errno and hold the lock exactly while the core runs.

  \<^bold>\<open>Loops.\<close> Loops with a bound are recursions over the list of their indices, or on the rest of the
  data. The loops that follow links on disk (\<open>resolve_loop\<close>, \<open>export_loop\<close>, \<open>free_chain_loop\<close>), the
  transfer loop of Zephyr and the loop of the FUSE directory listing need not end and are partial
  functions; that the list walks and the transfer end is part of what is proved of them. No fuel is
  used.

  \<^bold>\<open>Parameters.\<close> libfuse gives the request context and the directory filler. The disk driver, the
  heap, the mutexes and the clock of Zephyr are the fields of a record \<open>kernel\<close>.

  \<^bold>\<open>Not modelled.\<close> Logging, the main programs of \<open>mkfs_mofs\<close> and the FUSE daemon, the Zephyr example
  program and the registration with its VFS: argument parsing, messages and start-up. Interleavings
  of threads are not modelled: the core runs under one lock. Memory is not addressed: buffers are
  values, and what matters of the heap is whether an allocation fails.
\<close>

end
